(* ===== verification/Arena_Prelude.thy ===== *)
theory Arena_Prelude
  imports Main "HOL-Library.Word"
begin

text \<open>
  Shared vocabulary of the development: Go strings (byte strings, modelled as HOL
  \<open>string\<close>), the collections of rewrite rules the component theories use, and the
  generic facts on lists and options that more than one of them needs.
\<close>

named_theorems go_text \<open>rewrite rules for the Go text helpers\<close>
named_theorems step_defs \<open>definitions unfolded when a single step is analysed\<close>

type_synonym path = string
type_synonym cmd = "string list"

section \<open>Bytes and digits\<close>

abbreviation byte :: "char \<Rightarrow> nat" where
  "byte c \<equiv> of_char c"

definition is_digit :: "char \<Rightarrow> bool" where
  "is_digit c \<longleftrightarrow> 48 \<le> byte c \<and> byte c \<le> 57"

definition digit_val :: "char \<Rightarrow> nat" where
  "digit_val c = byte c - 48"

definition digit_char :: "nat \<Rightarrow> char" where
  "digit_char d = char_of (48 + d)"

lemma is_digit_digit_char [simp]: "d < 10 \<Longrightarrow> is_digit (digit_char d)"
  by (simp add: is_digit_def digit_char_def)

lemma digit_val_digit_char [simp]: "d < 10 \<Longrightarrow> digit_val (digit_char d) = d"
  by (simp add: digit_val_def digit_char_def)

lemma digit_char_digit_val [simp]: "is_digit c \<Longrightarrow> digit_char (digit_val c) = c"
  by (simp add: is_digit_def digit_val_def digit_char_def)

lemma digit_val_less_10: "is_digit c \<Longrightarrow> digit_val c < 10"
  by (auto simp: is_digit_def digit_val_def)

lemma digit_char_not_dot [simp]: "d < 10 \<Longrightarrow> digit_char d \<noteq> CHR ''.''"
  by (drule is_digit_digit_char) (auto simp: is_digit_def)

lemma digit_char_not_slash [simp]: "d < 10 \<Longrightarrow> digit_char d \<noteq> CHR ''/''"
  by (drule is_digit_digit_char) (auto simp: is_digit_def)

section \<open>Decimal rendering (\<open>strconv.Itoa\<close> on a natural number)\<close>

fun dec :: "nat \<Rightarrow> string" where
  "dec n = (if n < 10 then [digit_char n] else dec (n div 10) @ [digit_char (n mod 10)])"

declare dec.simps [simp del]

lemma dec_small [simp]: "n < 10 \<Longrightarrow> dec n = [digit_char n]"
  by (simp add: dec.simps [of n])

lemma dec_nonempty [simp]: "dec n \<noteq> []"
  by (simp add: dec.simps [of n])

lemma dec_snoc: "dec (10 * n + d) = (if n = 0 then [digit_char d] else dec n @ [digit_char d])"
  if "d < 10"
  using that by (subst dec.simps) auto

lemma dec_digits: "\<forall>c \<in> set (dec n). is_digit c"
proof (induction n rule: dec.induct)
  case (1 n)
  show ?case
  proof (cases "n < 10")
    case True
    then show ?thesis by simp
  next
    case False
    with "1.IH" show ?thesis by (subst dec.simps) simp
  qed
qed

text \<open>Reading a run of digits back, most significant first.\<close>

definition undec :: "string \<Rightarrow> nat" where
  "undec s = foldl (\<lambda>v c. 10 * v + digit_val c) 0 s"

lemma undec_snoc: "undec (s @ [c]) = 10 * undec s + digit_val c"
  by (simp add: undec_def)

lemma undec_dec [simp]: "undec (dec n) = n"
proof (induction n rule: dec.induct)
  case (1 n)
  show ?case
  proof (cases "n < 10")
    case True
    then show ?thesis by (simp add: undec_def)
  next
    case False
    with "1.IH" show ?thesis by (subst dec.simps) (simp add: undec_snoc)
  qed
qed

lemma dec_inject [simp]: "dec m = dec n \<longleftrightarrow> m = n"
  by (metis undec_dec)

section \<open>Lists\<close>

lemma find_Some_iff_in: "List.find P xs = Some x \<Longrightarrow> P x \<and> x \<in> set xs"
  by (auto simp: find_Some_iff)

lemma filter_sublist_subset: "set (filter P xs) \<subseteq> set xs"
  by simp

section \<open>\<open>strings\<close>\<close>

text \<open>
  \<open>strings.Contains\<close>, and \<open>strings.ToLower\<close> as far as an ASCII needle can tell: ASCII
  letters, and the two other letters Unicode lowers into ASCII (the Kelvin sign and the
  dotted capital I); every other character keeps a non-ASCII lower case.
\<close>

fun contains_str :: "string \<Rightarrow> string \<Rightarrow> bool" where
  "contains_str [] sub = (sub = [])"
| "contains_str (c # cs) sub = (take (length sub) (c # cs) = sub \<or> contains_str cs sub)"

definition lower_ascii :: "char \<Rightarrow> char" where
  "lower_ascii c = (if 65 \<le> byte c \<and> byte c \<le> 90 then char_of (byte c + 32) else c)"

fun to_lower :: "string \<Rightarrow> string" where
  "to_lower [] = []"
| "to_lower (a # b # c # s) =
     (if a = CHR 0xE2 \<and> b = CHR 0x84 \<and> c = CHR 0xAA then CHR ''k'' # to_lower s
      else if a = CHR 0xC4 \<and> b = CHR 0xB0 then CHR ''i'' # to_lower (c # s)
      else lower_ascii a # to_lower (b # c # s))"
| "to_lower [a, b] = (if a = CHR 0xC4 \<and> b = CHR 0xB0 then ''i'' else [lower_ascii a, lower_ascii b])"
| "to_lower [a] = [lower_ascii a]"

end
