(* ===== verification/Netip.thy ===== *)
theory Netip
  imports Arena_Prelude
begin

unbundle bit_operations_syntax

text \<open>
  The part of Go's \<open>net/netip\<close> that the client relies on: IPv4 addresses, prefixes, their
  textual form and prefix containment. Callers reject every IPv6 address with the same
  error as an unparsable one, so the parsers here return \<open>None\<close> for both.
\<close>

section \<open>Addresses and prefixes\<close>

type_synonym ipv4 = "32 word"

record prefix4 =
  pfx_addr :: ipv4
  pfx_bits :: nat

definition ip4 :: "nat \<Rightarrow> nat \<Rightarrow> nat \<Rightarrow> nat \<Rightarrow> ipv4" where
  "ip4 a b c d = word_of_nat (((a * 256 + b) * 256 + c) * 256 + d)"

definition octet :: "nat \<Rightarrow> ipv4 \<Rightarrow> nat" where
  "octet i w = (unat w div 256 ^ (3 - i)) mod 256"

definition masked :: "prefix4 \<Rightarrow> prefix4" where
  "masked p = p\<lparr>pfx_addr := pfx_addr p AND NOT (mask (32 - pfx_bits p))\<rparr>"

text \<open>Go compares \<open>uint32(a xor p)\<close> shifted right by \<open>32 - bits\<close> with zero.\<close>

definition pfx_contains :: "prefix4 \<Rightarrow> ipv4 \<Rightarrow> bool" where
  "pfx_contains p a \<longleftrightarrow> drop_bit (32 - pfx_bits p) (a XOR pfx_addr p) = 0"

lemma octet_less [simp]: "octet i w < 256"
  by (simp add: octet_def)

lemma unat_word32: "n < 2 ^ 32 \<Longrightarrow> unat (word_of_nat n :: ipv4) = n"
  by (simp add: unsigned_of_nat take_bit_nat_eq_self)

lemma unat_ip4:
  "a < 256 \<Longrightarrow> b < 256 \<Longrightarrow> c < 256 \<Longrightarrow> d < 256 \<Longrightarrow>
   unat (ip4 a b c d) = ((a * 256 + b) * 256 + c) * 256 + d"
  unfolding ip4_def by (rule unat_word32) simp

lemma byte_shift: "d < 256 \<Longrightarrow> (x * 256 + d) div 256 = x" "d < 256 \<Longrightarrow> (x * 256 + d) mod 256 = d"
  for d x :: nat
  by simp_all

lemma octet_shifts:
  "octet 3 w = unat w mod 256" "octet 2 w = unat w div 256 mod 256"
  "octet (Suc 0) w = unat w div 256 div 256 mod 256"
  "octet 0 w = unat w div 256 div 256 div 256 mod 256"
  by (simp_all add: octet_def div_mult2_eq [symmetric])

lemma octet_ip4 [simp]:
  assumes "a < 256" "b < 256" "c < 256" "d < 256"
  shows "octet 0 (ip4 a b c d) = a" "octet (Suc 0) (ip4 a b c d) = b"
    "octet 2 (ip4 a b c d) = c" "octet 3 (ip4 a b c d) = d"
  using assms by (simp_all only: octet_shifts unat_ip4 byte_shift mod_less)

lemma ip4_octets [simp]: "ip4 (octet 0 w) (octet (Suc 0) w) (octet 2 w) (octet 3 w) = w"
proof -
  have "unat w < 2 ^ 32" using unsigned_less [of w, where 'a = nat] by simp
  then have "unat w div 256 div 256 div 256 < 256" by (simp add: div_mult2_eq [symmetric])
  then have "((octet 0 w * 256 + octet (Suc 0) w) * 256 + octet 2 w) * 256 + octet 3 w = unat w"
    by (simp only: octet_shifts mod_less div_mult_mod_eq)
  then show ?thesis by (simp only: ip4_def of_nat_unat ucast_id)
qed

lemma pfx_contains_self [simp]: "pfx_contains p (pfx_addr p)"
  by (simp add: pfx_contains_def)

lemma xor_zero_iff: "x XOR y = 0 \<longleftrightarrow> x = y" for x y :: ipv4
  by (auto simp: bit_eq_iff bit_xor_iff)

lemma pfx_contains_eq:
  "pfx_contains p a \<longleftrightarrow> drop_bit (32 - pfx_bits p) a = drop_bit (32 - pfx_bits p) (pfx_addr p)"
  by (simp add: pfx_contains_def xor_zero_iff)

text \<open>A longer prefix whose base lies in a shorter one is a subset of it.\<close>

lemma pfx_contains_trans:
  assumes "pfx_contains q (pfx_addr p)" "pfx_bits q \<le> pfx_bits p" "pfx_bits p \<le> 32"
    "pfx_contains p a"
  shows "pfx_contains q a"
proof -
  have "32 - pfx_bits q = (pfx_bits p - pfx_bits q) + (32 - pfx_bits p)"
    using assms(2,3) by simp
  then have "drop_bit (32 - pfx_bits q) w =
      drop_bit (pfx_bits p - pfx_bits q) (drop_bit (32 - pfx_bits p) w)" for w :: ipv4
    by simp
  with assms(1,4) show ?thesis by (simp only: pfx_contains_eq)
qed

lemma pfx_contains_host [simp]: "pfx_bits p = 32 \<Longrightarrow> pfx_contains p a \<longleftrightarrow> a = pfx_addr p"
  by (simp add: pfx_contains_eq)

section \<open>Textual form\<close>

definition addr_string :: "ipv4 \<Rightarrow> string" where
  "addr_string w = dec (octet 0 w) @ ''.'' @ dec (octet 1 w) @ ''.'' @ dec (octet 2 w) @ ''.''
     @ dec (octet 3 w)"

definition prefix_string :: "prefix4 \<Rightarrow> string" where
  "prefix_string p = addr_string (pfx_addr p) @ ''/'' @ dec (pfx_bits p)"

text \<open>
  \<open>parseIPv4Fields\<close> of \<open>net/netip\<close>: \<open>prev\<close> is the byte before the current position
  (\<open>None\<close> at the start), \<open>digLen\<close> the number of digits of the current octet.
\<close>

fun parseIPv4Fields :: "char option \<Rightarrow> nat \<Rightarrow> nat \<Rightarrow> nat list \<Rightarrow> string \<Rightarrow> nat list option" where
  "parseIPv4Fields prev val digLen fs [] =
     (if length fs < 3 then None else Some (fs @ [val]))"
| "parseIPv4Fields prev val digLen fs (c # cs) =
     (if is_digit c then
        if digLen = 1 \<and> val = 0 then None
        else if val * 10 + digit_val c > 255 then None
        else parseIPv4Fields (Some c) (val * 10 + digit_val c) (digLen + 1) fs cs
      else if c = CHR ''.'' then
        if prev = None \<or> cs = [] \<or> prev = Some (CHR ''.'') then None
        else if length fs = 3 then None
        else parseIPv4Fields (Some c) 0 0 (fs @ [val]) cs
      else None)"

definition parseIPv4 :: "string \<Rightarrow> ipv4 option" where
  "parseIPv4 s = (case parseIPv4Fields None 0 0 [] s of
     Some [a, b, c, d] \<Rightarrow> Some (ip4 a b c d) | _ \<Rightarrow> None)"

definition parseAddr4 :: "string \<Rightarrow> ipv4 option" where
  "parseAddr4 s = (case List.find (\<lambda>c. c = CHR ''.'' \<or> c = CHR '':'' \<or> c = CHR ''%'') s of
     Some c \<Rightarrow> (if c = CHR ''.'' then parseIPv4 s else None) | None \<Rightarrow> None)"

definition parsePrefixBits :: "string \<Rightarrow> nat option" where
  "parsePrefixBits bs =
     (if length bs > 1 \<and> (byte (hd bs) < 49 \<or> byte (hd bs) > 57) then None
      else if bs = [] \<or> \<not> list_all is_digit bs then None
      else if undec bs > 32 then None else Some (undec bs))"

definition last_slash :: "string \<Rightarrow> (string \<times> string) option" where
  "last_slash s = (case dropWhile (\<lambda>c. c \<noteq> CHR ''/'') (rev s) of
     [] \<Rightarrow> None
   | _ # r \<Rightarrow> Some (rev r, rev (takeWhile (\<lambda>c. c \<noteq> CHR ''/'') (rev s))))"

definition parsePrefix4 :: "string \<Rightarrow> prefix4 option" where
  "parsePrefix4 s = (case last_slash s of None \<Rightarrow> None
     | Some (ip, bs) \<Rightarrow> (case parseAddr4 ip of None \<Rightarrow> None
       | Some a \<Rightarrow> (case parsePrefixBits bs of None \<Rightarrow> None
         | Some n \<Rightarrow> Some \<lparr>pfx_addr = a, pfx_bits = n\<rparr>)))"


section \<open>Parsing and printing are inverse\<close>

lemma undec_pos: "bs \<noteq> [] \<Longrightarrow> digit_val (hd bs) \<noteq> 0 \<Longrightarrow> undec bs \<noteq> 0"
proof (induction bs rule: rev_induct)
  case (snoc c bs)
  then show ?case by (cases "bs = []") (auto simp: undec_snoc undec_def)
qed simp

definition no_lead0 :: "string \<Rightarrow> bool" where
  "no_lead0 bs \<longleftrightarrow> list_all is_digit bs \<and> (length bs > 1 \<longrightarrow> digit_val (hd bs) \<noteq> 0)"

lemma dec_undec: "bs \<noteq> [] \<Longrightarrow> no_lead0 bs \<Longrightarrow> dec (undec bs) = bs"
proof (induction bs rule: rev_induct)
  case (snoc c bs)
  show ?case
  proof (cases "bs = []")
    case True
    with snoc.prems show ?thesis by (simp add: undec_def no_lead0_def digit_val_less_10)
  next
    case False
    with snoc.prems have "digit_val (hd bs) \<noteq> 0" and "no_lead0 bs" and c: "is_digit c"
      by (auto simp: no_lead0_def)
    with False have "undec bs \<noteq> 0" and "dec (undec bs) = bs"
      using snoc.IH undec_pos by blast+
    with c show ?thesis by (simp add: undec_snoc dec_snoc digit_val_less_10)
  qed
qed simp

lemma no_lead0_dec: "no_lead0 (dec n)"
proof -
  have "length (dec n) > 1 \<Longrightarrow> digit_val (hd (dec n)) \<noteq> 0" for n
  proof (induction n rule: dec.induct)
    case (1 n)
    show ?case
    proof (cases "n < 10")
      case True
      with "1.prems" show ?thesis by simp
    next
      case False
      then have hd: "hd (dec n) = hd (dec (n div 10))" by (simp add: dec.simps [of n])
      show ?thesis
      proof (cases "length (dec (n div 10)) > 1")
        case True
        with False "1.IH" hd show ?thesis by simp
      next
        case short: False
        then have "n div 10 < 10"
          by (rule contrapos_np) (simp add: dec.simps [of "n div 10"] Suc_le_eq)
        with False hd show ?thesis by simp
      qed
    qed
  qed
  then show ?thesis using dec_digits by (simp add: no_lead0_def list_all_iff)
qed

lemma parsePrefixBits_dec [simp]: "n \<le> 32 \<Longrightarrow> parsePrefixBits (dec n) = Some n"
proof -
  assume "n \<le> 32"
  have lead: "length (dec n) > 1 \<Longrightarrow> 49 \<le> byte (hd (dec n)) \<and> byte (hd (dec n)) \<le> 57"
    using no_lead0_dec [of n] by (cases "dec n") (auto simp: no_lead0_def is_digit_def digit_val_def)
  have "list_all is_digit (dec n)" using no_lead0_dec [of n] by (simp add: no_lead0_def)
  with lead \<open>n \<le> 32\<close> show ?thesis by (auto simp: parsePrefixBits_def)
qed

lemma parsePrefixBits_sound:
  "parsePrefixBits bs = Some n \<Longrightarrow> bs = dec n \<and> n \<le> 32"
proof -
  assume p: "parsePrefixBits bs = Some n"
  then have "bs \<noteq> []" and n: "n = undec bs" "n \<le> 32"
    by (auto simp: parsePrefixBits_def split: if_splits)
  moreover from p have "no_lead0 bs"
    by (cases bs) (auto simp: parsePrefixBits_def no_lead0_def digit_val_def split: if_splits)
  ultimately show ?thesis by (simp add: dec_undec)
qed

lemma last_slash_append [simp]:
  assumes "list_all is_digit bs"
  shows "last_slash (ip @ ''/'' @ bs) = Some (ip, bs)"
proof -
  let ?P = "\<lambda>c. c \<noteq> CHR ''/''"
  have noslash: "\<And>c. c \<in> set (rev bs) \<Longrightarrow> ?P c"
    using assms by (auto simp: list_all_iff is_digit_def)
  have "dropWhile ?P (rev bs @ CHR ''/'' # rev ip) = CHR ''/'' # rev ip"
    using noslash by (subst dropWhile_append2) auto
  moreover have "takeWhile ?P (rev bs @ CHR ''/'' # rev ip) = rev bs"
    using noslash by (subst takeWhile_append2) auto
  ultimately show ?thesis by (simp add: last_slash_def)
qed

lemma last_slash_sound: "last_slash s = Some (ip, bs) \<Longrightarrow> s = ip @ ''/'' @ bs"
proof -
  assume a: "last_slash s = Some (ip, bs)"
  let ?P = "\<lambda>c. c \<noteq> CHR ''/''"
  from a obtain c r where d: "dropWhile ?P (rev s) = c # r" and
    ip: "ip = rev r" "bs = rev (takeWhile ?P (rev s))"
    by (auto simp: last_slash_def split: list.splits)
  from d have c: "c = CHR ''/''" by (simp add: dropWhile_eq_Cons_conv)
  have "rev s = takeWhile ?P (rev s) @ c # r"
    using takeWhile_dropWhile_id [of ?P "rev s"] d by simp
  then have "s = rev (takeWhile ?P (rev s) @ c # r)" by (simp only: rev_swap)
  with ip c show ?thesis by simp
qed

fun join_dots :: "nat list \<Rightarrow> string" where
  "join_dots [] = []"
| "join_dots [n] = dec n"
| "join_dots (n # m # ns) = dec n @ ''.'' @ join_dots (m # ns)"

lemma join_dots_Cons: "ns \<noteq> [] \<Longrightarrow> join_dots (n # ns) = dec n @ ''.'' @ join_dots ns"
  by (cases ns) auto

text \<open>\<open>cur\<close> is the text of the octet being read.\<close>

lemma parse_fields_sound:
  assumes "parseIPv4Fields prev val digLen fs cs = Some r"
    and "digLen = length cur" "no_lead0 cur" "val = undec cur" "val < 256"
    and "length fs \<le> 3" "cs = [] \<longrightarrow> cur \<noteq> []" "cur \<noteq> [] \<or> prev = None \<or> prev = Some (CHR ''.'')"
  shows "\<exists>ns. r = fs @ ns \<and> ns \<noteq> [] \<and> length r = 4 \<and> (\<forall>n \<in> set ns. n < 256)
    \<and> join_dots ns = cur @ cs"
  using assms
proof (induction prev val digLen fs cs arbitrary: cur rule: parseIPv4Fields.induct)
  case (1 prev val digLen fs)
  then show ?case by (intro exI [of _ "[val]"]) (auto simp: dec_undec split: if_splits)
next
  case (2 prev val digLen fs c cs)
  show ?case
  proof (cases "is_digit c")
    case True
    with "2.prems"(1) have guard: "\<not> (digLen = 1 \<and> val = 0)" "\<not> val * 10 + digit_val c > 255"
      and rest: "parseIPv4Fields (Some c) (val * 10 + digit_val c) (digLen + 1) fs cs = Some r"
      by (auto split: if_splits)
    have "no_lead0 (cur @ [c])"
      using "2.prems"(2,3,4) guard(1) True
      by (cases cur; cases "tl cur") (auto simp: no_lead0_def undec_def)
    moreover have "val * 10 + digit_val c = undec (cur @ [c])"
      using "2.prems"(4) by (simp add: undec_snoc)
    ultimately show ?thesis
      using "2.IH"(1) [OF True guard rest, of "cur @ [c]"] "2.prems"(2,6) guard(2) by auto
  next
    case False
    with "2.prems"(1) have c: "c = CHR ''.''" and guard: "\<not> (prev = None \<or> cs = [] \<or> prev = Some (CHR ''.''))"
      "length fs \<noteq> 3"
      and rest: "parseIPv4Fields (Some c) 0 0 (fs @ [val]) cs = Some r"
      by (auto split: if_splits)
    from guard(1) "2.prems"(8) have cur: "cur \<noteq> []" by auto
    obtain ns where ns: "r = (fs @ [val]) @ ns" "ns \<noteq> []" "length r = 4" "\<forall>n \<in> set ns. n < 256"
      "join_dots ns = [] @ cs"
      using "2.IH"(2) [OF False c guard rest, of "[]"] "2.prems"(6) guard c
      by (auto simp: no_lead0_def undec_def)
    then have "join_dots (val # ns) = cur @ c # cs"
      using cur "2.prems"(3,4) c by (simp add: join_dots_Cons dec_undec)
    with ns "2.prems"(5) show ?thesis by (intro exI [of _ "val # ns"]) auto
  qed
qed

lemma parse_fields_three:
  assumes "a < 10" "b < 10" "c < 10" "a \<noteq> 0" "(a * 10 + b) * 10 + c < 256"
  shows "parseIPv4Fields prev 0 0 fs (digit_char a # digit_char b # digit_char c # cs) =
    parseIPv4Fields (Some (digit_char c)) ((a * 10 + b) * 10 + c) 3 fs cs"
  using assms by (simp add: eval_nat_numeral)

lemma parse_fields_digits:
  assumes "n < 256"
  shows "\<exists>p. is_digit p \<and> parseIPv4Fields prev 0 0 fs (dec n @ cs) =
     parseIPv4Fields (Some p) n (length (dec n)) fs cs"
proof -
  consider "n < 10" | "10 \<le> n" "n < 100" | "100 \<le> n" by linarith
  then show ?thesis
  proof cases
    case 1
    then show ?thesis by (intro exI [of _ "digit_char n"]) simp
  next
    case 2
    then have d: "dec n = [digit_char (n div 10), digit_char (n mod 10)]" "n div 10 < 10" "n mod 10 < 10"
      by (simp_all add: dec.simps [of n])
    moreover have "n div 10 * 10 + n mod 10 = n" "n div 10 \<noteq> 0" using 2 by simp_all
    ultimately show ?thesis using assms by (intro exI [of _ "digit_char (n mod 10)"]) simp
  next
    case 3
    define m where "m = n div 10"
    have m: "m div 10 < 10" "m mod 10 < 10" "n mod 10 < 10" "m div 10 \<noteq> 0" "m \<le> 255" "10 \<le> m"
      using 3 assms by (auto simp: m_def)
    have n: "m div 10 * 10 + m mod 10 = m" "m * 10 + n mod 10 = n"
      by (simp_all add: m_def)
    have d: "dec n = [digit_char (m div 10), digit_char (m mod 10), digit_char (n mod 10)]"
      using 3 m(1,6) by (simp add: dec.simps [of n] dec.simps [of m] m_def [symmetric])
    have val: "(m div 10 * 10 + m mod 10) * 10 + n mod 10 = n" using n by simp
    have "length (dec n) = 3" by (simp only: d) simp
    moreover have "parseIPv4Fields prev 0 0 fs (dec n @ cs) =
        parseIPv4Fields (Some (digit_char (n mod 10))) n 3 fs cs"
      using parse_fields_three [of "m div 10" "m mod 10" "n mod 10" prev fs cs] m assms
      unfolding val d by simp
    ultimately show ?thesis
      using m(3) by (intro exI [of _ "digit_char (n mod 10)"] conjI) (simp_all only: is_digit_digit_char)
  qed
qed

lemma parse_fields_octet [simp]:
  assumes "n < 256" "length fs < 3" "cs \<noteq> []"
  shows "parseIPv4Fields prev 0 0 fs (dec n @ CHR ''.'' # cs) =
     parseIPv4Fields (Some (CHR ''.'')) 0 0 (fs @ [n]) cs"
proof -
  obtain p where "is_digit p" and
    "parseIPv4Fields prev 0 0 fs (dec n @ CHR ''.'' # cs) =
       parseIPv4Fields (Some p) n (length (dec n)) fs (CHR ''.'' # cs)"
    using parse_fields_digits [OF assms(1)] by blast
  moreover have "p \<noteq> CHR ''.''" using \<open>is_digit p\<close> by (auto simp: is_digit_def)
  ultimately show ?thesis using assms(2,3) by (simp add: is_digit_def)
qed

lemma parseIPv4_addr_string [simp]: "parseIPv4 (addr_string w) = Some w"
proof -
  have last: "parseIPv4Fields prev 0 0 [a, b, c] (dec d) = Some [a, b, c, d]" if "d < 256"
    for prev a b c d
    using parse_fields_digits [OF that, of prev "[a, b, c]" "[]"] by auto
  have "parseIPv4Fields None 0 0 [] (addr_string w) = Some [octet 0 w, octet 1 w, octet 2 w, octet 3 w]"
    unfolding addr_string_def by (simp add: last)
  then show ?thesis by (simp add: parseIPv4_def)
qed

lemma parseIPv4_sound: "s \<noteq> [] \<Longrightarrow> parseIPv4 s = Some w \<Longrightarrow> s = addr_string w"
proof -
  assume "s \<noteq> []" and p: "parseIPv4 s = Some w"
  then obtain a b c d where f: "parseIPv4Fields None 0 0 [] s = Some [a, b, c, d]"
    and w: "w = ip4 a b c d"
    by (auto simp: parseIPv4_def split: option.splits list.splits)
  from parse_fields_sound [OF f, of "[]"] \<open>s \<noteq> []\<close>
  have "\<forall>n \<in> set [a, b, c, d]. n < 256" "join_dots [a, b, c, d] = s"
    by (auto simp: no_lead0_def undec_def)
  with w show ?thesis by (simp add: addr_string_def)
qed

lemma find_dot: "\<forall>c \<in> set xs. \<not> P c \<Longrightarrow> P d \<Longrightarrow> List.find P (xs @ d # ys) = Some d"
  by (induction xs) auto

lemma parseAddr4_iff: "parseAddr4 s = Some w \<longleftrightarrow> s = addr_string w"
proof
  assume "parseAddr4 s = Some w"
  then have "parseIPv4 s = Some w" and "s \<noteq> []"
    by (auto simp: parseAddr4_def split: option.splits if_splits)
  then show "s = addr_string w" by (simp add: parseIPv4_sound)
next
  assume "s = addr_string w"
  moreover have "List.find (\<lambda>c. c = CHR ''.'' \<or> c = CHR '':'' \<or> c = CHR ''%'') (addr_string w) = Some (CHR ''.'')"
    unfolding addr_string_def append_Cons append_Nil
    using dec_digits [of "octet 0 w"] by (intro find_dot) (auto simp: is_digit_def)
  ultimately show "parseAddr4 s = Some w" by (simp add: parseAddr4_def)
qed

lemma addr_string_inject [simp]: "addr_string v = addr_string w \<longleftrightarrow> v = w"
  using parseIPv4_addr_string by (metis option.inject)

text \<open>A string is an accepted IPv4 prefix exactly when it is the canonical text of one.\<close>

lemma parsePrefix4_iff:
  "parsePrefix4 s = Some p \<longleftrightarrow> s = prefix_string p \<and> pfx_bits p \<le> 32"
proof
  assume "parsePrefix4 s = Some p"
  then obtain ip bs a n where l: "last_slash s = Some (ip, bs)" and a: "parseAddr4 ip = Some a"
    and n: "parsePrefixBits bs = Some n" and p: "p = \<lparr>pfx_addr = a, pfx_bits = n\<rparr>"
    by (auto simp: parsePrefix4_def split: option.splits prod.splits)
  from last_slash_sound [OF l] a parsePrefixBits_sound [OF n] p
  show "s = prefix_string p \<and> pfx_bits p \<le> 32"
    by (simp add: prefix_string_def parseAddr4_iff)
next
  assume s: "s = prefix_string p \<and> pfx_bits p \<le> 32"
  have "list_all is_digit (dec (pfx_bits p))" using dec_digits by (simp add: list_all_iff)
  then have "last_slash s = Some (addr_string (pfx_addr p), dec (pfx_bits p))"
    using s last_slash_append [of "dec (pfx_bits p)"] by (simp add: prefix_string_def)
  with s show "parsePrefix4 s = Some p"
    by (cases p) (simp add: parsePrefix4_def parseAddr4_iff [THEN iffD2])
qed

lemma prefix_string_inject:
  "pfx_bits p \<le> 32 \<Longrightarrow> pfx_bits q \<le> 32 \<Longrightarrow> prefix_string p = prefix_string q \<longleftrightarrow> p = q"
  by (metis option.inject parsePrefix4_iff)

end
