(* ===== verification/Go_Os.thy ===== *)
theory Go_Os
  imports Arena_Prelude
begin

text \<open>
  The operating-system surface the client uses through Go's \<open>os\<close> and \<open>os/exec\<close>: files
  with their mode, directories, and the log of the commands run. Every call is a step of
  an explicit state; which calls fail, and how, is decided by a \<^emph>\<open>fault plan\<close>, an
  arbitrary function of the number of the call, so that a statement for every plan is a
  statement for every behaviour of the environment, including commands that fail.
\<close>

section \<open>State\<close>

datatype oserr = NotExist | Exist | Permission | OtherErr

datatype fault = Fault (fault_err: oserr) (fault_written: nat)

type_synonym faults = "nat \<Rightarrow> fault option"

record inode =
  f_data :: string
  f_mode :: nat

record os =
  os_files :: "path \<Rightarrow> inode option"
  os_dirs :: "path \<Rightarrow> nat option"
  os_cmds :: "(cmd \<times> oserr option) list"
  os_tick :: nat

type_synonym 'a sys = "os \<Rightarrow> (oserr + 'a) \<times> os"

definition syscall :: "faults \<Rightarrow> 'a sys \<Rightarrow> 'a sys" where
  "syscall flt f w = (case flt (os_tick w) of
     Some x \<Rightarrow> (Inl (fault_err x), w\<lparr>os_tick := Suc (os_tick w)\<rparr>)
   | None \<Rightarrow> (case f w of (r, w') \<Rightarrow> (r, w'\<lparr>os_tick := Suc (os_tick w)\<rparr>)))"

definition set_file :: "path \<Rightarrow> inode option \<Rightarrow> os \<Rightarrow> os" where
  "set_file p f w = w\<lparr>os_files := (os_files w)(p := f)\<rparr>"

definition is_err :: "'e + 'a \<Rightarrow> bool" where
  "is_err r = (case r of Inl _ \<Rightarrow> True | Inr _ \<Rightarrow> False)"

lemma is_err_simps [simp]: "is_err (Inl e)" "\<not> is_err (Inr a)"
  by (simp_all add: is_err_def)

section \<open>Calls\<close>

definition os_Stat :: "faults \<Rightarrow> path \<Rightarrow> inode sys" where
  "os_Stat flt p = syscall flt (\<lambda>w. (case os_files w p of None \<Rightarrow> Inl NotExist | Some f \<Rightarrow> Inr f, w))"

definition os_ReadFile :: "faults \<Rightarrow> path \<Rightarrow> string sys" where
  "os_ReadFile flt p =
     syscall flt (\<lambda>w. (case os_files w p of None \<Rightarrow> Inl NotExist | Some f \<Rightarrow> Inr (f_data f), w))"

text \<open>\<open>os.OpenFile\<close> with \<open>O_CREATE|O_EXCL|O_WRONLY\<close>.\<close>

definition os_CreateExcl :: "faults \<Rightarrow> path \<Rightarrow> nat \<Rightarrow> unit sys" where
  "os_CreateExcl flt p mode = syscall flt (\<lambda>w. case os_files w p of
     Some _ \<Rightarrow> (Inl Exist, w)
   | None \<Rightarrow> (Inr (), set_file p (Some \<lparr>f_data = [], f_mode = mode\<rparr>) w))"

text \<open>\<open>os.OpenFile\<close> with \<open>O_WRONLY\<close> on an existing file.\<close>

definition os_OpenWrite :: "faults \<Rightarrow> path \<Rightarrow> unit sys" where
  "os_OpenWrite flt p = syscall flt (\<lambda>w. (case os_files w p of None \<Rightarrow> Inl NotExist | Some _ \<Rightarrow> Inr (), w))"

text \<open>
  One \<open>Write\<close> at offset \<open>off\<close>: the bytes replace what was there and extend the file
  past its end. A failing write may have written a prefix of the data.
\<close>

definition overwrite :: "nat \<Rightarrow> string \<Rightarrow> string \<Rightarrow> string" where
  "overwrite off d s = take off s @ d @ drop (off + length d) s"

definition write_at :: "path \<Rightarrow> nat \<Rightarrow> string \<Rightarrow> os \<Rightarrow> os" where
  "write_at p off d w = (case os_files w p of None \<Rightarrow> w
     | Some f \<Rightarrow> set_file p (Some (f\<lparr>f_data := overwrite off d (f_data f)\<rparr>)) w)"

definition os_Write :: "faults \<Rightarrow> path \<Rightarrow> nat \<Rightarrow> string \<Rightarrow> nat sys" where
  "os_Write flt p off d w = (case flt (os_tick w) of
     Some x \<Rightarrow> (Inl (fault_err x),
        (write_at p off (take (fault_written x) d) w)\<lparr>os_tick := Suc (os_tick w)\<rparr>)
   | None \<Rightarrow> (Inr (length d), (write_at p off d w)\<lparr>os_tick := Suc (os_tick w)\<rparr>))"

text \<open>\<open>Sync\<close> and \<open>Close\<close> change nothing that the model observes; they may fail.\<close>

definition os_Nop :: "faults \<Rightarrow> unit sys" where
  "os_Nop flt = syscall flt (\<lambda>w. (Inr (), w))"

definition os_Remove :: "faults \<Rightarrow> path \<Rightarrow> unit sys" where
  "os_Remove flt p = syscall flt (\<lambda>w. case os_files w p of
     None \<Rightarrow> (Inl NotExist, w) | Some _ \<Rightarrow> (Inr (), set_file p None w))"

text \<open>POSIX rename: the destination is replaced.\<close>

definition os_Rename :: "faults \<Rightarrow> path \<Rightarrow> path \<Rightarrow> unit sys" where
  "os_Rename flt src dst = syscall flt (\<lambda>w. case os_files w src of
     None \<Rightarrow> (Inl NotExist, w)
   | Some f \<Rightarrow> (Inr (), set_file dst (Some f) (set_file src None w)))"

definition os_MkdirAll :: "faults \<Rightarrow> path \<Rightarrow> nat \<Rightarrow> unit sys" where
  "os_MkdirAll flt d mode = syscall flt (\<lambda>w. (Inr (), (case os_dirs w d of
     None \<Rightarrow> w\<lparr>os_dirs := (os_dirs w)(d \<mapsto> mode)\<rparr> | Some _ \<Rightarrow> w)))"

text \<open>\<open>os.WriteFile\<close>: the file is created or truncated; a failing write may leave a prefix.\<close>

definition os_WriteFile :: "faults \<Rightarrow> path \<Rightarrow> string \<Rightarrow> nat \<Rightarrow> unit sys" where
  "os_WriteFile flt p d mode w =
     (let m = (case os_files w p of None \<Rightarrow> mode | Some f \<Rightarrow> f_mode f);
          put = (\<lambda>x. set_file p (Some \<lparr>f_data = x, f_mode = m\<rparr>) w)
      in case flt (os_tick w) of
           Some x \<Rightarrow> (Inl (fault_err x), (if fault_written x = 0 then w else put (take (fault_written x) d))
             \<lparr>os_tick := Suc (os_tick w)\<rparr>)
         | None \<Rightarrow> (Inr (), (put d)\<lparr>os_tick := Suc (os_tick w)\<rparr>))"

text \<open>\<open>exec.Command(...).Run()\<close> and calls into a system library: the call is logged with
  its outcome, \<open>None\<close> for success.\<close>

definition run_call :: "faults \<Rightarrow> cmd \<Rightarrow> os \<Rightarrow> oserr option \<times> os" where
  "run_call flt c w = (let r = map_option fault_err (flt (os_tick w)) in
     (r, w\<lparr>os_cmds := os_cmds w @ [(c, r)], os_tick := Suc (os_tick w)\<rparr>))"

definition run_cmd :: "faults \<Rightarrow> cmd \<Rightarrow> os \<Rightarrow> bool \<times> os" where
  "run_cmd flt c w = (case run_call flt c w of (r, w') \<Rightarrow> (r = None, w'))"

fun run_cmds :: "faults \<Rightarrow> cmd list \<Rightarrow> os \<Rightarrow> os" where
  "run_cmds flt [] w = w"
| "run_cmds flt (c # cs) w = run_cmds flt cs (snd (run_cmd flt c w))"

section \<open>Frame facts\<close>

lemmas os_call_defs = os_Stat_def os_ReadFile_def os_CreateExcl_def os_OpenWrite_def os_Nop_def
  os_Remove_def os_Rename_def os_MkdirAll_def syscall_def

lemma set_file_simps [simp]:
  "os_files (set_file p f w) = (os_files w)(p := f)" "os_dirs (set_file p f w) = os_dirs w"
  "os_cmds (set_file p f w) = os_cmds w" "os_tick (set_file p f w) = os_tick w"
  by (simp_all add: set_file_def)

lemma write_at_simps [simp]:
  "os_dirs (write_at p off d w) = os_dirs w" "os_cmds (write_at p off d w) = os_cmds w"
  "os_tick (write_at p off d w) = os_tick w"
  "os_files (write_at p off d w) =
     (case os_files w p of None \<Rightarrow> os_files w
      | Some f \<Rightarrow> (os_files w)(p \<mapsto> f\<lparr>f_data := overwrite off d (f_data f)\<rparr>))"
  by (auto simp: write_at_def split: option.splits)

lemma overwrite_append [simp]: "overwrite (length s) d s = s @ d"
  by (simp add: overwrite_def)

lemma overwrite_empty [simp]: "overwrite off [] s = s"
  by (simp add: overwrite_def)

lemma overwrite_all: "length d = length s \<Longrightarrow> overwrite 0 d s = d"
  by (simp add: overwrite_def)

lemma run_call_simps [simp]:
  "os_files (snd (run_call flt c w)) = os_files w" "os_dirs (snd (run_call flt c w)) = os_dirs w"
  "os_cmds (snd (run_call flt c w)) = os_cmds w @ [(c, fst (run_call flt c w))]"
  "os_tick (snd (run_call flt c w)) = Suc (os_tick w)"
  by (simp_all add: run_call_def Let_def)

lemma run_cmd_call: "run_cmd flt c w = (fst (run_call flt c w) = None, snd (run_call flt c w))"
  by (simp add: run_cmd_def split_beta)

lemma run_cmd_simps [simp]:
  "os_files (snd (run_cmd flt c w)) = os_files w" "os_dirs (snd (run_cmd flt c w)) = os_dirs w"
  "os_cmds (snd (run_cmd flt c w)) = os_cmds w @ [(c, fst (run_call flt c w))]"
  "os_tick (snd (run_cmd flt c w)) = Suc (os_tick w)"
  "fst (run_cmd flt c w) \<longleftrightarrow> fst (run_call flt c w) = None"
  by (simp_all add: run_cmd_call)

lemma run_cmd_files: "run_cmd flt c w = (ok, w') \<Longrightarrow> os_files w' = os_files w"
  by (metis run_cmd_simps(1) snd_conv)

lemma run_cmds_frame [simp]:
  "os_files (run_cmds flt cs w) = os_files w" "os_dirs (run_cmds flt cs w) = os_dirs w"
  by (induction cs arbitrary: w) auto

lemma run_cmds_log: "map fst (os_cmds (run_cmds flt cs w)) = map fst (os_cmds w) @ cs"
  by (induction cs arbitrary: w) auto

text \<open>Calls on files run no command.\<close>

lemma file_calls_cmds [simp]:
  "os_cmds (snd (os_Stat flt p w)) = os_cmds w" "os_cmds (snd (os_Remove flt p w)) = os_cmds w"
  "os_cmds (snd (os_MkdirAll flt p m w)) = os_cmds w" "os_cmds (snd (os_WriteFile flt p d m w)) = os_cmds w"
  "os_cmds (snd (os_Nop flt w)) = os_cmds w"
  by (auto simp: os_call_defs os_WriteFile_def Let_def split: option.splits)

lemma file_calls_files [simp]:
  "os_files (snd (os_Stat flt p w)) = os_files w"
  "os_files (snd (os_MkdirAll flt p m w)) = os_files w"
  by (auto simp: os_call_defs split: option.splits)

lemma Stat_result: "fst (os_Stat flt p w) = Inr f \<Longrightarrow> os_files w p = Some f"
  by (auto simp: os_call_defs split: option.splits)

lemma Stat_no_fault:
  "flt (os_tick w) = None \<Longrightarrow> fst (os_Stat flt p w) = (case os_files w p of None \<Rightarrow> Inl NotExist | Some f \<Rightarrow> Inr f)"
  by (auto simp: os_call_defs split: option.splits)

lemma Remove_gone:
  "flt (os_tick w) = None \<Longrightarrow> os_files (snd (os_Remove flt p w)) = (os_files w)(p := None)"
  by (auto simp: os_call_defs split: option.splits)

end
