(* ===== verification/Config_Store.thy ===== *)
theory Config_Store
  imports Go_Os
begin

text \<open>
  \<open>client/config.go\<close>: the pairing state kept on disk. The JSON codec is a parameter (the
  pair \<open>marshal\<close>, \<open>unmarshal\<close>), as is the path library, which differs per platform.
\<close>

section \<open>The record and its completeness\<close>

definition ConfigSchemaVersion :: int where "ConfigSchemaVersion = 1"

record Config =
  cVersion :: int
  TunnelIP :: string
  PrivateKey :: string
  ServerPubKey :: string
  ServerHost :: string
  UserEmail :: string
  PairedAt :: string
  ArenaBaseURL :: string
  DeviceID :: string
  RevocationToken :: string

definition Complete :: "Config option \<Rightarrow> bool" where
  "Complete c = (case c of None \<Rightarrow> False
     | Some c \<Rightarrow> cVersion c = ConfigSchemaVersion \<and> TunnelIP c \<noteq> [] \<and> PrivateKey c \<noteq> []
         \<and> ServerPubKey c \<noteq> [] \<and> ServerHost c \<noteq> [])"

section \<open>Where the file lives\<close>

datatype goos = Linux | Darwin | Windows | OtherOS string

record path_lib =
  pl_join :: "string list \<Rightarrow> path"
  pl_dir :: "path \<Rightarrow> path"

text \<open>\<open>getenv\<close> returns the empty string for an unset variable, as \<open>os.Getenv\<close> does;
  \<open>home\<close> is the result of \<open>os.UserHomeDir\<close>.\<close>

definition ResolveConfigPath ::
  "path_lib \<Rightarrow> (string \<Rightarrow> string) \<Rightarrow> string option \<Rightarrow> goos \<Rightarrow> string \<Rightarrow> path" where
  "ResolveConfigPath pl getenv home os override =
     (if override \<noteq> [] then override
      else if getenv ''ARENA_BYOC_CONFIG'' \<noteq> [] then getenv ''ARENA_BYOC_CONFIG''
      else if getenv ''XDG_CONFIG_HOME'' \<noteq> []
        then pl_join pl [getenv ''XDG_CONFIG_HOME'', ''arena-tunnel'', ''config.json'']
      else (case home of
        None \<Rightarrow> ''arena-tunnel.json''
      | Some h \<Rightarrow>
          if h = [] then ''arena-tunnel.json''
          else (case os of
            Darwin \<Rightarrow> pl_join pl [h, ''Library'', ''Application Support'', ''arena-tunnel'', ''config.json'']
          | Windows \<Rightarrow> (if getenv ''APPDATA'' \<noteq> []
              then pl_join pl [getenv ''APPDATA'', ''arena-tunnel'', ''config.json'']
              else pl_join pl [h, ''.arena-tunnel'', ''config.json''])
          | _ \<Rightarrow> pl_join pl [h, ''.config'', ''arena-tunnel'', ''config.json''])))"

section \<open>Load, save, wipe\<close>

definition LoadConfig ::
  "faults \<Rightarrow> (string \<Rightarrow> Config option) \<Rightarrow> path \<Rightarrow> os \<Rightarrow> (oserr + Config option) \<times> os" where
  "LoadConfig flt unmarshal p w = (case os_ReadFile flt p w of
     (Inl e, w') \<Rightarrow> (if e = NotExist then (Inr None, w') else (Inl e, w'))
   | (Inr raw, w') \<Rightarrow> (case unmarshal raw of
       None \<Rightarrow> (Inr None, w')
     | Some c \<Rightarrow> if cVersion c \<noteq> ConfigSchemaVersion then (Inr None, w') else (Inr (Some c), w')))"

datatype save_error =
  NilConfig | SaveMkdir oserr | SaveMarshal | SaveOpen oserr | SaveWrite oserr | SaveSync oserr
  | SaveClose oserr | SaveRename oserr

definition tmp_of :: "path \<Rightarrow> path" where
  "tmp_of p = p @ ''.tmp''"

definition mode_0600 :: nat where "mode_0600 = 6 * 64"
definition mode_0700 :: nat where "mode_0700 = 7 * 64"

text \<open>The body of \<open>SaveConfig\<close> after the directory and the JSON text are ready.\<close>

definition write_config :: "faults \<Rightarrow> path \<Rightarrow> string \<Rightarrow> os \<Rightarrow> save_error option \<times> os" where
  "write_config flt p data w0 = (let tmp = tmp_of p; w1 = snd (os_Remove flt tmp w0) in
     case os_CreateExcl flt tmp mode_0600 w1 of
       (Inl e, w2) \<Rightarrow> (Some (SaveOpen e), w2)
     | (Inr _, w2) \<Rightarrow> (case os_Write flt tmp 0 data w2 of
         (Inl e, w3) \<Rightarrow> (Some (SaveWrite e), snd (os_Remove flt tmp (snd (os_Nop flt w3))))
       | (Inr _, w3) \<Rightarrow> (case os_Nop flt w3 of
           (Inl e, w4) \<Rightarrow> (Some (SaveSync e), snd (os_Remove flt tmp (snd (os_Nop flt w4))))
         | (Inr _, w4) \<Rightarrow> (case os_Nop flt w4 of
             (Inl e, w5) \<Rightarrow> (Some (SaveClose e), snd (os_Remove flt tmp w5))
           | (Inr _, w5) \<Rightarrow> (case os_Rename flt tmp p w5 of
               (Inl e, w6) \<Rightarrow> (Some (SaveRename e), snd (os_Remove flt tmp w6))
             | (Inr _, w6) \<Rightarrow> (None, w6))))))"

text \<open>\<open>SaveConfig\<close> also repairs a zero version in the caller's record, which it returns.\<close>

definition SaveConfig :: "faults \<Rightarrow> path_lib \<Rightarrow> (Config \<Rightarrow> string option) \<Rightarrow> path
    \<Rightarrow> Config option \<Rightarrow> os \<Rightarrow> save_error option \<times> Config option \<times> os" where
  "SaveConfig flt pl marshal p c w = (case c of
     None \<Rightarrow> (Some NilConfig, None, w)
   | Some c0 \<Rightarrow> (let c = (if cVersion c0 = 0 then c0\<lparr>cVersion := ConfigSchemaVersion\<rparr> else c0);
         d = pl_dir pl p;
         mk = (if d \<noteq> [] \<and> d \<noteq> ''.'' then os_MkdirAll flt d mode_0700 w else (Inr (), w)) in
       case mk of (Inl e, w1) \<Rightarrow> (Some (SaveMkdir e), Some c, w1)
       | (Inr _, w1) \<Rightarrow> (case marshal c of None \<Rightarrow> (Some SaveMarshal, Some c, w1)
         | Some js \<Rightarrow> (case write_config flt p (js @ [CHR 0x0A]) w1 of (e, w2) \<Rightarrow> (e, Some c, w2)))))"

definition WipeConfig :: "faults \<Rightarrow> path \<Rightarrow> os \<Rightarrow> oserr option \<times> os" where
  "WipeConfig flt p w = (case os_Stat flt p w of
     (Inl e, w1) \<Rightarrow> (if e = NotExist then (None, w1) else (Some e, w1))
   | (Inr st, w1) \<Rightarrow> (let w2 = (case os_OpenWrite flt p w1 of
           (Inl _, w2) \<Rightarrow> w2
         | (Inr _, w2) \<Rightarrow> snd (os_Nop flt (snd (os_Nop flt
             (snd (os_Write flt p 0 (replicate (length (f_data st)) (CHR 0x00)) w2))))))
       in case os_Remove flt p w2 of (Inl e, w3) \<Rightarrow> (Some e, w3) | (Inr _, w3) \<Rightarrow> (None, w3)))"


section \<open>Correctness\<close>

lemma tmp_of_neq [simp]: "tmp_of p \<noteq> p" "p \<noteq> tmp_of p"
  by (simp_all add: tmp_of_def)

definition untouched_but :: "path set \<Rightarrow> os \<Rightarrow> os \<Rightarrow> bool" where
  "untouched_but ps w w' \<longleftrightarrow> (\<forall>q. q \<notin> ps \<longrightarrow> os_files w' q = os_files w q)"

lemma untouched_butI:
  assumes "\<And>q. q \<notin> ps \<Longrightarrow> os_files w' q = os_files w q"
  shows "untouched_but ps w w'"
  using assms by (simp add: untouched_but_def)

lemma untouched_but_trans:
  "untouched_but ps w v \<Longrightarrow> untouched_but ps v u \<Longrightarrow> untouched_but ps w u"
  by (simp add: untouched_but_def)

lemma untouched_calls:
  "untouched_but {p} w (snd (os_Remove flt p w))"
  "untouched_but {} w (snd (os_Nop flt w))"
  "untouched_but {p} w (snd (os_CreateExcl flt p m w))"
  "untouched_but {p} w (snd (os_Write flt p k d w))"
  "untouched_but {p, q} w (snd (os_Rename flt p q w))"
  "untouched_but {} w (snd (os_MkdirAll flt p m w))"
  "untouched_but {} w (snd (os_Stat flt p w))"
  "untouched_but {} w (snd (os_OpenWrite flt p w))"
  by (auto simp: untouched_but_def os_call_defs os_Write_def split: option.splits)

lemma Nop_files [simp]: "os_files (snd (os_Nop flt w)) = os_files w"
  using untouched_calls(2) by (auto simp: untouched_but_def)

lemma Remove_other [simp]: "q \<noteq> p \<Longrightarrow> os_files (snd (os_Remove flt p w)) q = os_files w q"
  using untouched_calls(1) [of p w flt] by (auto simp: untouched_but_def)

lemma CreateExcl_ok:
  "os_CreateExcl flt p m w = (Inr u, w') \<Longrightarrow> os_files w' = (os_files w)(p \<mapsto> \<lparr>f_data = [], f_mode = m\<rparr>)"
  by (auto simp: os_call_defs split: option.splits)

lemma CreateExcl_err: "os_CreateExcl flt p m w = (Inl e, w') \<Longrightarrow> os_files w' = os_files w"
  by (auto simp: os_call_defs split: option.splits)

lemma Write_ok:
  "os_Write flt p k d w = (Inr n, w') \<Longrightarrow> os_files w p = Some f \<Longrightarrow>
   os_files w' = (os_files w)(p \<mapsto> f\<lparr>f_data := overwrite k d (f_data f)\<rparr>)"
  by (auto simp: os_Write_def split: option.splits)

lemma Write_other: "os_Write flt p k d w = (r, w') \<Longrightarrow> q \<noteq> p \<Longrightarrow> os_files w' q = os_files w q"
  by (auto simp: os_Write_def split: option.splits)

lemma Write_frame [simp]: "q \<noteq> p \<Longrightarrow> os_files (snd (os_Write flt p k d w)) q = os_files w q"
  by (auto simp: os_Write_def split: option.splits)

lemma Nop_result: "os_Nop flt w = (r, w') \<Longrightarrow> os_files w' = os_files w"
  by (metis Nop_files snd_conv)

lemma Rename_err: "os_Rename flt p q w = (Inl e, w') \<Longrightarrow> os_files w' = os_files w"
  by (auto simp: os_call_defs split: option.splits)

lemma Rename_ok:
  "os_Rename flt p q w = (Inr u, w') \<Longrightarrow> p \<noteq> q \<Longrightarrow> os_files w p = Some f \<Longrightarrow>
   os_files w' = (os_files w)(p := None, q \<mapsto> f)"
  by (auto simp: os_call_defs split: option.splits)

lemmas write_config_calls = CreateExcl_ok CreateExcl_err Write_ok Write_other Nop_result
  Rename_err Rename_ok

text \<open>
  The write is atomic for the reader of \<open>path\<close>: whatever call fails, the file is the old
  one or the complete new one, the latter exactly when no error is reported.
\<close>

lemma write_config_ok:
  assumes "write_config flt p data w = (None, w')"
  shows "os_files w' = (os_files w)(tmp_of p := None, p \<mapsto> \<lparr>f_data = data, f_mode = mode_0600\<rparr>)"
proof -
  let ?t = "tmp_of p"
  define w1 where "w1 = snd (os_Remove flt ?t w)"
  from assms obtain w2 w3 w4 w5 n u where
    c: "os_CreateExcl flt ?t mode_0600 w1 = (Inr u, w2)" and
    wr: "os_Write flt ?t 0 data w2 = (Inr n, w3)" and
    sy: "os_Nop flt w3 = (Inr u, w4)" and cl: "os_Nop flt w4 = (Inr u, w5)" and
    re: "os_Rename flt ?t p w5 = (Inr u, w')"
    by (auto simp: write_config_def w1_def Let_def split: prod.splits sum.splits)
  have "os_files w5 = (os_files w1)(?t \<mapsto> \<lparr>f_data = data, f_mode = mode_0600\<rparr>)"
    using CreateExcl_ok [OF c] Write_ok [OF wr] Nop_result [OF sy] Nop_result [OF cl]
    by (simp add: overwrite_def)
  with Rename_ok [OF re] have "os_files w' = (os_files w1)(?t := None, p \<mapsto> \<lparr>f_data = data, f_mode = mode_0600\<rparr>)"
    by simp
  moreover have "\<And>q. q \<noteq> ?t \<Longrightarrow> os_files w1 q = os_files w q" by (simp add: w1_def)
  ultimately show ?thesis by (auto simp: fun_eq_iff)
qed

lemma write_config_err:
  assumes "write_config flt p data w = (Some e, w')" "q \<noteq> tmp_of p"
  shows "os_files w' q = os_files w q"
proof -
  define w1 where "w1 = snd (os_Remove flt (tmp_of p) w)"
  have q1: "os_files w1 q = os_files w q" using assms(2) by (simp add: w1_def)
  have create: "os_files v q = os_files w1 q" if "os_CreateExcl flt (tmp_of p) mode_0600 w1 = (r, v)" for r v
    using that assms(2) by (cases r) (auto dest: CreateExcl_ok CreateExcl_err)
  from assms(1) show ?thesis
    unfolding write_config_def Let_def w1_def [symmetric]
    using assms(2) q1
    by (auto split: prod.splits sum.splits dest!: create Nop_result Rename_err
        simp: Write_other [of flt "tmp_of p" 0 data])
qed

text \<open>What a save reports, against the file a reader of \<open>p\<close> then finds.\<close>

definition save_outcome :: "path \<Rightarrow> string option \<Rightarrow> save_error option \<Rightarrow> os \<Rightarrow> os \<Rightarrow> bool" where
  "save_outcome p js e w w' \<longleftrightarrow>
     (case e of
       None \<Rightarrow> (\<exists>s. js = Some s \<and> os_files w' p = Some \<lparr>f_data = s @ [CHR 0x0A], f_mode = mode_0600\<rparr>
                 \<and> os_files w' (tmp_of p) = None)
     | Some _ \<Rightarrow> os_files w' p = os_files w p) \<and> untouched_but {p, tmp_of p} w w'"

lemma save_outcome_refl: "save_outcome p j (Some x) w w"
  by (simp add: save_outcome_def untouched_but_def)

lemma MkdirAll_files: "os_MkdirAll flt d m w = (r, w') \<Longrightarrow> os_files w' = os_files w"
  using untouched_calls(6) [of w flt d m] by (auto simp: untouched_but_def)

lemma SaveConfig_outcome:
  assumes "SaveConfig flt pl marshal p (Some c) w = (e, c', w')"
  shows "\<exists>d. c' = Some d \<and> d = (if cVersion c = 0 then c\<lparr>cVersion := ConfigSchemaVersion\<rparr> else c)
    \<and> save_outcome p (marshal d) e w w'"
proof -
  define d where "d = (if cVersion c = 0 then c\<lparr>cVersion := ConfigSchemaVersion\<rparr> else c)"
  have base: "save_outcome p j (Some x) w v" if "os_files v = os_files w" for j x v
    using that by (simp add: save_outcome_def untouched_but_def)
  have wr: "save_outcome p (Some js) x w v"
    if "write_config flt p (js @ [CHR 0x0A]) w1 = (x, v)" "os_files w1 = os_files w" for js x v w1
    using that write_config_ok [of flt p "js @ [CHR 0x0A]" w1 v]
      write_config_err [of flt p "js @ [CHR 0x0A]" w1 _ v]
    by (cases x) (auto simp: save_outcome_def untouched_but_def)
  from assms show ?thesis
    unfolding SaveConfig_def Let_def option.case d_def [symmetric]
    by (auto intro: base wr dest: MkdirAll_files simp: save_outcome_refl split: prod.splits sum.splits option.splits if_splits)
qed

text \<open>A plan is honest when no call claims that an existing file is missing.\<close>

definition no_phantom :: "faults \<Rightarrow> bool" where
  "no_phantom flt \<longleftrightarrow> (\<forall>n x. flt n = Some x \<longrightarrow> fault_err x \<noteq> NotExist)"

lemma ReadFile_fault_free:
  "flt (os_tick w) = None \<Longrightarrow> os_files w p = Some f \<Longrightarrow>
   os_ReadFile flt p w = (Inr (f_data f), w\<lparr>os_tick := Suc (os_tick w)\<rparr>)"
  by (simp add: os_call_defs)

lemma LoadConfig_existing:
  assumes "flt (os_tick w) = None" "os_files w p = Some f"
    "unmarshal (f_data f) = Some c" "cVersion c = ConfigSchemaVersion"
  shows "fst (LoadConfig flt unmarshal p w) = Inr (Some c)"
  using assms by (simp add: LoadConfig_def ReadFile_fault_free)

lemma LoadConfig_version:
  "fst (LoadConfig flt unmarshal p w) = Inr (Some c) \<Longrightarrow> cVersion c = ConfigSchemaVersion"
  by (auto simp: LoadConfig_def split: prod.splits sum.splits option.splits if_splits)

lemma Stat_files: "os_Stat flt p w = (r, w') \<Longrightarrow> os_files w' = os_files w"
  by (auto simp: os_call_defs split: option.splits)

lemma OpenWrite_files: "os_OpenWrite flt p w = (r, w') \<Longrightarrow> os_files w' = os_files w"
  by (auto simp: os_call_defs split: option.splits)

lemma Stat_missing: "os_Stat flt p w = (Inl NotExist, w') \<Longrightarrow> no_phantom flt \<Longrightarrow> os_files w' p = None"
  by (auto simp: os_call_defs no_phantom_def split: option.splits)

lemma Stat_found: "os_Stat flt p w = (Inr st, w') \<Longrightarrow> os_files w p = Some st"
  by (auto simp: os_call_defs split: option.splits)

lemma Remove_ok: "os_Remove flt p w = (Inr u, w') \<Longrightarrow> os_files w' = (os_files w)(p := None)"
  by (auto simp: os_call_defs split: option.splits)

lemma Remove_err: "os_Remove flt p w = (Inl e, w') \<Longrightarrow> os_files w' = os_files w"
  by (auto simp: os_call_defs split: option.splits)

lemma WipeConfig_frame:
  assumes "q \<noteq> p"
  shows "os_files (snd (WipeConfig flt p w)) q = os_files w q"
  using assms
  by (auto simp: WipeConfig_def Let_def split: prod.splits sum.splits
      dest!: Stat_files OpenWrite_files Remove_ok Remove_err)

lemma WipeConfig_done:
  assumes "no_phantom flt" "WipeConfig flt p w = (None, w')"
  shows "os_files w' p = None"
  using assms
  by (auto simp: WipeConfig_def Let_def split: prod.splits sum.splits if_splits
      dest: Stat_missing Stat_files Remove_ok)


section \<open>The contract of the store\<close>

text \<open>
  What the callers (\<open>runDefault\<close>, \<open>PairAndPersist\<close>, \<open>runLogout\<close>) rely on: a save that
  reports success can be read back, one that fails leaves the previous file in place, a
  wipe that reports success removes it, and no call touches another file. The laws are
  stated for a store with operations \<open>save\<close>, \<open>load\<close>, \<open>wipe\<close> over a state whose files are
  read by \<open>look\<close>.
\<close>

locale config_store =
  fixes save :: "'c \<Rightarrow> 's \<Rightarrow> 'e option \<times> 's"
    and load :: "'s \<Rightarrow> 'c option"
    and wipe :: "'s \<Rightarrow> 'e2 option \<times> 's"
    and look :: "'s \<Rightarrow> path \<Rightarrow> inode option"
    and home :: "path set"
    and good :: "'c \<Rightarrow> bool"
  assumes save_ok: "good c \<Longrightarrow> save c s = (None, s') \<Longrightarrow> load s' = Some c"
    and save_err: "save c s = (Some e, s') \<Longrightarrow> load s' = load s"
    and wipe_ok: "wipe s = (None, s') \<Longrightarrow> load s' = None"
    and save_frame: "q \<notin> home \<Longrightarrow> look (snd (save c s)) q = look s q"
    and wipe_frame: "q \<notin> home \<Longrightarrow> look (snd (wipe s)) q = look s q"
begin

lemma save_wipe: "save c s = (x, s1) \<Longrightarrow> wipe s1 = (None, s2) \<Longrightarrow> load s2 = None"
  using wipe_ok by blast

lemma wipe_save: "good c \<Longrightarrow> wipe s = (y, s1) \<Longrightarrow> save c s1 = (None, s2) \<Longrightarrow> load s2 = Some c"
  using save_ok by blast

lemma failed_saves_keep:
  "load (foldl (\<lambda>s c. snd (save c s)) s cs) = load s"
  if "\<And>c s. c \<in> set cs \<Longrightarrow> fst (save c s) \<noteq> None"
  using that
proof (induction cs arbitrary: s)
  case (Cons c cs)
  obtain x s' where x: "save c s = (x, s')" by (cases "save c s")
  with Cons.prems [of c s] have "load s' = load s" using save_err by (cases x) auto
  with Cons x show ?case by simp
qed simp

lemma foreign_file_kept:
  "q \<notin> home \<Longrightarrow> look (snd (wipe (snd (save c s)))) q = look s q"
  using save_frame wipe_frame by simp

end

text \<open>
  The provider: \<open>SaveConfig\<close> and \<open>WipeConfig\<close> at one path, and the record a fault-free
  \<open>LoadConfig\<close> finds there, for a codec that reads back what it writes.
\<close>

definition stored :: "(string \<Rightarrow> Config option) \<Rightarrow> path \<Rightarrow> os \<Rightarrow> Config option" where
  "stored unmarshal p w = (case fst (LoadConfig (\<lambda>_. None) unmarshal p w) of
     Inl _ \<Rightarrow> None | Inr c \<Rightarrow> c)"

lemma stored_eq:
  "stored unmarshal p w = (case os_files w p of None \<Rightarrow> None
     | Some f \<Rightarrow> (case unmarshal (f_data f) of None \<Rightarrow> None
       | Some c \<Rightarrow> if cVersion c \<noteq> ConfigSchemaVersion then None else Some c))"
  by (auto simp: stored_def LoadConfig_def os_call_defs split: option.splits)

definition save_at ::
  "faults \<Rightarrow> path_lib \<Rightarrow> (Config \<Rightarrow> string option) \<Rightarrow> path \<Rightarrow> Config \<Rightarrow> os \<Rightarrow> save_error option \<times> os" where
  "save_at flt pl marshal p c w = (case SaveConfig flt pl marshal p (Some c) w of (e, _, w') \<Rightarrow> (e, w'))"

text \<open>Records the codec reads back, at the current schema version.\<close>

definition readable :: "(Config \<Rightarrow> string option) \<Rightarrow> (string \<Rightarrow> Config option) \<Rightarrow> Config \<Rightarrow> bool" where
  "readable marshal unmarshal c \<longleftrightarrow> cVersion c = ConfigSchemaVersion \<and>
     (\<forall>s. marshal c = Some s \<longrightarrow> unmarshal (s @ [CHR 0x0A]) = Some c)"

text \<open>The plan with its claims of missing files replaced by another error.\<close>

definition honest :: "faults \<Rightarrow> faults" where
  "honest flt n = map_option (\<lambda>x. if fault_err x = NotExist then Fault OtherErr (fault_written x) else x) (flt n)"

lemma no_phantom_honest [simp]: "no_phantom (honest flt)"
  unfolding no_phantom_def
proof (intro allI impI)
  fix n x
  assume "honest flt n = Some x"
  then show "fault_err x \<noteq> NotExist" by (cases "flt n") (auto simp: honest_def split: if_splits)
qed

lemma honest_id: "no_phantom flt \<Longrightarrow> honest flt = flt"
proof (rule ext)
  fix n
  assume "no_phantom flt"
  then show "honest flt n = flt n" by (cases "flt n") (auto simp: no_phantom_def honest_def)
qed

lemma save_at_outcome:
  assumes "save_at flt pl marshal p c w = (e, w')"
  shows "save_outcome p (marshal (if cVersion c = 0 then c\<lparr>cVersion := ConfigSchemaVersion\<rparr> else c)) e w w'"
  using assms by (auto simp: save_at_def split: prod.splits dest!: SaveConfig_outcome)

lemma save_at_stored:
  assumes "readable marshal unmarshal c" "save_at flt pl marshal p c w = (None, w')"
  shows "stored unmarshal p w' = Some c"
  using save_at_outcome [OF assms(2)] assms(1)
  by (auto simp: save_outcome_def readable_def stored_eq ConfigSchemaVersion_def split: if_splits)

lemma save_at_err:
  "save_at flt pl marshal p c w = (Some e, w') \<Longrightarrow> stored unmarshal p w' = stored unmarshal p w"
  by (drule save_at_outcome) (simp add: save_outcome_def stored_eq)

lemma save_at_frame:
  "q \<notin> {p, tmp_of p} \<Longrightarrow> os_files (snd (save_at flt pl marshal p c w)) q = os_files w q"
  using save_at_outcome [of flt pl marshal p c w "fst (save_at flt pl marshal p c w)"
      "snd (save_at flt pl marshal p c w)"]
  by (simp add: save_outcome_def untouched_but_def)

interpretation cs: config_store
  "save_at (honest flt) pl marshal p" "stored unmarshal p" "WipeConfig (honest flt) p" os_files
  "{p, tmp_of p}" "readable marshal unmarshal"
  for flt pl marshal unmarshal p
proof
  show "q \<notin> {p, tmp_of p} \<Longrightarrow> os_files (snd (WipeConfig (honest flt) p s)) q = os_files s q" for q s
    by (rule WipeConfig_frame) simp
  show "WipeConfig (honest flt) p s = (None, s') \<Longrightarrow> stored unmarshal p s' = None" for s s'
    by (drule WipeConfig_done [rotated]) (simp_all add: stored_eq)
qed (auto intro: save_at_stored save_at_err save_at_frame)

section \<open>Properties\<close>

text \<open>
  (C6) \<open>SaveConfig\<close> is atomic and private, whichever call fails and how: afterwards the file
  holds the complete new text with mode 0600 when no error is reported, and exactly what it
  held before otherwise; only the file and its temporary sibling are touched; and a record
  with no schema version is stamped with the current one.
\<close>

theorem SaveConfig_atomic:
  assumes "SaveConfig flt pl marshal p (Some c) w = (e, c', w')"
  shows "\<exists>d. c' = Some d \<and> d = (if cVersion c = 0 then c\<lparr>cVersion := 1\<rparr> else c)
    \<and> (case e of
         None \<Rightarrow> (\<exists>s. marshal d = Some s \<and> os_files w' p = Some \<lparr>f_data = s @ [CHR 0x0A], f_mode = 6 * 64\<rparr>
            \<and> os_files w' (tmp_of p) = None)
       | Some _ \<Rightarrow> os_files w' p = os_files w p)
    \<and> (\<forall>q. q \<noteq> p \<and> q \<noteq> tmp_of p \<longrightarrow> os_files w' q = os_files w q)"
  using SaveConfig_outcome [OF assms]
  unfolding save_outcome_def untouched_but_def ConfigSchemaVersion_def mode_0600_def
  by (elim exE conjE) (intro exI conjI, assumption+, simp_all split: option.splits)

text \<open>
  (C13) The store keeps what it reports: a configuration whose save succeeded is the one the
  next load finds; a save that failed leaves the previous one; after a wipe that reports
  success there is none; and no other file is touched by either.
\<close>

theorem config_store_contract:
  assumes "readable marshal unmarshal c"
    and "save_at (honest flt) pl marshal p c w = (e, w1)" "WipeConfig (honest flt') p w1 = (e', w2)"
  shows "stored unmarshal p w1 = (if e = None then Some c else stored unmarshal p w)
    \<and> (e' = None \<longrightarrow> stored unmarshal p w2 = None)
    \<and> (\<forall>q. q \<noteq> p \<and> q \<noteq> tmp_of p \<longrightarrow> os_files w2 q = os_files w q)"
proof -
  have "stored unmarshal p w1 = (if e = None then Some c else stored unmarshal p w)"
    using cs.save_ok [OF assms(1), of flt pl p w w1] cs.save_err [of flt pl marshal p c w _ w1 unmarshal] assms(2)
    by (cases e) auto
  moreover have "e' = None \<Longrightarrow> stored unmarshal p w2 = None"
    using cs.wipe_ok [of flt' p w1 w2 unmarshal] assms(3) by simp
  moreover have "os_files w2 q = os_files w q" if "q \<noteq> p" "q \<noteq> tmp_of p" for q
    using cs.save_frame [of q p flt pl marshal c w] cs.wipe_frame [of q p flt' w1] assms(2,3) that by simp
  ultimately show ?thesis by blast
qed

definition sample_conf :: Config where
  "sample_conf = \<lparr>cVersion = 1, TunnelIP = ''10.201.0.5'', PrivateKey = ''k'', ServerPubKey = ''s'', ServerHost = ''h'',
     UserEmail = [], PairedAt = [], ArenaBaseURL = [], DeviceID = [], RevocationToken = []\<rparr>"

definition bare_os :: os where
  "bare_os = \<lparr>os_files = (\<lambda>_. None), os_dirs = (\<lambda>_. None), os_cmds = [], os_tick = 0\<rparr>"

definition flat_paths :: path_lib where
  "flat_paths = \<lparr>pl_join = concat, pl_dir = (\<lambda>_. [])\<rparr>"

text \<open>A disk that fills up while the file is written: the old file stays.\<close>

theorem SaveConfig_atomic_witness:
  "\<exists>e w'. SaveConfig (\<lambda>n. if n = 2 then Some (Fault OtherErr 1) else None) flat_paths (\<lambda>_. Some ''json'') ''c''
     (Some sample_conf) bare_os = (Some e, Some sample_conf, w') \<and> os_files w' ''c'' = None"
proof -
  let ?run = "SaveConfig (\<lambda>n. if n = 2 then Some (Fault OtherErr 1) else None) flat_paths (\<lambda>_. Some ''json'') ''c''
     (Some sample_conf) bare_os"
  obtain e c' w' where r: "?run = (e, c', w')" by (cases ?run)
  have e: "e = Some (SaveWrite OtherErr)"
    using arg_cong [OF r, of fst]
    by (simp add: SaveConfig_def write_config_def flat_paths_def bare_os_def sample_conf_def os_call_defs
        os_Write_def Let_def tmp_of_def)
  show ?thesis using SaveConfig_atomic [OF r] r e by (auto simp: bare_os_def sample_conf_def)
qed

theorem config_store_contract_witness:
  "readable (\<lambda>_. Some ''json'') (\<lambda>s. if s = ''json'' @ [CHR 0x0A] then Some sample_conf else None) sample_conf \<and>
   stored (\<lambda>s. if s = ''json'' @ [CHR 0x0A] then Some sample_conf else None) ''c''
     (snd (save_at (honest (\<lambda>_. None)) flat_paths (\<lambda>_. Some ''json'') ''c'' sample_conf bare_os)) = Some sample_conf"
proof -
  let ?u = "\<lambda>s. if s = ''json'' @ [CHR 0x0A] then Some sample_conf else None"
  let ?run = "save_at (honest (\<lambda>_. None)) flat_paths (\<lambda>_. Some ''json'') ''c'' sample_conf bare_os"
  have r: "readable (\<lambda>_. Some ''json'') ?u sample_conf"
    by (simp add: readable_def ConfigSchemaVersion_def sample_conf_def)
  have "fst ?run = None"
    by (simp add: save_at_def honest_def SaveConfig_def write_config_def flat_paths_def bare_os_def sample_conf_def os_call_defs
        os_Write_def Let_def tmp_of_def mode_0600_def)
  then show ?thesis
    using config_store_contract [where flt = "\<lambda>_. None" and flt' = "\<lambda>_. None" and pl = flat_paths and p = "''c''" and w = bare_os,
        OF r prod.collapse [symmetric] prod.collapse [symmetric]] r
    by simp
qed

end
