(* ===== verification/Http_Api.thy ===== *)
theory Http_Api
  imports Config_Store
begin

text \<open>
  The HTTP layer that \<open>client/pair.go\<close> defines for the whole client: URL joining, the user
  agent, \<open>doJSON\<close>, and the errors a call can end in. The remote service is a parameter, a
  function from requests to replies; \<open>net/url\<close> and the JSON decoders are parameters too.
\<close>

section \<open>Requests, replies, errors\<close>

record http_request =
  rq_method :: string
  rq_url :: string
  rq_headers :: "(string \<times> string) list"
  rq_body :: "string option"
  rq_timeout :: nat  \<comment> \<open>seconds\<close>

datatype net_cause = Deadline | Canceled | OtherNet

datatype http_reply = HttpFail net_cause | HttpReply (status: nat) (body: string)

type_synonym service = "http_request \<Rightarrow> http_reply"

datatype go_err =
  EmptyBase | ParseBase | MarshalErr | NewRequestErr | DoErr net_cause | HttpStatus nat
  | DecodeErr | EmptyCode | PrivErr | MissingPairing

record go_url =
  u_host :: string
  u_path :: string
  u_rest :: string

record url_lib =
  ul_parse :: "string \<Rightarrow> go_url option"
  ul_string :: "go_url \<Rightarrow> string"
  ul_escape :: "string \<Rightarrow> string"

record build =
  b_version :: string
  b_os :: goos
  b_goos :: string
  b_goarch :: string

section \<open>Text helpers\<close>

definition trim_left :: "char \<Rightarrow> string \<Rightarrow> string" where
  "trim_left ch s = dropWhile (\<lambda>c. c = ch) s"

definition trim_right :: "char \<Rightarrow> string \<Rightarrow> string" where
  "trim_right ch s = rev (dropWhile (\<lambda>c. c = ch) (rev s))"

definition joined_path :: "string \<Rightarrow> string \<Rightarrow> string" where
  "joined_path base p = trim_right (CHR ''/'') base @ ''/'' @ trim_left (CHR ''/'') p"

definition joinURL :: "url_lib \<Rightarrow> string \<Rightarrow> string \<Rightarrow> go_err + string" where
  "joinURL ul base p =
     (if base = [] then Inl EmptyBase
      else (case ul_parse ul base of
        None \<Rightarrow> Inl ParseBase
      | Some u \<Rightarrow> Inr (ul_string ul (u\<lparr>u_path := joined_path (u_path u) p\<rparr>))))"

definition userAgent :: "build \<Rightarrow> string \<Rightarrow> string" where
  "userAgent b ver = ''arena-tunnel/'' @ (if ver = [] then ''dev'' else ver) @ '' ('' @ b_goos b
     @ ''/'' @ b_goarch b @ '')''"

definition httpClientTimeout :: nat where "httpClientTimeout = 15"

section \<open>Calls\<close>

text \<open>\<open>http.NewRequestWithContext\<close> fails on a URL that does not parse; the two arguments of
  the timeout are the context's deadline and the client's own (15 s).\<close>

definition new_request :: "url_lib \<Rightarrow> string \<Rightarrow> string \<Rightarrow> string option \<Rightarrow> nat \<Rightarrow> http_request option" where
  "new_request ul method url bdy ctxTimeout = (case ul_parse ul url of None \<Rightarrow> None
     | Some _ \<Rightarrow> Some \<lparr>rq_method = method, rq_url = url, rq_headers = [], rq_body = bdy,
         rq_timeout = min ctxTimeout httpClientTimeout\<rparr>)"

definition set_header :: "string \<Rightarrow> string \<Rightarrow> http_request \<Rightarrow> http_request" where
  "set_header k v r = r\<lparr>rq_headers := (k, v) # filter (\<lambda>(k', _). k' \<noteq> k) (rq_headers r)\<rparr>"

text \<open>
  \<open>doJSON\<close>: \<open>inp\<close> is \<open>None\<close> for a nil body, otherwise the result of \<open>json.Marshal\<close>.
\<close>

definition doJSON :: "url_lib \<Rightarrow> service \<Rightarrow> nat \<Rightarrow> string \<Rightarrow> string \<Rightarrow> string \<Rightarrow> string option option
    \<Rightarrow> go_err + (nat \<times> string)" where
  "doJSON ul srv ctxTimeout method url ua inp =
     (if inp = Some None then Inl MarshalErr
      else (case new_request ul method url (case inp of Some (Some raw) \<Rightarrow> Some raw | _ \<Rightarrow> None) ctxTimeout of
        None \<Rightarrow> Inl NewRequestErr
      | Some r0 \<Rightarrow>
          (let r1 = (if inp \<noteq> None then set_header ''Content-Type'' ''application/json'' r0 else r0);
               r2 = set_header ''Accept'' ''application/json'' r1;
               r3 = set_header ''User-Agent'' ua r2
           in case srv r3 of HttpFail e \<Rightarrow> Inl (DoErr e) | HttpReply st bd \<Rightarrow> Inr (st, bd))))"

text \<open>
  The authenticated \<open>GET\<close> of the control-plane state that \<open>fetchNetworkProfile\<close>,
  \<open>fetchC2State\<close> and \<open>pingC2State\<close> all build the same way.
\<close>

definition bearer_get :: "url_lib \<Rightarrow> service \<Rightarrow> build \<Rightarrow> nat \<Rightarrow> string \<Rightarrow> string \<Rightarrow> go_err + (nat \<times> string)" where
  "bearer_get ul srv b ctxTimeout token endpoint =
     (case new_request ul ''GET'' endpoint None ctxTimeout of
        None \<Rightarrow> Inl NewRequestErr
      | Some r0 \<Rightarrow>
          (let r = set_header ''User-Agent'' (userAgent b (b_version b))
                     (set_header ''Accept'' ''application/json''
                       (set_header ''Authorization'' (''Bearer '' @ token) r0))
           in case srv r of HttpFail e \<Rightarrow> Inl (DoErr e) | HttpReply st bd \<Rightarrow> Inr (st, bd)))"

section \<open>Facts\<close>

lemma trim_left_hd: "trim_left ch s \<noteq> [] \<Longrightarrow> hd (trim_left ch s) \<noteq> ch"
  unfolding trim_left_def by (rule hd_dropWhile)

lemma trim_right_last: "trim_right ch s \<noteq> [] \<Longrightarrow> last (trim_right ch s) \<noteq> ch"
  unfolding trim_right_def using hd_dropWhile [of "\<lambda>c. c = ch" "rev s"] by (simp add: last_rev)

lemma trim_left_slash [simp]: "trim_left ch (ch # s) = trim_left ch s"
  by (simp add: trim_left_def)

lemma trim_right_slash [simp]: "trim_right ch (s @ [ch]) = trim_right ch s"
  by (simp add: trim_right_def)

text \<open>Exactly one slash joins the two parts, whatever slashes the caller wrote.\<close>

lemma joined_path_slashes:
  "joined_path (base @ replicate m (CHR ''/'')) (replicate n (CHR ''/'') @ p) = joined_path base p"
proof -
  have drop: "dropWhile (\<lambda>c. c = ch) (replicate k ch @ s) = dropWhile (\<lambda>c. c = ch) s" for k ch and s :: string
    by (induction k) simp_all
  then show ?thesis by (simp add: joined_path_def trim_right_def trim_left_def)
qed

lemma bearer_get_header:
  assumes "bearer_get ul srv b t token url = Inr r"
  shows "\<exists>q. srv q = HttpReply (fst r) (snd r) \<and> ((''Authorization'', ''Bearer '' @ token) \<in> set (rq_headers q))
    \<and> rq_method q = ''GET'' \<and> rq_url q = url"
proof -
  from assms obtain q where "srv q = HttpReply (fst r) (snd r)"
    "q = set_header ''User-Agent'' (userAgent b (b_version b))
       (set_header ''Accept'' ''application/json''
         (set_header ''Authorization'' (''Bearer '' @ token)
           \<lparr>rq_method = ''GET'', rq_url = url, rq_headers = [], rq_body = None,
            rq_timeout = min t httpClientTimeout\<rparr>))"
    by (auto simp: bearer_get_def new_request_def Let_def split: option.splits http_reply.splits)
  then show ?thesis by (intro exI [of _ q]) (simp add: set_header_def)
qed

section \<open>A URL library and a build for concrete runs\<close>

definition sample_urls :: url_lib where
  "sample_urls = \<lparr>ul_parse = (\<lambda>s. Some \<lparr>u_host = s, u_path = [], u_rest = []\<rparr>),
     ul_string = (\<lambda>u. u_host u @ u_path u), ul_escape = (\<lambda>s. s)\<rparr>"

definition sample_build :: build where
  "sample_build = \<lparr>b_version = ''v1'', b_os = Linux, b_goos = ''linux'', b_goarch = ''amd64''\<rparr>"

end
