(* ===== verification/Network_Profile.thy ===== *)
theory Network_Profile
  imports Netip Http_Api "HOL-Library.List_Lexorder" "HOL-Library.Char_ord"
begin

text \<open>
  \<open>client/network_profile.go\<close>: the owner-scoped network profile, its validation, the fetch
  that refuses any profile it cannot validate, and the route lists derived from it.
\<close>

section \<open>Data\<close>

record networkRoute =
  CIDR :: string
  Kind :: string
  DeploymentID :: string

record networkDNS =
  Servers :: "string list"
  RouteAll :: bool

record networkProfile =
  npVersion :: int
  Routes :: "networkRoute list"
  DNS :: networkDNS

definition arenaResolverIP :: string where "arenaResolverIP = ''10.130.50.254''"

datatype profile_error =
  UnsupportedVersion | InvalidRouteCount nat | InvalidRoute string | DuplicateRoute string
  | ScenarioOutside string | BadTeamServer string | BadResolver string | UnknownKind string
  | BadDNS

section \<open>Validation\<close>

text \<open>The three \<open>netip.MustParsePrefix\<close> constants (the lemmas below show that they parse).\<close>

definition scenarioRange :: prefix4 where
  "scenarioRange = \<lparr>pfx_addr = ip4 10 128 0 0, pfx_bits = 16\<rparr>"

definition teamserverRange :: prefix4 where
  "teamserverRange = \<lparr>pfx_addr = ip4 10 130 50 0, pfx_bits = 24\<rparr>"

definition resolverRoute :: prefix4 where
  "resolverRoute = \<lparr>pfx_addr = ip4 10 130 50 254, pfx_bits = 32\<rparr>"

definition check_kind :: "string \<Rightarrow> prefix4 \<Rightarrow> profile_error option" where
  "check_kind kind p =
     (if kind = ''scenario'' then
        (if pfx_bits p < pfx_bits scenarioRange \<or> \<not> pfx_contains scenarioRange (pfx_addr p)
         then Some (ScenarioOutside (prefix_string p)) else None)
      else if kind = ''teamserver'' then
        (if pfx_bits p \<noteq> 32 \<or> \<not> pfx_contains teamserverRange (pfx_addr p)
            \<or> addr_string (pfx_addr p) = arenaResolverIP
         then Some (BadTeamServer (prefix_string p)) else None)
      else if kind = ''resolver'' then
        (if p \<noteq> resolverRoute then Some (BadResolver (prefix_string p)) else None)
      else Some (UnknownKind kind))"

text \<open>The loop over the routes: \<open>seen\<close> are the prefixes met so far, \<open>res\<close> the flag
  \<open>hasResolverRoute\<close>.\<close>

fun validate_routes :: "networkRoute list \<Rightarrow> string list \<Rightarrow> bool \<Rightarrow> profile_error + bool" where
  "validate_routes [] seen res = Inr res"
| "validate_routes (r # rs) seen res = (case parsePrefix4 (CIDR r) of
     None \<Rightarrow> Inl (InvalidRoute (CIDR r))
   | Some p \<Rightarrow>
       if p \<noteq> masked p then Inl (InvalidRoute (CIDR r))
       else if prefix_string p \<in> set seen then Inl (DuplicateRoute (prefix_string p))
       else (case check_kind (Kind r) p of
         Some e \<Rightarrow> Inl e
       | None \<Rightarrow> validate_routes rs (prefix_string p # seen) (res \<or> Kind r = ''resolver'')))"

definition validateNetworkProfile :: "networkProfile option \<Rightarrow> profile_error option" where
  "validateNetworkProfile profile = (case profile of
     None \<Rightarrow> Some UnsupportedVersion
   | Some np \<Rightarrow>
       if npVersion np \<noteq> 1 then Some UnsupportedVersion
       else if length (Routes np) = 0 \<or> length (Routes np) > 64
         then Some (InvalidRouteCount (length (Routes np)))
       else (case validate_routes (Routes np) [] False of
         Inl e \<Rightarrow> Some e
       | Inr hasResolverRoute \<Rightarrow>
           if \<not> hasResolverRoute \<or> \<not> RouteAll (DNS np) \<or> length (Servers (DNS np)) \<noteq> 1
              \<or> hd (Servers (DNS np)) \<noteq> arenaResolverIP
           then Some BadDNS else None))"

section \<open>Fetch\<close>

datatype fetch_error = FetchErr go_err | NoProfile | UnsafeProfile profile_error

definition c2_state_path :: string where "c2_state_path = ''/api/users/me/c2-state''"

text \<open>\<open>decode\<close> decodes the reply: \<open>None\<close> for malformed JSON, \<open>Some None\<close> for a null or absent
  \<open>networkProfile\<close>.\<close>

definition fetchNetworkProfile :: "url_lib \<Rightarrow> service \<Rightarrow> (string \<Rightarrow> networkProfile option option)
    \<Rightarrow> build \<Rightarrow> Config \<Rightarrow> fetch_error + networkProfile" where
  "fetchNetworkProfile ul srv decode b cfg =
     (if ArenaBaseURL cfg = [] \<or> RevocationToken cfg = [] then Inl (FetchErr MissingPairing)
      else (case joinURL ul (ArenaBaseURL cfg) c2_state_path of
        Inl e \<Rightarrow> Inl (FetchErr e)
      | Inr endpoint \<Rightarrow> (case bearer_get ul srv b 8 (RevocationToken cfg) endpoint of
          Inl e \<Rightarrow> Inl (FetchErr e)
        | Inr (st, bd) \<Rightarrow>
            if st \<noteq> 200 then Inl (FetchErr (HttpStatus st))
            else (case decode bd of
              None \<Rightarrow> Inl (FetchErr DecodeErr)
            | Some None \<Rightarrow> Inl NoProfile
            | Some (Some np) \<Rightarrow> (case validateNetworkProfile (Some np) of
                Some e \<Rightarrow> Inl (UnsafeProfile e) | None \<Rightarrow> Inr np)))))"

section \<open>Derived route lists\<close>

definition networkProfileRouteCIDRs :: "networkProfile \<Rightarrow> string list" where
  "networkProfileRouteCIDRs np = sort (map CIDR (Routes np))"

definition networkRouteSet :: "networkProfile \<Rightarrow> string set" where
  "networkRouteSet np = set (networkProfileRouteCIDRs np)"

definition networkProfilesEqual :: "networkProfile option \<Rightarrow> networkProfile option \<Rightarrow> bool" where
  "networkProfilesEqual a b \<longleftrightarrow> a = b"


section \<open>What a validated profile is\<close>

definition kind_ok :: "string \<Rightarrow> prefix4 \<Rightarrow> bool" where
  "kind_ok k p \<longleftrightarrow>
     k = ''scenario'' \<and> 16 \<le> pfx_bits p \<and> pfx_contains scenarioRange (pfx_addr p)
   \<or> k = ''teamserver'' \<and> pfx_bits p = 32 \<and> pfx_contains teamserverRange (pfx_addr p)
       \<and> pfx_addr p \<noteq> ip4 10 130 50 254
   \<or> k = ''resolver'' \<and> p = resolverRoute"

definition approved_route :: "networkRoute \<Rightarrow> bool" where
  "approved_route r \<longleftrightarrow>
     (\<exists>p. CIDR r = prefix_string p \<and> pfx_bits p \<le> 32 \<and> p = masked p \<and> kind_ok (Kind r) p)"

definition authorised_profile :: "networkProfile \<Rightarrow> bool" where
  "authorised_profile np \<longleftrightarrow> npVersion np = 1 \<and> 1 \<le> length (Routes np) \<and> length (Routes np) \<le> 64
     \<and> (\<forall>r \<in> set (Routes np). approved_route r) \<and> distinct (map CIDR (Routes np))
     \<and> (\<exists>r \<in> set (Routes np). Kind r = ''resolver'')
     \<and> RouteAll (DNS np) \<and> Servers (DNS np) = [arenaResolverIP]"

lemma resolver_octets: "dec 10 = ''10''" "dec 130 = ''130''" "dec 50 = ''50''" "dec 254 = ''254''"
  by code_simp+

lemma arenaResolverIP_addr: "arenaResolverIP = addr_string (ip4 10 130 50 254)"
  by (simp add: arenaResolverIP_def addr_string_def resolver_octets)

lemma check_kind_ok: "check_kind k p = None \<longleftrightarrow> kind_ok k p"
  by (auto simp: check_kind_def kind_ok_def arenaResolverIP_addr scenarioRange_def)

lemma check_kind_approved:
  assumes "parsePrefix4 (CIDR r) = Some p" "p = masked p"
  shows "check_kind (Kind r) p = None \<longleftrightarrow> approved_route r"
proof -
  from assms(1) have p: "CIDR r = prefix_string p" "pfx_bits p \<le> 32" by (simp_all add: parsePrefix4_iff)
  then have "q = p" if "CIDR r = prefix_string q" "pfx_bits q \<le> 32" for q
    using that by (simp add: prefix_string_inject)
  with p assms(2) show ?thesis unfolding approved_route_def check_kind_ok by blast
qed

lemma approved_parses: "approved_route r \<Longrightarrow> \<exists>p. parsePrefix4 (CIDR r) = Some p \<and> p = masked p"
  by (auto simp: approved_route_def parsePrefix4_iff)

lemma check_kind_resolver: "check_kind k p = None \<Longrightarrow> k = ''resolver'' \<Longrightarrow> p = resolverRoute"
  by (auto simp: check_kind_def split: if_splits)

lemma validate_routes_ok:
  "validate_routes rs seen res = Inr b \<longleftrightarrow>
     (\<forall>r \<in> set rs. approved_route r) \<and> distinct (map CIDR rs) \<and> set (map CIDR rs) \<inter> set seen = {}
     \<and> b = (res \<or> (\<exists>r \<in> set rs. Kind r = ''resolver''))"
proof (induction rs seen res rule: validate_routes.induct)
  case (2 r rs seen res)
  show ?case
  proof (cases "parsePrefix4 (CIDR r)")
    case None
    then have "\<not> approved_route r" by (auto dest: approved_parses)
    with None show ?thesis by simp
  next
    case (Some p)
    then have cidr: "CIDR r = prefix_string p" by (simp add: parsePrefix4_iff)
    show ?thesis
    proof (cases "p = masked p \<and> prefix_string p \<notin> set seen \<and> check_kind (Kind r) p = None")
      case True
      with Some "2.IH" [OF Some] check_kind_approved [OF Some] cidr show ?thesis by auto
    next
      case False
      have "p = masked p \<Longrightarrow> check_kind (Kind r) p \<noteq> None \<Longrightarrow> \<not> approved_route r"
        using check_kind_approved [OF Some] by simp
      moreover have "p \<noteq> masked p \<Longrightarrow> \<not> approved_route r" using approved_parses [of r] Some by auto
      ultimately show ?thesis using False Some cidr by (auto split: option.splits)
    qed
  qed
qed auto

lemma validate_authorised:
  "validateNetworkProfile (Some np) = None \<longleftrightarrow> authorised_profile np"
proof -
  have servers: "length xs = 1 \<and> hd xs = y \<longleftrightarrow> xs = [y]" for xs and y :: string
    by (cases xs) auto
  show ?thesis
  proof (cases "validate_routes (Routes np) [] False")
    case (Inl e)
    then have "\<not> ((\<forall>r \<in> set (Routes np). approved_route r) \<and> distinct (map CIDR (Routes np)))"
      using validate_routes_ok [of "Routes np" "[]" False] by auto
    with Inl show ?thesis by (auto simp: validateNetworkProfile_def authorised_profile_def)
  next
    case (Inr b)
    with validate_routes_ok [of "Routes np" "[]" False b] servers [of "Servers (DNS np)" arenaResolverIP]
    show ?thesis
      by (auto simp: validateNetworkProfile_def authorised_profile_def Suc_le_eq)
  qed
qed

text \<open>
  (C9) \<open>validateNetworkProfile\<close> accepts a profile exactly when it is the authorised shape:
  version 1, between one and 64 routes, every route canonical and inside the range its kind
  allows, no route twice, the resolver route present, and DNS sent to the Arena resolver only.
\<close>

theorem validateNetworkProfile_iff:
  "validateNetworkProfile (Some np) = None \<longleftrightarrow> authorised_profile np"
  by (rule validate_authorised)

section \<open>Consequences for the routes that are installed\<close>

text \<open>The constants are what \<open>MustParsePrefix\<close> makes of the literals in the source.\<close>

lemma dec_octets_0: "dec 128 = ''128''" "dec 0 = ''0''" "dec 16 = ''16''" "dec 24 = ''24''" "dec 32 = ''32''"
  by code_simp+

lemma profile_constants:
  "parsePrefix4 ''10.128.0.0/16'' = Some scenarioRange"
  "parsePrefix4 ''10.130.50.0/24'' = Some teamserverRange"
  "parsePrefix4 (arenaResolverIP @ ''/32'') = Some resolverRoute"
  unfolding parsePrefix4_iff
  by (simp_all add: prefix_string_def addr_string_def scenarioRange_def teamserverRange_def
      resolverRoute_def resolver_octets dec_octets_0 arenaResolverIP_def)

definition routed_addrs :: "networkProfile \<Rightarrow> ipv4 set" where
  "routed_addrs np = {a. \<exists>r \<in> set (Routes np). \<exists>p. parsePrefix4 (CIDR r) = Some p \<and> pfx_contains p a}"

definition approved_addrs :: "ipv4 set" where
  "approved_addrs = {a. pfx_contains scenarioRange a} \<union> {a. pfx_contains teamserverRange a}"

lemma kind_ok_approved:
  assumes "kind_ok k p" "pfx_bits p \<le> 32" "pfx_contains p a"
  shows "a \<in> approved_addrs"
proof -
  consider "16 \<le> pfx_bits p" "pfx_contains scenarioRange (pfx_addr p)"
    | "pfx_bits p = 32" "pfx_contains teamserverRange (pfx_addr p)" | "p = resolverRoute"
    using assms(1) by (auto simp: kind_ok_def)
  then show ?thesis
  proof cases
    case 1
    with assms pfx_contains_trans [of scenarioRange p a] show ?thesis
      by (simp add: approved_addrs_def scenarioRange_def)
  next
    case 2
    with assms show ?thesis by (simp add: approved_addrs_def)
  next
    case 3
    with assms(3) have "a = ip4 10 130 50 254" by (simp add: resolverRoute_def)
    moreover have "pfx_contains teamserverRange (ip4 10 130 50 254)"
      by (simp add: teamserverRange_def pfx_contains_eq ip4_def)
    ultimately show ?thesis by (simp add: approved_addrs_def)
  qed
qed

lemma authorised_addrs: "authorised_profile np \<Longrightarrow> routed_addrs np \<subseteq> approved_addrs"
  by (force simp: authorised_profile_def approved_route_def routed_addrs_def parsePrefix4_iff
      prefix_string_inject intro: kind_ok_approved)

lemma authorised_CIDRs:
  assumes "authorised_profile np"
  shows "distinct (networkProfileRouteCIDRs np)" "sorted (networkProfileRouteCIDRs np)"
    "card (networkRouteSet np) = length (Routes np)"
    "s \<in> networkRouteSet np \<Longrightarrow> \<exists>p. parsePrefix4 s = Some p \<and> p = masked p"
  using assms
  by (auto simp: authorised_profile_def networkProfileRouteCIDRs_def networkRouteSet_def
      distinct_card [of "map CIDR (Routes np)", simplified] dest: approved_parses)

text \<open>
  A profile that passes validation can never route an address outside the scenario
  range 10.128.0.0/16 and the TeamServer range 10.130.50.0/24: no broad, foreign or public
  route can be installed from it.
\<close>

lemma validated_routes_confined:
  assumes "validateNetworkProfile (Some np) = None"
  shows "routed_addrs np \<subseteq> approved_addrs"
proof -
  from assms have "authorised_profile np" unfolding validate_authorised .
  then show ?thesis by (rule authorised_addrs)
qed


section \<open>A concrete profile (the one of \<open>network_profile_test.go\<close>)\<close>

definition sample_profile :: networkProfile where
  "sample_profile = \<lparr>npVersion = 1, Routes =
     [\<lparr>CIDR = ''10.128.42.0/24'', Kind = ''scenario'', DeploymentID = ''dep-nightfall''\<rparr>,
      \<lparr>CIDR = ''10.130.50.31/32'', Kind = ''teamserver'', DeploymentID = []\<rparr>,
      \<lparr>CIDR = ''10.130.50.254/32'', Kind = ''resolver'', DeploymentID = []\<rparr>],
     DNS = \<lparr>Servers = [arenaResolverIP], RouteAll = True\<rparr>\<rparr>"

lemma dec_sample: "dec 42 = ''42''" "dec 31 = ''31''"
  by code_simp+

lemma approved_routeI:
  "CIDR r = prefix_string p \<Longrightarrow> pfx_bits p \<le> 32 \<Longrightarrow> p = masked p \<Longrightarrow> kind_ok (Kind r) p \<Longrightarrow> approved_route r"
  unfolding approved_route_def by blast

lemma sample_text:
  "''10.128.42.0/24'' = prefix_string \<lparr>pfx_addr = ip4 10 128 42 0, pfx_bits = 24\<rparr>"
  "''10.130.50.31/32'' = prefix_string \<lparr>pfx_addr = ip4 10 130 50 31, pfx_bits = 32\<rparr>"
  "''10.130.50.254/32'' = prefix_string resolverRoute"
  by (simp_all add: prefix_string_def addr_string_def dec_sample dec_octets_0 resolver_octets
      resolverRoute_def)

lemma sample_kinds:
  "kind_ok ''scenario'' \<lparr>pfx_addr = ip4 10 128 42 0, pfx_bits = 24\<rparr>"
  "kind_ok ''teamserver'' \<lparr>pfx_addr = ip4 10 130 50 31, pfx_bits = 32\<rparr>"
  "kind_ok ''resolver'' resolverRoute"
  by (simp_all add: kind_ok_def scenarioRange_def teamserverRange_def pfx_contains_eq ip4_def)

lemma sample_masked:
  "masked \<lparr>pfx_addr = ip4 10 128 42 0, pfx_bits = 24\<rparr> = \<lparr>pfx_addr = ip4 10 128 42 0, pfx_bits = 24\<rparr>"
  "masked \<lparr>pfx_addr = ip4 10 130 50 31, pfx_bits = 32\<rparr> = \<lparr>pfx_addr = ip4 10 130 50 31, pfx_bits = 32\<rparr>"
  "masked resolverRoute = resolverRoute"
  by (simp_all add: masked_def ip4_def resolverRoute_def mask_eq_exp_minus_1)

lemma approved_scenario_sample:
  "approved_route \<lparr>CIDR = ''10.128.42.0/24'', Kind = ''scenario'', DeploymentID = d\<rparr>"
  by (rule approved_routeI, simp, rule sample_text(1)) (simp_all add: sample_kinds sample_masked)

lemma approved_teamserver_sample:
  "approved_route \<lparr>CIDR = ''10.130.50.31/32'', Kind = ''teamserver'', DeploymentID = d\<rparr>"
  by (rule approved_routeI, simp, rule sample_text(2)) (simp_all add: sample_kinds sample_masked)

lemma approved_resolver_sample:
  "approved_route \<lparr>CIDR = ''10.130.50.254/32'', Kind = ''resolver'', DeploymentID = d\<rparr>"
  by (rule approved_routeI, simp, rule sample_text(3)) (simp_all add: sample_kinds sample_masked, simp add: resolverRoute_def)

lemma sample_authorised: "authorised_profile sample_profile"
  by (simp add: authorised_profile_def sample_profile_def approved_scenario_sample
      approved_teamserver_sample approved_resolver_sample)

lemma validated_routes_confined_witness:
  "validateNetworkProfile (Some sample_profile) = None \<and> routed_addrs sample_profile \<subseteq> approved_addrs"
  using validated_routes_confined [of sample_profile] sample_authorised validate_authorised by simp


section \<open>The fetch is fail-closed\<close>

text \<open>
  (C23) A profile comes out of \<open>fetchNetworkProfile\<close> only if it is authorised, was decoded
  from a 200 reply, and was asked for with the bearer of a non-empty pairing token; every
  other outcome is an error.
\<close>

theorem fetchNetworkProfile_fail_closed:
  assumes "fetchNetworkProfile ul srv decode b cfg = Inr np"
  shows "authorised_profile np \<and> RevocationToken cfg \<noteq> [] \<and> ArenaBaseURL cfg \<noteq> [] \<and>
    (\<exists>q bd. srv q = HttpReply 200 bd \<and> decode bd = Some (Some np) \<and>
       (''Authorization'', ''Bearer '' @ RevocationToken cfg) \<in> set (rq_headers q))"
proof -
  from assms obtain endpoint bd where
    get: "bearer_get ul srv b 8 (RevocationToken cfg) endpoint = Inr (200, bd)" and
    d: "decode bd = Some (Some np)" "validateNetworkProfile (Some np) = None" and
    c: "ArenaBaseURL cfg \<noteq> []" "RevocationToken cfg \<noteq> []"
    by (auto simp: fetchNetworkProfile_def split: if_splits sum.splits option.splits)
  from bearer_get_header [OF get] d c show ?thesis
    unfolding validate_authorised by auto
qed

definition sample_config :: Config where
  "sample_config = \<lparr>cVersion = 1, TunnelIP = ''10.201.0.5'', PrivateKey = ''k'', ServerPubKey = ''s'',
     ServerHost = ''h'', UserEmail = ''u'', PairedAt = ''t'', ArenaBaseURL = ''a'', DeviceID = [],
     RevocationToken = ''r''\<rparr>"

lemma sample_fetch:
  "fetchNetworkProfile sample_urls (\<lambda>_. HttpReply 200 ''{}'') (\<lambda>_. Some (Some sample_profile))
     sample_build sample_config = Inr sample_profile"
  using sample_authorised validate_authorised [of sample_profile]
  by (simp add: fetchNetworkProfile_def sample_config_def sample_urls_def joinURL_def bearer_get_def
      new_request_def Let_def)

theorem fetchNetworkProfile_fail_closed_witness:
  "fetchNetworkProfile sample_urls (\<lambda>_. HttpReply 200 ''{}'') (\<lambda>_. Some (Some sample_profile))
     sample_build sample_config = Inr sample_profile \<and> authorised_profile sample_profile"
  using fetchNetworkProfile_fail_closed [OF sample_fetch] sample_fetch by simp

end
