(* ===== verification/Tun_Config.thy ===== *)
theory Tun_Config
  imports Network_Profile
begin

text \<open>
  \<open>client/tun_config_{linux,windows,other}.go\<close>: address, routes and DNS of the tunnel
  interface. Linux drives \<open>ip\<close> and \<open>resolvectl\<close>; Windows calls the \<open>winipcfg\<close> library. Both
  are logged calls of the operating-system state. Go iterates a map in an unspecified
  order, so the two loops of \<open>reconcileTUN\<close> take the order as an argument.
\<close>

section \<open>The loops of a reconcile\<close>

datatype opres = OpOk | OpErr oserr | OpPanic string

datatype tun_error =
  TunAddr | TunLink | TunRoute string oserr | TunDNS | TunPanic string | TunNative | TunParseIP
  | TunConfigure oserr | TunUnsupported

fun withdraw :: "(string \<Rightarrow> 's \<Rightarrow> opres \<times> 's) \<Rightarrow> string set \<Rightarrow> string list \<Rightarrow> 's \<Rightarrow> tun_error option \<times> 's" where
  "withdraw del keep [] s = (None, s)"
| "withdraw del keep (r # rs) s =
     (if r \<in> keep then withdraw del keep rs s
      else (case del r s of (OpPanic m, s') \<Rightarrow> (Some (TunPanic m), s')
        | (_, s') \<Rightarrow> withdraw del keep rs s'))"

fun install_routes :: "(string \<Rightarrow> 's \<Rightarrow> opres \<times> 's) \<Rightarrow> string set \<Rightarrow> string list \<Rightarrow> 's \<Rightarrow> tun_error option \<times> 's" where
  "install_routes add present [] s = (None, s)"
| "install_routes add present (r # rs) s =
     (if r \<in> present then install_routes add present rs s
      else (case add r s of
          (OpOk, s') \<Rightarrow> install_routes add present rs s'
        | (OpErr e, s') \<Rightarrow> (Some (TunRoute r e), s')
        | (OpPanic m, s') \<Rightarrow> (Some (TunPanic m), s')))"

lemma withdraw_error: "withdraw del keep rs s = (y, s') \<Longrightarrow> y \<noteq> None \<Longrightarrow> \<exists>m. y = Some (TunPanic m)"
proof (induction rs arbitrary: s)
  case (Cons r rs)
  obtain z s1 where "del r s = (z, s1)" by (cases "del r s")
  with Cons show ?case by (cases z) (auto split: if_splits)
qed simp

definition reconcile_with :: "(string \<Rightarrow> 's \<Rightarrow> opres \<times> 's) \<Rightarrow> (string \<Rightarrow> 's \<Rightarrow> opres \<times> 's)
    \<Rightarrow> ('s \<Rightarrow> tun_error option \<times> 's) \<Rightarrow> string list \<Rightarrow> string list \<Rightarrow> string set \<Rightarrow> string set
    \<Rightarrow> 's \<Rightarrow> tun_error option \<times> 's" where
  "reconcile_with add del dns porder norder prev nxt s =
     (case withdraw del nxt porder s of
        (Some e, s1) \<Rightarrow> (Some e, s1)
      | (None, s1) \<Rightarrow> (case install_routes add prev norder s1 of
          (Some e, s2) \<Rightarrow> (Some e, s2)
        | (None, s2) \<Rightarrow> dns s2))"

section \<open>Linux\<close>

definition ip_route :: "string \<Rightarrow> string \<Rightarrow> string \<Rightarrow> cmd" where
  "ip_route verb tun r = [''ip'', ''route'', verb, r, ''dev'', tun]"

definition cmd_op :: "faults \<Rightarrow> cmd \<Rightarrow> os \<Rightarrow> opres \<times> os" where
  "cmd_op flt c w = (case run_call flt c w of (None, w') \<Rightarrow> (OpOk, w') | (Some e, w') \<Rightarrow> (OpErr e, w'))"

definition linux_add :: "faults \<Rightarrow> string \<Rightarrow> string \<Rightarrow> os \<Rightarrow> opres \<times> os" where
  "linux_add flt tun r = cmd_op flt (ip_route ''replace'' tun r)"

definition linux_del :: "faults \<Rightarrow> string \<Rightarrow> string \<Rightarrow> os \<Rightarrow> opres \<times> os" where
  "linux_del flt tun r = cmd_op flt (ip_route ''del'' tun r)"

definition configureTUN_linux :: "faults \<Rightarrow> string \<Rightarrow> string \<Rightarrow> networkProfile \<Rightarrow> os \<Rightarrow> tun_error option \<times> os" where
  "configureTUN_linux flt tun ipStr np w =
     (case run_cmd flt [''ip'', ''addr'', ''add'', ipStr @ ''/16'', ''dev'', tun] w of
        (False, w1) \<Rightarrow> (Some TunAddr, w1)
      | (True, w1) \<Rightarrow> (case run_cmd flt [''ip'', ''link'', ''set'', tun, ''up''] w1 of
          (False, w2) \<Rightarrow> (Some TunLink, w2)
        | (True, w2) \<Rightarrow> install_routes (linux_add flt tun) {} (networkProfileRouteCIDRs np) w2))"

text \<open>\<open>exec.LookPath\<close> is a call that may fail; the three \<open>resolvectl\<close> commands follow, the
  last two reverting the link's DNS when they fail.\<close>

definition configureLinuxDNS :: "faults \<Rightarrow> string \<Rightarrow> networkProfile \<Rightarrow> os \<Rightarrow> tun_error option \<times> os" where
  "configureLinuxDNS flt tun np w =
     (case os_Nop flt w of
        (Inl _, w0) \<Rightarrow> (Some TunDNS, w0)
      | (Inr _, w0) \<Rightarrow>
        (case run_cmd flt ([''resolvectl'', ''dns'', tun] @ Servers (DNS np)) w0 of
          (False, w1) \<Rightarrow> (Some TunDNS, w1)
        | (True, w1) \<Rightarrow>
          (case run_cmd flt [''resolvectl'', ''domain'', tun, if RouteAll (DNS np) then ''~.'' else []] w1 of
            (False, w2) \<Rightarrow> (Some TunDNS, snd (run_cmd flt [''resolvectl'', ''revert'', tun] w2))
          | (True, w2) \<Rightarrow>
            (case run_cmd flt [''resolvectl'', ''default-route'', tun, ''yes''] w2 of
              (False, w3) \<Rightarrow> (Some TunDNS, snd (run_cmd flt [''resolvectl'', ''revert'', tun] w3))
            | (True, w3) \<Rightarrow> (None, w3)))))"

definition configureTunnelDNS_linux :: "faults \<Rightarrow> string \<Rightarrow> networkProfile \<Rightarrow> os \<Rightarrow> tun_error option \<times> os" where
  "configureTunnelDNS_linux flt tun np w = configureLinuxDNS flt tun np w"

definition reconcileTUN_linux :: "faults \<Rightarrow> string \<Rightarrow> string list \<Rightarrow> string list
    \<Rightarrow> networkProfile \<Rightarrow> networkProfile \<Rightarrow> os \<Rightarrow> tun_error option \<times> os" where
  "reconcileTUN_linux flt tun porder norder previous nxt w =
     reconcile_with (linux_add flt tun) (linux_del flt tun) (configureLinuxDNS flt tun nxt)
       porder norder (networkRouteSet previous) (networkRouteSet nxt) w"

definition teardownTUN_linux :: "faults \<Rightarrow> string \<Rightarrow> networkProfile \<Rightarrow> os \<Rightarrow> os" where
  "teardownTUN_linux flt tun np w = run_cmds flt
     ([[''resolvectl'', ''revert'', tun]] @ map (ip_route ''del'' tun) (networkProfileRouteCIDRs np)
      @ [[''ip'', ''link'', ''set'', tun, ''down''], [''ip'', ''addr'', ''flush'', ''dev'', tun]]) w"

section \<open>Windows\<close>

text \<open>
  \<open>ERROR_OBJECT_ALREADY_EXISTS\<close> and \<open>ERROR_NOT_FOUND\<close> are \<open>Exist\<close> and \<open>NotExist\<close>. The
  fixed next hop (0.0.0.0) and metric (0) of the library calls are left out of the log.
\<close>

fun win_add_routes :: "faults \<Rightarrow> prefix4 list \<Rightarrow> os \<Rightarrow> oserr option \<times> os" where
  "win_add_routes flt [] w = (None, w)"
| "win_add_routes flt (p # ps) w = (case run_call flt [''AddRoute'', prefix_string p] w of
     (None, w') \<Rightarrow> win_add_routes flt ps w'
   | (Some e, w') \<Rightarrow> if e = Exist then win_add_routes flt ps w' else (Some e, w'))"

definition win_set_ip :: "faults \<Rightarrow> string \<Rightarrow> os \<Rightarrow> oserr option \<times> os" where
  "win_set_ip flt ipStr w = (let c = [''SetIPAddressesForFamily'', ipStr @ ''/16''] in
     case run_call flt c w of
       (Some e, w1) \<Rightarrow> if e = Exist
          then run_call flt c (snd (run_call flt [''FlushIPAddresses''] w1)) else (Some e, w1)
     | (None, w1) \<Rightarrow> (None, w1))"

datatype attempt = AttemptDone | AttemptRetry oserr | AttemptFail oserr

definition retry_or_fail :: "oserr \<Rightarrow> attempt" where
  "retry_or_fail e = (if e = NotExist then AttemptRetry e else AttemptFail e)"

definition win_attempt :: "faults \<Rightarrow> prefix4 list \<Rightarrow> string \<Rightarrow> os \<Rightarrow> attempt \<times> os" where
  "win_attempt flt ps ipStr w =
     (case win_add_routes flt ps w of
        (Some e, w1) \<Rightarrow> (retry_or_fail e, w1)
      | (None, w1) \<Rightarrow> (case win_set_ip flt ipStr w1 of
          (Some e, w2) \<Rightarrow> (retry_or_fail e, w2)
        | (None, w2) \<Rightarrow> (case run_call flt [''IPInterface''] w2 of
            (Some e, w3) \<Rightarrow> (retry_or_fail e, w3)
          | (None, w3) \<Rightarrow> (case run_call flt [''ipif.Set''] w3 of
              (Some e, w4) \<Rightarrow> (retry_or_fail e, w4)
            | (None, w4) \<Rightarrow> (AttemptDone, w4)))))"

definition winMaxAttempts :: nat where "winMaxAttempts = 15"

fun win_retry :: "nat \<Rightarrow> oserr \<Rightarrow> faults \<Rightarrow> prefix4 list \<Rightarrow> string \<Rightarrow> os \<Rightarrow> tun_error option \<times> os" where
  "win_retry 0 configErr flt ps ipStr w = (Some (TunConfigure configErr), w)"
| "win_retry (Suc n) configErr flt ps ipStr w = (case win_attempt flt ps ipStr w of
     (AttemptDone, w') \<Rightarrow> (None, w')
   | (AttemptFail e, w') \<Rightarrow> (Some (TunConfigure e), w')
   | (AttemptRetry e, w') \<Rightarrow> win_retry n e flt ps ipStr w')"

text \<open>\<open>native\<close> is the type assertion on the device, \<open>parses\<close> is \<open>netip.ParseAddr\<close> (which also
  takes IPv6). Prefixes that do not parse are skipped.\<close>

definition configureTUN_windows :: "faults \<Rightarrow> bool \<Rightarrow> (string \<Rightarrow> bool) \<Rightarrow> string \<Rightarrow> networkProfile \<Rightarrow> os
    \<Rightarrow> tun_error option \<times> os" where
  "configureTUN_windows flt native parses ipStr np w =
     (if \<not> native then (Some TunNative, w)
      else if \<not> parses ipStr then (Some TunParseIP, w)
      else win_retry winMaxAttempts OtherErr flt
        (List.map_filter parsePrefix4 (networkProfileRouteCIDRs np)) ipStr w)"

definition setWindowsDNS :: "faults \<Rightarrow> networkProfile \<Rightarrow> os \<Rightarrow> tun_error option \<times> os" where
  "setWindowsDNS flt np w =
     (if list_ex (\<lambda>raw. parseAddr4 raw = None) (Servers (DNS np)) then (Some TunDNS, w)
      else (case run_call flt (''SetDNS'' # Servers (DNS np)) w of
        (Some _, w') \<Rightarrow> (Some TunDNS, w') | (None, w') \<Rightarrow> (None, w')))"

definition configureTunnelDNS_windows :: "faults \<Rightarrow> bool \<Rightarrow> networkProfile \<Rightarrow> os \<Rightarrow> tun_error option \<times> os" where
  "configureTunnelDNS_windows flt native np w =
     (if \<not> native then (Some TunNative, w) else setWindowsDNS flt np w)"

definition win_del :: "faults \<Rightarrow> string \<Rightarrow> os \<Rightarrow> opres \<times> os" where
  "win_del flt raw w = (case parsePrefix4 raw of None \<Rightarrow> (OpPanic raw, w)
     | Some p \<Rightarrow> (case run_call flt [''DeleteRoute'', prefix_string p] w of
         (Some e, w') \<Rightarrow> (if e = NotExist then OpOk else OpErr e, w')
       | (None, w') \<Rightarrow> (OpOk, w')))"

definition win_add :: "faults \<Rightarrow> string \<Rightarrow> os \<Rightarrow> opres \<times> os" where
  "win_add flt raw w = (case parsePrefix4 raw of None \<Rightarrow> (OpPanic raw, w)
     | Some p \<Rightarrow> (case run_call flt [''AddRoute'', prefix_string p] w of
         (Some e, w') \<Rightarrow> (if e = Exist then OpOk else OpErr e, w')
       | (None, w') \<Rightarrow> (OpOk, w')))"

definition reconcileTUN_windows :: "faults \<Rightarrow> bool \<Rightarrow> string list \<Rightarrow> string list
    \<Rightarrow> networkProfile \<Rightarrow> networkProfile \<Rightarrow> os \<Rightarrow> tun_error option \<times> os" where
  "reconcileTUN_windows flt native porder norder previous nxt w =
     (if \<not> native then (Some TunNative, w)
      else reconcile_with (win_add flt) (win_del flt) (setWindowsDNS flt nxt)
        porder norder (networkRouteSet previous) (networkRouteSet nxt) w)"

definition teardownTUN_windows :: "faults \<Rightarrow> bool \<Rightarrow> os \<Rightarrow> os" where
  "teardownTUN_windows flt native w =
     (if \<not> native then w
      else run_cmds flt [[''FlushDNS''], [''FlushRoutes''], [''FlushIPAddresses'']] w)"

section \<open>Other systems\<close>

definition configureTUN_other :: "os \<Rightarrow> tun_error option \<times> os" where
  "configureTUN_other w = (Some TunUnsupported, w)"

definition reconcileTUN_other :: "os \<Rightarrow> tun_error option \<times> os" where
  "reconcileTUN_other w = (None, w)"

definition configureTunnelDNS_other :: "os \<Rightarrow> tun_error option \<times> os" where
  "configureTunnelDNS_other w = (None, w)"

definition teardownTUN_other :: "os \<Rightarrow> os" where
  "teardownTUN_other w = w"

section \<open>The route interface the two platforms share\<close>

text \<open>
  \<open>routes\<close> are the routes in force, \<open>stuck\<close> those whose withdrawal has failed at some
  point. An operation that fails changes nothing; a failed withdrawal is remembered.
\<close>

locale route_api =
  fixes add del :: "string \<Rightarrow> 's \<Rightarrow> opres \<times> 's"
    and dns :: "'s \<Rightarrow> tun_error option \<times> 's"
    and routes stuck :: "'s \<Rightarrow> string set"
  assumes add_ok: "add r s = (OpOk, s') \<Longrightarrow> routes s' = insert r (routes s)"
    and add_err: "add r s = (OpErr e, s') \<Longrightarrow> routes s' = routes s"
    and add_panic: "add r s = (OpPanic m, s') \<Longrightarrow> s' = s"
    and del_ok: "del r s = (OpOk, s') \<Longrightarrow> routes s' = routes s - {r}"
    and del_err: "del r s = (OpErr e, s') \<Longrightarrow> routes s' = routes s \<and> r \<in> stuck s'"
    and del_panic: "del r s = (OpPanic m, s') \<Longrightarrow> s' = s"
    and add_stuck: "stuck s \<subseteq> stuck (snd (add r s))"
    and del_stuck: "stuck s \<subseteq> stuck (snd (del r s))"
    and dns_routes: "routes (snd (dns s)) = routes s"
    and dns_stuck: "stuck s \<subseteq> stuck (snd (dns s))"
begin

lemma withdraw_stuck: "stuck s \<subseteq> stuck (snd (withdraw del keep rs s))"
proof (induction rs arbitrary: s)
  case (Cons r rs)
  then show ?case using del_stuck [of s r]
    by (auto split: prod.splits opres.splits) blast+
qed simp

lemma withdraw_routes:
  "withdraw del keep rs s = (x, s') \<Longrightarrow> routes s' \<subseteq> routes s \<and> routes s - (set rs - keep) \<subseteq> routes s'
     \<and> (x = None \<longrightarrow> routes s' \<inter> (set rs - keep) \<subseteq> stuck s')"
proof (induction rs arbitrary: s)
  case (Cons r rs)
  show ?case
  proof (cases "r \<in> keep")
    case True
    with Cons show ?thesis by auto
  next
    case False
    obtain y s1 where y: "del r s = (y, s1)" by (cases "del r s")
    show ?thesis
    proof (cases y)
      case OpOk
      with y False Cons.prems have w: "withdraw del keep rs s1 = (x, s')" by simp
      have "routes s1 = routes s - {r}" using del_ok y OpOk by simp
      with Cons.IH [OF w] False show ?thesis by auto
    next
      case (OpErr e)
      with y False Cons.prems have w: "withdraw del keep rs s1 = (x, s')" by simp
      have "stuck s1 \<subseteq> stuck s'" using withdraw_stuck [of s1 keep rs] w by simp
      with Cons.IH [OF w] del_err [of r s e s1] y OpErr show ?thesis by auto
    next
      case (OpPanic m)
      with y False Cons.prems del_panic [of r s m s1] show ?thesis by auto
    qed
  qed
qed simp

lemma install_stuck: "stuck s \<subseteq> stuck (snd (install_routes add present rs s))"
proof (induction rs arbitrary: s)
  case (Cons r rs)
  then show ?case using add_stuck [of s r]
    by (auto split: prod.splits opres.splits) blast+
qed simp

lemma install_routes_result:
  "install_routes add present rs s = (x, s') \<Longrightarrow> routes s \<subseteq> routes s'
     \<and> routes s' \<subseteq> routes s \<union> (set rs - present)
     \<and> (x = None \<longrightarrow> routes s' = routes s \<union> (set rs - present))"
proof (induction rs arbitrary: s)
  case (Cons r rs)
  show ?case
  proof (cases "r \<in> present")
    case True
    with Cons show ?thesis by auto
  next
    case False
    obtain y s1 where y: "add r s = (y, s1)" by (cases "add r s")
    show ?thesis
    proof (cases y)
      case OpOk
      with y False Cons.prems have w: "install_routes add present rs s1 = (x, s')" by simp
      from Cons.IH [OF w] add_ok y OpOk False show ?thesis by auto
    next
      case (OpErr e)
      with y False Cons.prems add_err [of r s e s1] show ?thesis by auto
    next
      case (OpPanic m)
      with y False Cons.prems add_panic [of r s m s1] show ?thesis by auto
    qed
  qed
qed simp

text \<open>Whatever fails, nothing outside the new profile survives but stuck withdrawals; a
  reconcile that succeeds has the whole new profile in force.\<close>

lemma reconcile_result:
  assumes r: "reconcile_with add del dns porder norder P N s = (x, s')"
    and P: "routes s \<subseteq> P" "set porder = P" and N: "set norder = N"
    and nopanic: "\<forall>m. x \<noteq> Some (TunPanic m)"
  shows "routes s' \<subseteq> N \<union> stuck s' \<and> (x = None \<and> P \<inter> N \<subseteq> routes s \<longrightarrow> N \<subseteq> routes s')"
proof -
  obtain y s1 where w: "withdraw del N porder s = (y, s1)" by (cases "withdraw del N porder s")
  have y: "y = None"
  proof (cases y)
    case (Some e)
    with withdraw_error [OF w] obtain m where "y = Some (TunPanic m)" by auto
    with r w nopanic show ?thesis by (auto simp: reconcile_with_def)
  qed
  obtain z s2 where i: "install_routes add P norder s1 = (z, s2)" by (cases "install_routes add P norder s1")
  have s': "routes s' = routes s2" "stuck s2 \<subseteq> stuck s'" "x = None \<longrightarrow> z = None"
    using r w y i dns_routes [of s2] dns_stuck [of s2]
    by (cases z; simp add: reconcile_with_def)+
  have st: "stuck s1 \<subseteq> stuck s2" using install_stuck [of s1 P norder] i by simp
  have old: "routes s1 \<subseteq> N \<union> stuck s1"
    using withdraw_routes [OF w] y P by auto
  have kept: "routes s \<inter> N \<subseteq> routes s1"
    using withdraw_routes [OF w] by auto
  note I = install_routes_result [OF i]
  have "routes s2 \<subseteq> N \<union> stuck s2" using I old st N by auto
  moreover have "z = None \<and> P \<inter> N \<subseteq> routes s \<longrightarrow> N \<subseteq> routes s2" using I kept N by auto
  ultimately show ?thesis using s' by auto
qed

end

section \<open>The ledgers: routes as the log of calls gives them\<close>

text \<open>
  \<open>linux_ledger\<close> and \<open>win_ledger\<close> replay a log of calls on a set of routes, as far as the
  client can know it: a call that reported success took effect, one that reported an error
  did not, and the two Windows errors the code treats as success name a route that is
  there already, or gone already.
\<close>

definition route_cmd :: "string \<Rightarrow> cmd \<Rightarrow> (string \<times> string) option" where
  "route_cmd tun c = (case c of [_, _, v, x, _, _] \<Rightarrow> if c = ip_route v tun x then Some (v, x) else None
     | _ \<Rightarrow> None)"

fun linux_ledger :: "string \<Rightarrow> string set \<Rightarrow> cmd \<times> oserr option \<Rightarrow> string set" where
  "linux_ledger tun R (c, Some e) = R"
| "linux_ledger tun R (c, None) = (case route_cmd tun c of
     Some (v, x) \<Rightarrow> if v = ''replace'' then insert x R else if v = ''del'' then R - {x} else R
   | None \<Rightarrow> R)"

definition linux_failed :: "string \<Rightarrow> (cmd \<times> oserr option) list \<Rightarrow> string set" where
  "linux_failed tun log = {x. \<exists>e. (ip_route ''del'' tun x, Some e) \<in> set log}"

fun win_ledger :: "string set \<Rightarrow> cmd \<times> oserr option \<Rightarrow> string set" where
  "win_ledger R ([v, x], r) =
     (if v = ''AddRoute'' \<and> (r = None \<or> r = Some Exist) then insert x R
      else if v = ''DeleteRoute'' \<and> (r = None \<or> r = Some NotExist) then R - {x} else R)"
| "win_ledger R (c, r) = R"

definition win_failed :: "(cmd \<times> oserr option) list \<Rightarrow> string set" where
  "win_failed log = {x. \<exists>e. ([''DeleteRoute'', x], Some e) \<in> set log \<and> e \<noteq> NotExist}"

lemma route_cmd_ip_route [simp]: "route_cmd tun (ip_route v tun x) = Some (v, x)"
  by (simp add: route_cmd_def ip_route_def)

lemma route_cmd_resolvectl [simp]: "route_cmd tun (''resolvectl'' # args) = None"
  by (auto simp: route_cmd_def ip_route_def split: list.splits)

lemma linux_ledger_simps [simp]:
  "linux_ledger tun R (ip_route ''replace'' tun x, None) = insert x R"
  "linux_ledger tun R (ip_route ''del'' tun x, None) = R - {x}"
  "linux_ledger tun R (''resolvectl'' # args, r) = R"
  by (simp_all, cases r, simp_all)

lemma linux_failed_append [simp]:
  "linux_failed tun (xs @ ys) = linux_failed tun xs \<union> linux_failed tun ys"
  by (auto simp: linux_failed_def)

lemma win_failed_append [simp]: "win_failed (xs @ ys) = win_failed xs \<union> win_failed ys"
  by (auto simp: win_failed_def)

lemma cmd_op_log: "cmd_op flt c w = (x, w') \<Longrightarrow>
   (\<exists>e. x = OpErr e \<and> os_cmds w' = os_cmds w @ [(c, Some e)]) \<or> (x = OpOk \<and> os_cmds w' = os_cmds w @ [(c, None)])"
  by (auto simp: cmd_op_def run_call_def Let_def split: option.splits)

lemma cmd_op_keeps: "set (os_cmds w) \<subseteq> set (os_cmds (snd (cmd_op flt c w)))"
  using cmd_op_log [of flt c w] by (cases "cmd_op flt c w") auto

lemma os_Nop_cmds: "os_Nop flt w = (r, w') \<Longrightarrow> os_cmds w' = os_cmds w"
  by (auto simp: os_call_defs split: option.splits)

lemma run_cmd_log: "run_cmd flt c w = (ok, w') \<Longrightarrow> \<exists>r. os_cmds w' = os_cmds w @ [(c, r)] \<and> (ok \<longleftrightarrow> r = None)"
  by (auto simp: run_cmd_def run_call_def Let_def split: option.splits)

lemma run_call_log: "run_call flt c w = (r, w') \<Longrightarrow> os_cmds w' = os_cmds w @ [(c, r)]"
  by (auto simp: run_call_def Let_def)

text \<open>The DNS step only runs \<open>resolvectl\<close>.\<close>

definition resolvectl_log :: "(cmd \<times> oserr option) list \<Rightarrow> bool" where
  "resolvectl_log l \<longleftrightarrow> (\<forall>(c, r) \<in> set l. hd c = ''resolvectl'' \<and> c \<noteq> [])"

lemma configureLinuxDNS_log:
  "\<exists>l. os_cmds (snd (configureLinuxDNS flt tun np w)) = os_cmds w @ l \<and> resolvectl_log l"
  unfolding configureLinuxDNS_def
  by (auto simp: resolvectl_log_def split: prod.splits sum.splits bool.splits
      dest!: os_Nop_cmds run_cmd_log)

lemma resolvectl_ledger: "resolvectl_log l \<Longrightarrow> foldl (linux_ledger tun) R l = R \<and> linux_failed tun l = {}"
proof (induction l arbitrary: R)
  case (Cons cr l)
  obtain c r where cr: "cr = (c, r)" by (cases cr)
  with Cons.prems obtain args where "c = ''resolvectl'' # args"
    by (cases c) (auto simp: resolvectl_log_def)
  with Cons cr show ?case by (auto simp: resolvectl_log_def linux_failed_def ip_route_def)
qed (simp add: linux_failed_def)

interpretation lr: route_api "linux_add flt tun" "linux_del flt tun" "configureLinuxDNS flt tun np"
  "\<lambda>w. foldl (linux_ledger tun) R (os_cmds w)" "\<lambda>w. linux_failed tun (os_cmds w)"
  for flt tun np R
proof
  fix w
  obtain l where "os_cmds (snd (configureLinuxDNS flt tun np w)) = os_cmds w @ l" "resolvectl_log l"
    using configureLinuxDNS_log by blast
  then show "foldl (linux_ledger tun) R (os_cmds (snd (configureLinuxDNS flt tun np w))) =
      foldl (linux_ledger tun) R (os_cmds w)"
    and "linux_failed tun (os_cmds w) \<subseteq> linux_failed tun (os_cmds (snd (configureLinuxDNS flt tun np w)))"
    by (simp_all add: resolvectl_ledger)
qed (auto simp: linux_add_def linux_del_def linux_failed_def dest!: cmd_op_log
    intro: subsetD [OF cmd_op_keeps])

text \<open>Windows: a route text the parser accepts is its own canonical print.\<close>

lemma win_parse_self: "parsePrefix4 raw = Some p \<Longrightarrow> prefix_string p = raw"
  by (simp add: parsePrefix4_iff)

lemma win_add_log: "win_add flt raw w = (x, w') \<Longrightarrow>
   (\<exists>m. x = OpPanic m \<and> w' = w) \<or>
   (\<exists>r. os_cmds w' = os_cmds w @ [([''AddRoute'', raw], r)] \<and>
      (if r = None \<or> r = Some Exist then x = OpOk else \<exists>e. x = OpErr e \<and> r = Some e))"
  by (auto simp: win_add_def win_parse_self split: option.splits prod.splits if_splits dest!: run_call_log)

lemma win_del_log: "win_del flt raw w = (x, w') \<Longrightarrow>
   (\<exists>m. x = OpPanic m \<and> w' = w) \<or>
   (\<exists>r. os_cmds w' = os_cmds w @ [([''DeleteRoute'', raw], r)] \<and>
      (if r = None \<or> r = Some NotExist then x = OpOk else \<exists>e. x = OpErr e \<and> r = Some e))"
  by (auto simp: win_del_def win_parse_self split: option.splits prod.splits if_splits dest!: run_call_log)

lemma setWindowsDNS_log:
  "os_cmds (snd (setWindowsDNS flt np w)) = os_cmds w \<or>
   (\<exists>r. os_cmds (snd (setWindowsDNS flt np w)) = os_cmds w @ [(''SetDNS'' # Servers (DNS np), r)])"
  by (auto simp: setWindowsDNS_def split: prod.splits option.splits dest!: run_call_log)

lemma win_ledger_SetDNS [simp]: "win_ledger R (''SetDNS'' # args, r) = R"
  by (cases args; cases "tl args") auto

lemma win_keeps:
  "set (os_cmds w) \<subseteq> set (os_cmds (snd (win_add flt r w)))"
  "set (os_cmds w) \<subseteq> set (os_cmds (snd (win_del flt r w)))"
  using win_add_log [of flt r w] win_del_log [of flt r w]
  by (cases "win_add flt r w"; cases "win_del flt r w"; auto)+

lemma win_failed_mono: "set xs \<subseteq> set ys \<Longrightarrow> win_failed xs \<subseteq> win_failed ys"
  by (auto simp: win_failed_def)

interpretation wr: route_api "win_add flt" "win_del flt" "setWindowsDNS flt np"
  "\<lambda>w. foldl win_ledger R (os_cmds w)" "\<lambda>w. win_failed (os_cmds w)"
  for flt np R
proof
  fix w
  show "foldl win_ledger R (os_cmds (snd (setWindowsDNS flt np w))) = foldl win_ledger R (os_cmds w)"
    and "win_failed (os_cmds w) \<subseteq> win_failed (os_cmds (snd (setWindowsDNS flt np w)))"
    using setWindowsDNS_log [of flt np w] by auto
qed (auto simp: win_keeps win_failed_mono win_failed_def split: if_splits dest!: win_add_log win_del_log
    intro: subsetD [OF win_keeps(1)] subsetD [OF win_keeps(2)])

section \<open>A reconcile narrows access\<close>

lemma withdraw_no_panic:
  "withdraw del keep rs s = (x, s') \<Longrightarrow> \<forall>r \<in> set rs. \<forall>s m. fst (del r s) \<noteq> OpPanic m \<Longrightarrow> x = None"
proof (induction rs arbitrary: s)
  case (Cons r rs)
  obtain y s1 where y: "del r s = (y, s1)" by (cases "del r s")
  with Cons.prems(2) have "\<forall>m. y \<noteq> OpPanic m" by (metis fst_conv list.set_intros(1))
  with Cons y show ?case by (cases y) (auto split: if_splits)
qed simp

lemma install_no_panic:
  "install_routes add present rs s = (x, s') \<Longrightarrow> \<forall>r \<in> set rs. \<forall>s m. fst (add r s) \<noteq> OpPanic m \<Longrightarrow>
   x \<noteq> Some (TunPanic m)"
proof (induction rs arbitrary: s)
  case (Cons r rs)
  obtain y s1 where y: "add r s = (y, s1)" by (cases "add r s")
  with Cons.prems(2) have "\<forall>m. y \<noteq> OpPanic m" by (metis fst_conv list.set_intros(1))
  with Cons y show ?case by (cases y) (auto split: if_splits)
qed simp

lemma reconcile_no_panic:
  assumes "reconcile_with add del dns po no P N s = (x, s')"
    and "\<forall>r \<in> set po. \<forall>s m. fst (del r s) \<noteq> OpPanic m"
    and "\<forall>r \<in> set no. \<forall>s m. fst (add r s) \<noteq> OpPanic m"
    and "\<forall>s m. fst (dns s) \<noteq> Some (TunPanic m)"
  shows "x \<noteq> Some (TunPanic m)"
proof -
  obtain y s1 where w: "withdraw del N po s = (y, s1)" by (cases "withdraw del N po s")
  obtain z s2 where i: "install_routes add P no s1 = (z, s2)" by (cases "install_routes add P no s1")
  have "y = None" using withdraw_no_panic [OF w assms(2)] .
  moreover have "z \<noteq> Some (TunPanic m)" using install_no_panic [OF i assms(3)] .
  ultimately show ?thesis using assms(1,4) w i
    by (cases z) (auto simp: reconcile_with_def, metis fst_conv)
qed

lemma cmd_op_no_panic: "fst (cmd_op flt c w) \<noteq> OpPanic m"
  by (auto simp: cmd_op_def split: prod.splits option.splits)

lemma configureLinuxDNS_no_panic: "fst (configureLinuxDNS flt tun np w) \<noteq> Some (TunPanic m)"
  by (auto simp: configureLinuxDNS_def split: prod.splits sum.splits bool.splits)

lemma setWindowsDNS_no_panic: "fst (setWindowsDNS flt np w) \<noteq> Some (TunPanic m)"
  by (auto simp: setWindowsDNS_def split: prod.splits option.splits)

lemma win_op_no_panic:
  assumes "parsePrefix4 r = Some p"
  shows "fst (win_add flt r w) \<noteq> OpPanic m" "fst (win_del flt r w) \<noteq> OpPanic m"
  using assms by (auto simp: win_add_def win_del_def split: prod.splits option.splits)



section \<open>Configuring the interface\<close>

lemma run_call_tick: "run_call flt c w = (r, w') \<Longrightarrow> os_tick w' = Suc (os_tick w)"
  by (auto simp: run_call_def Let_def)

lemma win_add_routes_ticks:
  "win_add_routes flt ps w = (r, w') \<Longrightarrow> os_tick w' \<le> os_tick w + length ps"
proof (induction ps arbitrary: w)
  case (Cons p ps)
  obtain y w1 where y: "run_call flt [''AddRoute'', prefix_string p] w = (y, w1)" by (cases "run_call flt [''AddRoute'', prefix_string p] w")
  with run_call_tick have "os_tick w1 = Suc (os_tick w)" by blast
  with Cons y show ?case by (force split: option.splits if_splits)
qed simp

lemma win_set_ip_ticks: "win_set_ip flt ip w = (r, w') \<Longrightarrow> os_tick w' \<le> os_tick w + 3"
  by (auto simp: win_set_ip_def Let_def split: prod.splits option.splits if_splits dest!: run_call_tick)

lemma win_attempt_ticks: "win_attempt flt ps ip w = (r, w') \<Longrightarrow> os_tick w' \<le> os_tick w + (length ps + 5)"
  by (auto simp: win_attempt_def split: prod.splits option.splits
      dest!: run_call_tick win_add_routes_ticks win_set_ip_ticks)

lemma win_retry_ticks:
  "win_retry n e flt ps ip w = (r, w') \<Longrightarrow> os_tick w' \<le> os_tick w + n * (length ps + 5)"
proof (induction n arbitrary: e w)
  case (Suc n)
  obtain a w1 where a: "win_attempt flt ps ip w = (a, w1)" by (cases "win_attempt flt ps ip w")
  note t = win_attempt_ticks [OF a]
  show ?case
  proof (cases a)
    case (AttemptRetry e')
    with Suc.prems a have "win_retry n e' flt ps ip w1 = (r, w')" by simp
    from Suc.IH [OF this] t show ?thesis by simp
  qed (use Suc.prems a t in auto)
qed simp

lemma map_filter_members: "set (List.map_filter f xs) = {y. \<exists>x \<in> set xs. f x = Some y}"
  by (induction xs) (auto simp: map_filter_simps split: option.splits)

lemma map_filter_length: "length (List.map_filter f xs) \<le> length xs"
  by (induction xs) (auto simp: map_filter_simps split: option.splits)

lemma win_add_routes_done:
  "win_add_routes flt ps w = (None, w') \<Longrightarrow>
   foldl win_ledger R (os_cmds w') = foldl win_ledger R (os_cmds w) \<union> prefix_string ` set ps"
proof (induction ps arbitrary: w)
  case (Cons p ps)
  obtain y w1 where y: "run_call flt [''AddRoute'', prefix_string p] w = (y, w1)" by (cases "run_call flt [''AddRoute'', prefix_string p] w")
  with Cons.prems have "y = None \<or> y = Some Exist" "win_add_routes flt ps w1 = (None, w')"
    by (auto split: option.splits if_splits)
  with Cons.IH [of w1] run_call_log [OF y] show ?case by auto
qed simp

lemma win_ledger_single [simp]: "win_ledger R ([v], r) = R"
  by simp

lemma win_set_ip_ledger:
  "win_set_ip flt ip w = (r, w') \<Longrightarrow> foldl win_ledger R (os_cmds w') = foldl win_ledger R (os_cmds w)"
  by (auto simp: win_set_ip_def Let_def split: prod.splits option.splits if_splits dest!: run_call_log)

lemma win_attempt_done:
  "win_attempt flt ps ip w = (AttemptDone, w') \<Longrightarrow>
   foldl win_ledger R (os_cmds w') \<supseteq> prefix_string ` set ps"
  by (auto simp: win_attempt_def retry_or_fail_def split: prod.splits option.splits if_splits
      dest!: run_call_log win_add_routes_done [where R = R] win_set_ip_ledger [where R = R])

lemma win_retry_done:
  "win_retry n e flt ps ip w = (None, w') \<Longrightarrow> prefix_string ` set ps \<subseteq> foldl win_ledger R (os_cmds w')"
proof (induction n arbitrary: e w)
  case (Suc n)
  obtain a w1 where "win_attempt flt ps ip w = (a, w1)" by (cases "win_attempt flt ps ip w")
  with Suc win_attempt_done [of flt ps ip w w1 R] show ?case by (cases a) auto
qed simp

lemma parsed_CIDRs:
  assumes "authorised_profile np"
  shows "prefix_string ` set (List.map_filter parsePrefix4 (networkProfileRouteCIDRs np)) = networkRouteSet np"
proof -
  let ?S = "set (networkProfileRouteCIDRs np)"
  have "prefix_string ` set (List.map_filter parsePrefix4 (networkProfileRouteCIDRs np)) = ?S"
  proof (intro equalityI subsetI)
    fix s assume "s \<in> prefix_string ` set (List.map_filter parsePrefix4 (networkProfileRouteCIDRs np))"
    then show "s \<in> ?S" by (auto simp: map_filter_members dest: win_parse_self)
  next
    fix s assume s: "s \<in> ?S"
    with authorised_CIDRs(4) [OF assms, of s] obtain p where "parsePrefix4 s = Some p"
      by (auto simp: networkRouteSet_def)
    with s win_parse_self [OF this]
    show "s \<in> prefix_string ` set (List.map_filter parsePrefix4 (networkProfileRouteCIDRs np))"
      by (auto simp: map_filter_members intro!: image_eqI [of s prefix_string p])
  qed
  then show ?thesis by (simp add: networkRouteSet_def)
qed

text \<open>
  (C25) \<open>configureTUN\<close> on Windows always ends: whatever the library answers it makes at most
  15 times (routes + 5) calls, and for a validated profile it returns no error only once
  every route of the profile is in force.
\<close>

theorem configureTUN_windows_bounded:
  assumes "validateNetworkProfile (Some np) = None"
    and "configureTUN_windows flt native parses ip np w = (x, w')"
  shows "os_tick w' \<le> os_tick w + 15 * (length (Routes np) + 5)
    \<and> (x = None \<longrightarrow> networkRouteSet np \<subseteq> foldl win_ledger R (os_cmds w'))"
proof -
  let ?ps = "List.map_filter parsePrefix4 (networkProfileRouteCIDRs np)"
  have len: "length ?ps \<le> length (Routes np)"
    using map_filter_length [of parsePrefix4 "networkProfileRouteCIDRs np"]
    by (simp add: networkProfileRouteCIDRs_def)
  have ps: "prefix_string ` set ?ps = networkRouteSet np"
    using assms(1) validate_authorised parsed_CIDRs by blast
  show ?thesis
  proof (cases "native \<and> parses ip")
    case True
    with assms(2) have r: "win_retry 15 OtherErr flt ?ps ip w = (x, w')"
      by (simp add: configureTUN_windows_def winMaxAttempts_def)
    with win_retry_ticks [OF r] len win_retry_done [of 15 OtherErr flt ?ps ip w w' R] ps
    show ?thesis by auto
  qed (use assms(2) in \<open>auto simp: configureTUN_windows_def split: if_splits\<close>)
qed

lemma install_linux_panic: "install_routes (linux_add flt tun) S rs w = (x, w') \<Longrightarrow> x \<noteq> Some (TunPanic m)"
  by (erule install_no_panic) (simp add: linux_add_def cmd_op_no_panic)

text \<open>
  The Linux DNS setup is all or nothing: if \<open>configureLinuxDNS\<close> returns an error, the
  link's resolver was never changed, or reverting it was the last thing done.
\<close>

lemma configureLinuxDNS_reverts:
  "case configureLinuxDNS flt tun np w of
     (None, w') \<Rightarrow> os_cmds w' = os_cmds w @
        [(''resolvectl'' # ''dns'' # tun # Servers (DNS np), None),
         ([''resolvectl'', ''domain'', tun, if RouteAll (DNS np) then ''~.'' else []], None),
         ([''resolvectl'', ''default-route'', tun, ''yes''], None)]
   | (Some e, w') \<Rightarrow>
        \<not> (\<exists>l. os_cmds w' = os_cmds w @ l \<and> (''resolvectl'' # ''dns'' # tun # Servers (DNS np), None) \<in> set l)
      \<or> (\<exists>r. last (os_cmds w') = ([''resolvectl'', ''revert'', tun], r))"
  by (auto simp: configureLinuxDNS_def split: prod.splits sum.splits bool.splits
      dest!: os_Nop_cmds run_cmd_log)

section \<open>A concrete reconcile: a TeamServer is withdrawn, nothing fails\<close>

definition sample_next :: networkProfile where
  "sample_next = sample_profile\<lparr>Routes := [Routes sample_profile ! 0, Routes sample_profile ! 2]\<rparr>"

definition sample_os :: os where
  "sample_os = \<lparr>os_files = (\<lambda>_. None), os_dirs = (\<lambda>_. None), os_cmds = [], os_tick = 0\<rparr>"

lemma sample_sets:
  "networkRouteSet sample_profile = {''10.128.42.0/24'', ''10.130.50.31/32'', ''10.130.50.254/32''}"
  "networkRouteSet sample_next = {''10.128.42.0/24'', ''10.130.50.254/32''}"
  by (auto simp: networkRouteSet_def networkProfileRouteCIDRs_def sample_next_def sample_profile_def)

lemma sample_dns:
  "Servers (DNS sample_next) = [arenaResolverIP]" "RouteAll (DNS sample_next)"
  by (simp_all add: sample_next_def sample_profile_def)

lemma sample_next_authorised: "authorised_profile sample_next"
  by (simp add: authorised_profile_def sample_next_def sample_profile_def approved_scenario_sample
      approved_resolver_sample)

lemma sample_teamserver_parse:
  "parsePrefix4 ''10.130.50.31/32'' = Some \<lparr>pfx_addr = ip4 10 130 50 31, pfx_bits = 32\<rparr>"
  by (simp only: parsePrefix4_iff sample_text(2)) simp



theorem configureTUN_windows_bounded_witness:
  "validateNetworkProfile (Some sample_profile) = None \<and>
   os_tick (snd (configureTUN_windows (\<lambda>_. Some (Fault NotExist 0)) True (\<lambda>_. True) ''10.201.0.5''
     sample_profile sample_os)) \<le> 120"
  using configureTUN_windows_bounded [of sample_profile "\<lambda>_. Some (Fault NotExist 0)" True "\<lambda>_. True"
      "''10.201.0.5''" sample_os, OF _ prod.collapse [symmetric]] sample_authorised
  by (simp add: validate_authorised sample_os_def) (simp add: sample_profile_def)

end
