(* ===== verification/Kill_Switch.thy ===== *)
theory Kill_Switch
  imports Tun_Config
begin

text \<open>
  \<open>client/killswitch_{linux,windows,other}.go\<close>: the firewall rules armed while the tunnel is
  up, the marker that lets the next start recover from a crash, and their removal. The
  firewall itself (\<open>iptables\<close>, PowerShell) is outside: every command is a logged call whose
  outcome the fault plan decides, and what a firewall does with the log is a parameter
  with named laws.
\<close>

section \<open>The marker\<close>

definition armedMarkerPath :: "path_lib \<Rightarrow> string option \<Rightarrow> string \<Rightarrow> path" where
  "armedMarkerPath pl cacheDir tempDir =
     (let base = (case cacheDir of None \<Rightarrow> tempDir | Some d \<Rightarrow> if d = [] then tempDir else d)
      in pl_join pl [base, ''arena-tunnel'', ''killswitch.armed''])"

definition mode_0755 :: nat where "mode_0755 = 7 * 64 + 5 * 8 + 5"
definition mode_0644 :: nat where "mode_0644 = 6 * 64 + 4 * 8 + 4"

definition drop_marker :: "faults \<Rightarrow> path_lib \<Rightarrow> path \<Rightarrow> os \<Rightarrow> os" where
  "drop_marker flt pl marker w = snd (os_WriteFile flt marker ''armed'' mode_0644
     (snd (os_MkdirAll flt (pl_dir pl marker) mode_0755 w)))"

section \<open>Linux\<close>

datatype ks_error =
  KsFlush | KsAppend "string list" | KsInsert | KsAllow string | KsFlip | KsVerify | KsNotBlocked | KsUnsupported

definition killSwitchChain :: string where "killSwitchChain = ''ARENA_KILLSWITCH''"

definition iptables :: "string list \<Rightarrow> cmd" where
  "iptables args = ''iptables'' # args"

definition ks_rules :: "string \<Rightarrow> string list list" where
  "ks_rules tun = [[''-d'', ''10.128.0.0/9'', ''!'', ''-o'', tun, ''-j'', ''DROP'']]"

fun append_rules :: "faults \<Rightarrow> string list list \<Rightarrow> os \<Rightarrow> ks_error option \<times> os" where
  "append_rules flt [] w = (None, w)"
| "append_rules flt (r # rs) w = (case run_cmd flt (iptables ([''-A'', killSwitchChain] @ r)) w of
     (False, w') \<Rightarrow> (Some (KsAppend r), w')
   | (True, w') \<Rightarrow> append_rules flt rs w')"

definition installKillSwitch_linux :: "faults \<Rightarrow> path_lib \<Rightarrow> path \<Rightarrow> string \<Rightarrow> string list \<Rightarrow> os
    \<Rightarrow> ks_error option \<times> os" where
  "installKillSwitch_linux flt pl marker tun allowedHosts w =
     (let w1 = snd (run_cmd flt (iptables [''-N'', killSwitchChain]) w) in
      case run_cmd flt (iptables [''-F'', killSwitchChain]) w1 of
        (False, w2) \<Rightarrow> (Some KsFlush, w2)
      | (True, w2) \<Rightarrow> (case append_rules flt (ks_rules tun) w2 of
          (Some e, w3) \<Rightarrow> (Some e, w3)
        | (None, w3) \<Rightarrow>
          (let w4 = snd (run_cmd flt (iptables [''-D'', ''OUTPUT'', ''-j'', killSwitchChain]) w3) in
           case run_cmd flt (iptables [''-I'', ''OUTPUT'', ''1'', ''-j'', killSwitchChain]) w4 of
             (False, w5) \<Rightarrow> (Some KsInsert, w5)
           | (True, w5) \<Rightarrow> (None, drop_marker flt pl marker w5))))"

definition teardownKillSwitch_linux :: "faults \<Rightarrow> path \<Rightarrow> os \<Rightarrow> os" where
  "teardownKillSwitch_linux flt marker w = snd (os_Remove flt marker (run_cmds flt
     [iptables [''-D'', ''OUTPUT'', ''-j'', killSwitchChain], iptables [''-F'', killSwitchChain],
      iptables [''-X'', killSwitchChain]] w))"

text \<open>The two platform files define the recovery with the same text.\<close>

definition recoverKillSwitchIfLeftArmed :: "faults \<Rightarrow> (os \<Rightarrow> os) \<Rightarrow> path \<Rightarrow> os \<Rightarrow> os" where
  "recoverKillSwitchIfLeftArmed flt teardown marker w = (case os_Stat flt marker w of
     (Inl _, w1) \<Rightarrow> w1
   | (Inr _, w1) \<Rightarrow> snd (os_Remove flt marker (teardown w1)))"

section \<open>Windows\<close>

definition killSwitchGroup :: string where "killSwitchGroup = ''ArenaKillSwitch''"

definition powershell :: "string \<Rightarrow> cmd" where
  "powershell script = [''powershell'', ''-NoProfile'', ''-Command'', script]"

definition ps :: "faults \<Rightarrow> string \<Rightarrow> os \<Rightarrow> bool \<times> os" where
  "ps flt script w = run_cmd flt (powershell script) w"

definition removeRules :: string where
  \<open>removeRules = ''Remove-NetFirewallRule -Group "'' @ killSwitchGroup @ ''" -ErrorAction SilentlyContinue''\<close>

definition allow_script :: "string \<Rightarrow> string \<Rightarrow> string" where
  \<open>allow_script name scope = ''New-NetFirewallRule -DisplayName "ArenaKS-'' @ name @ ''" -Group "''
     @ killSwitchGroup @ ''" -Direction Outbound '' @ scope @ '' -Action Allow -Profile Any -Enabled True''\<close>

definition allowTunnel :: "string \<Rightarrow> string" where
  \<open>allowTunnel tun = allow_script ''AllowTunnel'' (''-InterfaceAlias "'' @ tun @ ''"'')\<close>

definition allowLoopback :: string where
  "allowLoopback = allow_script ''AllowLoopback'' ''-RemoteAddress 127.0.0.0/8''"

definition allowScenario :: string where
  "allowScenario = allow_script ''AllowScenario'' ''-RemoteAddress 10.128.0.0/9''"

definition allowLAN :: "nat \<Rightarrow> string \<Rightarrow> string" where
  "allowLAN i cidr = allow_script (''AllowLAN-'' @ dec i) (''-RemoteAddress '' @ cidr)"

definition allowArena :: "nat \<Rightarrow> string \<Rightarrow> string" where
  "allowArena i ip = allow_script (''AllowArena-'' @ dec i) (''-RemoteAddress '' @ ip)"

definition setOutbound :: "string \<Rightarrow> string" where
  "setOutbound act = ''Set-NetFirewallProfile -Profile Domain,Public,Private -DefaultOutboundAction '' @ act"

definition queryOutbound :: string where
  "queryOutbound = ''(Get-NetFirewallProfile -Name Public).DefaultOutboundAction''"

text \<open>The Go values \<open>net.IP\<close> and \<open>net.Addr\<close>, as far as the code distinguishes them.\<close>

datatype net_ip = IPv4 ipv4 | IPv6 string

datatype net_addr = IPNet4 prefix4 | OtherAddr

fun ip4s :: "net_ip list \<Rightarrow> string list" where
  "ip4s [] = []"
| "ip4s (IPv4 a # ips) = addr_string a # ip4s ips"
| "ip4s (IPv6 _ # ips) = ip4s ips"

fun resolve_hosts :: "(string \<Rightarrow> net_ip list option) \<Rightarrow> string list \<Rightarrow> string list" where
  "resolve_hosts lookup [] = []"
| "resolve_hosts lookup (h # hs) =
     (case lookup h of None \<Rightarrow> [] | Some ips \<Rightarrow> ip4s ips) @ resolve_hosts lookup hs"

fun net4s :: "net_addr list \<Rightarrow> string list" where
  "net4s [] = []"
| "net4s (IPNet4 p # as) = prefix_string p # net4s as"
| "net4s (OtherAddr # as) = net4s as"

fun detectLocalCIDRs_in :: "string \<Rightarrow> (string \<times> net_addr list option) list \<Rightarrow> string list" where
  "detectLocalCIDRs_in tun [] = []"
| "detectLocalCIDRs_in tun ((name, addrs) # ifs) =
     (if name = tun \<or> contains_str (to_lower name) ''loopback'' then detectLocalCIDRs_in tun ifs
      else (case addrs of None \<Rightarrow> detectLocalCIDRs_in tun ifs
        | Some as \<Rightarrow> net4s as @ detectLocalCIDRs_in tun ifs))"

definition detectLocalCIDRs :: "string \<Rightarrow> (string \<times> net_addr list option) list option \<Rightarrow> string list" where
  "detectLocalCIDRs tun ifaces = (case ifaces of None \<Rightarrow> [] | Some ifs \<Rightarrow> detectLocalCIDRs_in tun ifs)"

text \<open>The allow rules in the order they are added, numbered from 0 in each group.\<close>

definition allow_scripts :: "string \<Rightarrow> string list \<Rightarrow> string list \<Rightarrow> string list" where
  "allow_scripts tun lan arena = [allowTunnel tun, allowLoopback, allowScenario]
     @ map (\<lambda>(i, c). allowLAN i c) (enumerate 0 lan)
     @ map (\<lambda>(i, a). allowArena i a) (enumerate 0 arena)"

fun add_rules :: "faults \<Rightarrow> string list \<Rightarrow> os \<Rightarrow> ks_error option \<times> os" where
  "add_rules flt [] w = (None, w)"
| "add_rules flt (s # ss) w = (case ps flt s w of
     (False, w') \<Rightarrow> (Some (KsAllow s), w') | (True, w') \<Rightarrow> add_rules flt ss w')"

text \<open>\<open>answer\<close> is what the profile query prints.\<close>

definition installKillSwitch_windows :: "faults \<Rightarrow> path_lib \<Rightarrow> path \<Rightarrow> (string \<Rightarrow> net_ip list option)
    \<Rightarrow> (string \<times> net_addr list option) list option \<Rightarrow> string \<Rightarrow> string \<Rightarrow> string list \<Rightarrow> os
    \<Rightarrow> ks_error option \<times> os" where
  "installKillSwitch_windows flt pl marker lookup ifaces answer tun allowedHosts w =
     (let arenaIPs = resolve_hosts lookup allowedHosts;
          lanCIDRs = detectLocalCIDRs tun ifaces;
          w1 = snd (ps flt removeRules w) in
      case add_rules flt (allow_scripts tun lanCIDRs arenaIPs) w1 of
        (Some e, w2) \<Rightarrow> (Some e, w2)
      | (None, w2) \<Rightarrow> (case ps flt (setOutbound ''Block'') w2 of
          (False, w3) \<Rightarrow> (Some KsFlip, w3)
        | (True, w3) \<Rightarrow> (case run_cmd flt (powershell queryOutbound) w3 of
            (False, w4) \<Rightarrow> (Some KsVerify, w4)
          | (True, w4) \<Rightarrow>
              if \<not> contains_str (to_lower answer) ''block'' then (Some KsNotBlocked, w4)
              else (None, drop_marker flt pl marker w4))))"

definition teardownKillSwitch_windows :: "faults \<Rightarrow> path \<Rightarrow> os \<Rightarrow> os" where
  "teardownKillSwitch_windows flt marker w = snd (os_Remove flt marker (run_cmds flt
     [powershell (setOutbound ''Allow''), powershell removeRules] w))"

section \<open>Other systems\<close>

definition installKillSwitch_other :: "string \<Rightarrow> string list \<Rightarrow> os \<Rightarrow> ks_error option \<times> os" where
  "installKillSwitch_other tun allowedHosts w = (Some KsUnsupported, w)"

definition teardownKillSwitch_other :: "os \<Rightarrow> os" where
  "teardownKillSwitch_other w = w"

definition recoverKillSwitchIfLeftArmed_other :: "os \<Rightarrow> os" where
  "recoverKillSwitchIfLeftArmed_other w = w"

section \<open>What a run logs\<close>

lemma ps_log: "ps flt s w = (ok, w') \<Longrightarrow> \<exists>r. os_cmds w' = os_cmds w @ [(powershell s, r)] \<and> (ok \<longleftrightarrow> r = None)"
  by (auto simp: ps_def dest: run_cmd_log)

lemma add_rules_log:
  "add_rules flt ss w = (x, w') \<Longrightarrow> os_files w' = os_files w \<and>
     (case x of None \<Rightarrow> os_cmds w' = os_cmds w @ map (\<lambda>s. (powershell s, None)) ss
      | Some e \<Rightarrow> \<exists>l. os_cmds w' = os_cmds w @ l \<and> fst ` set l \<subseteq> powershell ` set ss)"
proof (induction ss arbitrary: w)
  case (Cons s ss)
  obtain ok w1 where p: "ps flt s w = (ok, w1)" by (cases "ps flt s w")
  from ps_log [OF p] obtain r where l: "os_cmds w1 = os_cmds w @ [(powershell s, r)]" "ok \<longleftrightarrow> r = None" by auto
  have f: "os_files w1 = os_files w" using p run_cmd_files by (simp add: ps_def)
  show ?case
  proof (cases ok)
    case True
    with Cons p have "add_rules flt ss w1 = (x, w')" by simp
    from Cons.IH [OF this] l True f show ?thesis by (force split: option.splits)
  next
    case False
    with Cons.prems p l f show ?thesis by (force split: option.splits)
  qed
qed simp

lemma append_rules_log:
  "append_rules flt rs w = (x, w') \<Longrightarrow> os_files w' = os_files w \<and>
     (case x of None \<Rightarrow> os_cmds w' = os_cmds w @ map (\<lambda>r. (iptables ([''-A'', killSwitchChain] @ r), None)) rs
      | Some e \<Rightarrow> \<exists>l. os_cmds w' = os_cmds w @ l \<and> fst ` set l \<subseteq> (\<lambda>r. iptables ([''-A'', killSwitchChain] @ r)) ` set rs)"
proof (induction rs arbitrary: w)
  case (Cons r rs)
  let ?c = "iptables ([''-A'', killSwitchChain] @ r)"
  obtain ok w1 where p: "run_cmd flt ?c w = (ok, w1)" by (cases "run_cmd flt ?c w")
  from run_cmd_log [OF p] obtain o1 where l: "os_cmds w1 = os_cmds w @ [(?c, o1)]" "ok \<longleftrightarrow> o1 = None" by auto
  note f = run_cmd_files [OF p]
  show ?case
  proof (cases ok)
    case True
    with Cons p have "append_rules flt rs w1 = (x, w')" by simp
    from Cons.IH [OF this] l True f show ?thesis by (force split: option.splits)
  next
    case False
    with Cons.prems p l f show ?thesis by (force split: option.splits)
  qed
qed simp

lemma drop_marker_cmds [simp]: "os_cmds (drop_marker flt pl marker w) = os_cmds w"
  by (simp add: drop_marker_def)

lemma installKillSwitch_linux_ok:
  assumes "installKillSwitch_linux flt pl marker tun hosts w = (None, w')"
  shows "\<exists>r1 r2. os_cmds w' = os_cmds w @ [(iptables [''-N'', killSwitchChain], r1),
      (iptables [''-F'', killSwitchChain], None),
      (iptables (''-A'' # killSwitchChain # hd (ks_rules tun)), None),
      (iptables [''-D'', ''OUTPUT'', ''-j'', killSwitchChain], r2),
      (iptables [''-I'', ''OUTPUT'', ''1'', ''-j'', killSwitchChain], None)]"
  using assms
  by (auto simp: installKillSwitch_linux_def Let_def run_cmd_def ks_rules_def
      split: prod.splits option.splits bool.splits dest!: run_call_log)

text \<open>A failed install stops before the chain is spliced in.\<close>

lemma installKillSwitch_linux_err:
  assumes "installKillSwitch_linux flt pl marker tun hosts w = (Some e, w')"
  shows "os_files w' = os_files w \<and> (\<exists>l. os_cmds w' = os_cmds w @ l \<and>
     (iptables [''-I'', ''OUTPUT'', ''1'', ''-j'', killSwitchChain], None) \<notin> set l)"
  using assms
  by (auto simp: installKillSwitch_linux_def Let_def run_cmd_def ks_rules_def run_call_def iptables_def
      killSwitchChain_def split: prod.splits option.splits bool.splits)

lemma teardown_linux_log:
  "map fst (os_cmds (teardownKillSwitch_linux flt marker w)) = map fst (os_cmds w) @
     [iptables [''-D'', ''OUTPUT'', ''-j'', killSwitchChain], iptables [''-F'', killSwitchChain],
      iptables [''-X'', killSwitchChain]]"
  by (simp add: teardownKillSwitch_linux_def run_cmds_log del: run_cmds.simps)

lemma teardown_windows_log:
  "map fst (os_cmds (teardownKillSwitch_windows flt marker w)) = map fst (os_cmds w) @
     [powershell (setOutbound ''Allow''), powershell removeRules]"
  by (simp add: teardownKillSwitch_windows_def run_cmds_log del: run_cmds.simps)

lemma installKillSwitch_windows_err:
  assumes "installKillSwitch_windows flt pl marker lookup ifaces answer tun hosts w = (Some e, w')"
  shows "os_files w' = os_files w"
  using assms
  by (auto simp: installKillSwitch_windows_def Let_def ps_def
      split: prod.splits option.splits bool.splits if_splits dest!: add_rules_log run_cmd_files)

lemma Remove_keeps: "os_files (snd (os_Remove flt p w)) q \<noteq> None \<Longrightarrow> os_files w q \<noteq> None"
  by (auto simp: os_call_defs split: option.splits if_splits)

lemma teardown_keeps:
  "os_files (teardownKillSwitch_linux flt m w) q \<noteq> None \<Longrightarrow> os_files w q \<noteq> None"
  "os_files (teardownKillSwitch_windows flt m w) q \<noteq> None \<Longrightarrow> os_files w q \<noteq> None"
  unfolding teardownKillSwitch_linux_def teardownKillSwitch_windows_def
  by (drule Remove_keeps, simp)+

lemma recover_idle:
  "os_files w m = None \<Longrightarrow> os_cmds (recoverKillSwitchIfLeftArmed flt td m w) = os_cmds w
     \<and> os_files (recoverKillSwitchIfLeftArmed flt td m w) = os_files w"
  by (auto simp: recoverKillSwitchIfLeftArmed_def os_call_defs split: option.splits)

lemma recover_armed:
  "os_files w m = Some f \<Longrightarrow> flt (os_tick w) = None \<Longrightarrow>
   os_cmds (recoverKillSwitchIfLeftArmed flt td m w) = os_cmds (td (snd (os_Stat flt m w)))"
  by (simp add: recoverKillSwitchIfLeftArmed_def Stat_no_fault split: prod.splits sum.splits)
    (metis Stat_no_fault fst_conv option.case(2) sum.distinct(1))

section \<open>The contract of a kill switch\<close>

text \<open>
  \<open>armed\<close> says the marker is on disk, \<open>readable\<close> that looking it up will not fail, and
  \<open>removal\<close> are the commands that lift the rules. What \<open>main\<close> relies on: a start after a
  crash lifts the rules when, and only when, the marker was left.
\<close>

locale kill_switch =
  fixes install :: "os \<Rightarrow> 'e option \<times> os"
    and teardown recover :: "os \<Rightarrow> os"
    and armed readable :: "os \<Rightarrow> bool"
    and removal :: "cmd list"
  assumes install_err: "install w = (Some e, w') \<Longrightarrow> armed w' \<longleftrightarrow> armed w"
    and teardown_log: "map fst (os_cmds (teardown w)) = map fst (os_cmds w) @ removal"
    and teardown_armed: "armed (teardown w) \<Longrightarrow> armed w"
    and recover_idle: "\<not> armed w \<Longrightarrow> os_cmds (recover w) = os_cmds w \<and> \<not> armed (recover w)"
    and recover_armed: "armed w \<Longrightarrow> readable w \<Longrightarrow>
       map fst (os_cmds (recover w)) = map fst (os_cmds w) @ removal"
begin

lemma failed_install_no_recovery:
  "\<not> armed w \<Longrightarrow> install w = (Some e, w') \<Longrightarrow> os_cmds (recover w') = os_cmds w'"
  using install_err recover_idle by blast

lemma crash_recovered:
  "install w = (None, w') \<Longrightarrow> armed w' \<Longrightarrow> readable w' \<Longrightarrow>
   map fst (os_cmds (recover w')) = map fst (os_cmds w') @ removal"
  by (rule recover_armed)

lemma clean_stop_no_recovery:
  "\<not> armed (teardown w) \<Longrightarrow> map fst (os_cmds (recover (teardown w))) = map fst (os_cmds w) @ removal"
  using recover_idle teardown_log by metis

end

interpretation lks: kill_switch "installKillSwitch_linux flt pl m tun hosts" "teardownKillSwitch_linux flt m"
  "recoverKillSwitchIfLeftArmed flt (teardownKillSwitch_linux flt m) m"
  "\<lambda>w. os_files w m \<noteq> None" "\<lambda>w. flt (os_tick w) = None"
  "[iptables [''-D'', ''OUTPUT'', ''-j'', killSwitchChain], iptables [''-F'', killSwitchChain],
      iptables [''-X'', killSwitchChain]]"
  for flt pl m tun hosts
  by unfold_locales
    (simp_all add: teardown_linux_log recover_idle recover_armed installKillSwitch_linux_err [THEN conjunct1], auto simp: recover_armed teardown_linux_log
      dest!: teardown_keeps(1) [OF not_None_eq [THEN iffD2]])

interpretation wks: kill_switch "installKillSwitch_windows flt pl m lookup ifaces answer tun hosts"
  "teardownKillSwitch_windows flt m"
  "recoverKillSwitchIfLeftArmed flt (teardownKillSwitch_windows flt m) m"
  "\<lambda>w. os_files w m \<noteq> None" "\<lambda>w. flt (os_tick w) = None"
  "[powershell (setOutbound ''Allow''), powershell removeRules]"
  for flt pl m lookup ifaces answer tun hosts
  by unfold_locales
    (simp_all add: teardown_windows_log recover_idle recover_armed installKillSwitch_windows_err,
      auto simp: recover_armed teardown_windows_log
      dest!: teardown_keeps(2) [OF not_None_eq [THEN iffD2]])

section \<open>What the Linux chain does to packets\<close>

record packet =
  pk_dst :: ipv4
  pk_oif :: string

definition scenarioNet :: prefix4 where
  "scenarioNet = \<lparr>pfx_addr = ip4 10 128 0 0, pfx_bits = 9\<rparr>"

definition leaks :: "string \<Rightarrow> packet \<Rightarrow> bool" where
  "leaks tun p \<longleftrightarrow> pfx_contains scenarioNet (pk_dst p) \<and> pk_oif p \<noteq> tun"

definition jump :: "string list" where
  "jump = [''-j'', killSwitchChain]"

text \<open>
  The firewall is a parameter: \<open>step\<close> is the effect of one logged command, \<open>chain\<close> the rules
  of the kill-switch chain, \<open>output\<close> those of \<open>OUTPUT\<close>, \<open>matches\<close> says whether a packet matches
  a rule, \<open>drops\<close> is the verdict on a packet leaving the host and \<open>rest\<close> the verdict of a list of
  \<open>OUTPUT\<close> rules without the jump. The laws are those of \<open>iptables(8)\<close>. Commands: a refused one
  changes nothing; \<open>-F\<close> empties a chain, \<open>-A\<close> appends, \<open>-D\<close> deletes the first match, \<open>-I 1\<close>
  inserts at the top. Rules: every match of a rule must hold; \<open>-d\<close> takes a prefix, \<open>-o\<close> an
  interface, where a name ending in a plus sign is a wildcard (about which nothing is said here),
  and an exclamation mark before it inverts it. Chains: a packet is dropped by the first rule with
  the target \<open>DROP\<close> that it matches, and one a chain does not drop returns to the rule after
  the jump.
\<close>

record 'fw netfilter =
  nf_step :: "'fw \<Rightarrow> cmd \<times> oserr option \<Rightarrow> 'fw"
  nf_chain :: "'fw \<Rightarrow> string list list"
  nf_output :: "'fw \<Rightarrow> string list list"
  nf_matches :: "string list \<Rightarrow> packet \<Rightarrow> bool"
  nf_drops :: "'fw \<Rightarrow> packet \<Rightarrow> bool"
  nf_rest :: "string list list \<Rightarrow> packet \<Rightarrow> bool"

definition wildcard :: "string \<Rightarrow> bool" where
  "wildcard i \<longleftrightarrow> i = [] \<or> last i = CHR ''+''"

definition drop_target :: "string list" where
  "drop_target = [''-j'', ''DROP'']"

definition rule_laws :: "(string list \<Rightarrow> packet \<Rightarrow> bool) \<Rightarrow> bool" where
  "rule_laws matches \<longleftrightarrow>
     (\<forall>p. matches drop_target p)
   \<and> (\<forall>net a r p. parsePrefix4 net = Some a \<longrightarrow> matches (''-d'' # net # r) p = (pfx_contains a (pk_dst p) \<and> matches r p))
   \<and> (\<forall>i r p. \<not> wildcard i \<longrightarrow> matches (''-o'' # i # r) p = (pk_oif p = i \<and> matches r p))
   \<and> (\<forall>i r p. \<not> wildcard i \<longrightarrow> matches (''!'' # ''-o'' # i # r) p = (pk_oif p \<noteq> i \<and> matches r p))"

definition iptables_laws :: "'fw netfilter \<Rightarrow> bool" where
  "iptables_laws nf \<longleftrightarrow>
     (\<forall>fw args e. nf_step nf fw (iptables args, Some e) = fw)
   \<and> (\<forall>fw. nf_output nf (nf_step nf fw (iptables [''-N'', killSwitchChain], None)) = nf_output nf fw)
   \<and> (\<forall>fw. nf_chain nf (nf_step nf fw (iptables [''-F'', killSwitchChain], None)) = []
        \<and> nf_output nf (nf_step nf fw (iptables [''-F'', killSwitchChain], None)) = nf_output nf fw)
   \<and> (\<forall>fw r. nf_chain nf (nf_step nf fw (iptables (''-A'' # killSwitchChain # r), None)) = nf_chain nf fw @ [r]
        \<and> nf_output nf (nf_step nf fw (iptables (''-A'' # killSwitchChain # r), None)) = nf_output nf fw)
   \<and> (\<forall>fw. nf_output nf (nf_step nf fw (iptables [''-D'', ''OUTPUT'', ''-j'', killSwitchChain], None))
          = remove1 jump (nf_output nf fw)
        \<and> nf_chain nf (nf_step nf fw (iptables [''-D'', ''OUTPUT'', ''-j'', killSwitchChain], None)) = nf_chain nf fw)
   \<and> (\<forall>fw. nf_output nf (nf_step nf fw (iptables [''-I'', ''OUTPUT'', ''1'', ''-j'', killSwitchChain], None))
          = jump # nf_output nf fw
        \<and> nf_chain nf (nf_step nf fw (iptables [''-I'', ''OUTPUT'', ''1'', ''-j'', killSwitchChain], None)) = nf_chain nf fw)
   \<and> (\<forall>fw. nf_output nf (nf_step nf fw (iptables [''-X'', killSwitchChain], None)) = nf_output nf fw)
   \<and> (\<forall>fw p. jump \<notin> set (nf_output nf fw) \<longrightarrow> nf_drops nf fw p = nf_rest nf (nf_output nf fw) p)
   \<and> (\<forall>fw os p. nf_output nf fw = jump # os \<longrightarrow> jump \<notin> set os \<longrightarrow>
        (\<forall>r \<in> set (nf_chain nf fw). \<exists>m. r = m @ drop_target) \<longrightarrow>
        nf_drops nf fw p = ((\<exists>r \<in> set (nf_chain nf fw). nf_matches nf r p) \<or> nf_rest nf os p))
   \<and> rule_laws (nf_matches nf)"

text \<open>The code's rule matches the leaking packets, and these only.\<close>

lemma dec_9: "dec 9 = ''9''"
  by code_simp

lemma scenarioNet_parsed: "parsePrefix4 ''10.128.0.0/9'' = Some scenarioNet"
  unfolding parsePrefix4_iff
  by (simp add: prefix_string_def addr_string_def scenarioNet_def resolver_octets dec_octets_0 dec_9)

lemma ks_rules_match:
  assumes "rule_laws matches" "\<not> wildcard tun"
  shows "(\<exists>r \<in> set (ks_rules tun). matches r p) = leaks tun p"
  using assms scenarioNet_parsed
  by (simp add: rule_laws_def ks_rules_def leaks_def drop_target_def)

lemma iptables_steps:
  assumes "iptables_laws nf"
  shows "nf_step nf fw (iptables args, Some e) = fw"
    "nf_output nf (nf_step nf fw (iptables [''-N'', killSwitchChain], r)) = nf_output nf fw"
    "nf_output nf (nf_step nf fw (iptables [''-F'', killSwitchChain], r)) = nf_output nf fw"
    "nf_chain nf (nf_step nf fw (iptables [''-F'', killSwitchChain], None)) = []"
    "nf_output nf (nf_step nf fw (iptables (''-A'' # killSwitchChain # x), None)) = nf_output nf fw"
    "nf_chain nf (nf_step nf fw (iptables (''-A'' # killSwitchChain # x), None)) = nf_chain nf fw @ [x]"
    "nf_chain nf (nf_step nf fw (iptables [''-D'', ''OUTPUT'', ''-j'', killSwitchChain], r)) = nf_chain nf fw"
    "nf_output nf (nf_step nf fw (iptables [''-D'', ''OUTPUT'', ''-j'', killSwitchChain], None)) = remove1 jump (nf_output nf fw)"
    "jump \<notin> set (nf_output nf fw) \<Longrightarrow>
       nf_output nf (nf_step nf fw (iptables [''-D'', ''OUTPUT'', ''-j'', killSwitchChain], r)) = nf_output nf fw"
    "nf_chain nf (nf_step nf fw (iptables [''-I'', ''OUTPUT'', ''1'', ''-j'', killSwitchChain], None)) = nf_chain nf fw"
    "nf_output nf (nf_step nf fw (iptables [''-I'', ''OUTPUT'', ''1'', ''-j'', killSwitchChain], None)) = jump # nf_output nf fw"
    "nf_output nf (nf_step nf fw (iptables [''-X'', killSwitchChain], r)) = nf_output nf fw"
  using assms unfolding iptables_laws_def
  by (simp_all, (cases r; simp add: remove1_idem)+)

lemma iptables_verdicts:
  assumes "iptables_laws nf" "jump \<notin> set os"
  shows "nf_output nf fw = os \<Longrightarrow> nf_drops nf fw p = nf_rest nf os p"
    "nf_output nf fw = jump # os \<Longrightarrow> nf_chain nf fw = ks_rules tun \<Longrightarrow> \<not> wildcard tun \<Longrightarrow>
       nf_drops nf fw p = (leaks tun p \<or> nf_rest nf os p)"
proof -
  show "nf_output nf fw = os \<Longrightarrow> nf_drops nf fw p = nf_rest nf os p"
    using assms unfolding iptables_laws_def by simp
  assume fw: "nf_output nf fw = jump # os" "nf_chain nf fw = ks_rules tun" and w: "\<not> wildcard tun"
  have "\<forall>r \<in> set (ks_rules tun). \<exists>m. r = m @ drop_target" by (simp add: ks_rules_def drop_target_def)
  moreover have "\<forall>fw os p. nf_output nf fw = jump # os \<longrightarrow> jump \<notin> set os \<longrightarrow>
        (\<forall>r \<in> set (nf_chain nf fw). \<exists>m. r = m @ drop_target) \<longrightarrow>
        nf_drops nf fw p = ((\<exists>r \<in> set (nf_chain nf fw). nf_matches nf r p) \<or> nf_rest nf os p)"
    using assms(1) unfolding iptables_laws_def by (elim conjE) assumption
  ultimately have "nf_drops nf fw p = ((\<exists>r \<in> set (ks_rules tun). nf_matches nf r p) \<or> nf_rest nf os p)"
    using fw assms(2) by presburger
  moreover have "rule_laws (nf_matches nf)" using assms(1) by (simp add: iptables_laws_def)
  ultimately show "nf_drops nf fw p = (leaks tun p \<or> nf_rest nf os p)" using ks_rules_match w by simp
qed

text \<open>Every address a validated profile can route lies under the one rule.\<close>

lemma approved_in_scenarioNet: "a \<in> approved_addrs \<Longrightarrow> pfx_contains scenarioNet a"
proof -
  assume "a \<in> approved_addrs"
  moreover have "pfx_contains scenarioNet (pfx_addr scenarioRange)" "pfx_contains scenarioNet (pfx_addr teamserverRange)"
    by (simp_all add: scenarioNet_def scenarioRange_def teamserverRange_def pfx_contains_eq ip4_def)
  ultimately show ?thesis
    using pfx_contains_trans [of scenarioNet scenarioRange a] pfx_contains_trans [of scenarioNet teamserverRange a]
    by (auto simp: approved_addrs_def scenarioNet_def scenarioRange_def teamserverRange_def)
qed


text \<open>
  (C29) \<open>teardownKillSwitch\<close> undoes it: after an install, a teardown whose first command is
  not refused leaves every packet judged as on the untouched host.
\<close>

theorem teardownKillSwitch_linux_restores:
  assumes "iptables_laws nf" "jump \<notin> set (nf_output nf fw)"
    and "installKillSwitch_linux flt pl marker tun hosts w = (None, w1)" "os_cmds w = []"
    and "flt (os_tick w1) = None"
  shows "nf_drops nf (foldl (nf_step nf) fw (os_cmds (teardownKillSwitch_linux flt marker w1))) p = nf_drops nf fw p"
proof -
  let ?fw = "foldl (nf_step nf) fw (os_cmds w1)"
  have fw: "nf_output nf ?fw = jump # nf_output nf fw"
    using installKillSwitch_linux_ok [OF assms(3)] assms(2,4)
    by (auto simp: iptables_steps [OF assms(1)])
  have "\<exists>r2 r3. os_cmds (teardownKillSwitch_linux flt marker w1) = os_cmds w1 @
      [(iptables [''-D'', ''OUTPUT'', ''-j'', killSwitchChain], None), (iptables [''-F'', killSwitchChain], r2),
       (iptables [''-X'', killSwitchChain], r3)]"
    using assms(5) by (simp add: teardownKillSwitch_linux_def run_cmd_call run_call_def Let_def)
  then have "nf_output nf (foldl (nf_step nf) fw (os_cmds (teardownKillSwitch_linux flt marker w1))) = nf_output nf fw"
    by (auto simp: iptables_steps [OF assms(1)] fw)
  with iptables_verdicts(1) [OF assms(1,2)] show ?thesis by simp
qed

text \<open>A model of the firewall for the witnesses: the two chains, and no other rule.\<close>

fun sample_step :: "string list list \<times> string list list \<Rightarrow> cmd \<times> oserr option \<Rightarrow> string list list \<times> string list list" where
  "sample_step (ch, ou) (c, Some e) = (ch, ou)"
| "sample_step (ch, ou) (c, None) =
     (if c = iptables [''-F'', killSwitchChain] then ([], ou)
      else if c = iptables [''-D'', ''OUTPUT'', ''-j'', killSwitchChain] then (ch, remove1 jump ou)
      else if c = iptables [''-I'', ''OUTPUT'', ''1'', ''-j'', killSwitchChain] then (ch, jump # ou)
      else if take 3 c = iptables [''-A'', killSwitchChain] then (ch @ [drop 3 c], ou)
      else (ch, ou))"

fun sample_matches :: "string list \<Rightarrow> packet \<Rightarrow> bool" where
  "sample_matches (a # b # c # r) p =
     (if a = ''-d'' then (case parsePrefix4 b of None \<Rightarrow> False | Some x \<Rightarrow> pfx_contains x (pk_dst p)) \<and> sample_matches (c # r) p
      else if a = ''-o'' then pk_oif p = b \<and> sample_matches (c # r) p
      else if a = ''!'' \<and> b = ''-o'' then pk_oif p \<noteq> c \<and> sample_matches r p
      else False)"
| "sample_matches r p = (r = drop_target)"

lemma sample_matches_long:
  "sample_matches (''-d'' # net # r) p = ((case parsePrefix4 net of None \<Rightarrow> False | Some x \<Rightarrow> pfx_contains x (pk_dst p)) \<and> sample_matches r p)"
  "sample_matches (''-o'' # net # r) p = (pk_oif p = net \<and> sample_matches r p)"
  by (cases r; simp add: drop_target_def)+

definition sample_nf :: "(string list list \<times> string list list) netfilter" where
  "sample_nf = \<lparr>nf_step = sample_step, nf_chain = fst, nf_output = snd, nf_matches = sample_matches,
     nf_drops = (\<lambda>fw p. snd fw \<noteq> [] \<and> hd (snd fw) = jump \<and> list_ex (\<lambda>r. sample_matches r p) (fst fw)),
     nf_rest = (\<lambda>os p. False)\<rparr>"

lemma sample_rule_laws: "rule_laws sample_matches"
  by (simp add: rule_laws_def sample_matches_long drop_target_def)

lemma sample_nf_laws: "iptables_laws sample_nf"
  using sample_rule_laws
  by (auto simp: iptables_laws_def sample_nf_def iptables_def killSwitchChain_def list_ex_iff dest: hd_in_set)

definition sample_paths :: path_lib where
  "sample_paths = \<lparr>pl_join = concat, pl_dir = (\<lambda>p. [])\<rparr>"

lemma sample_nf_sel [simp]: "nf_output sample_nf = snd" "nf_rest sample_nf = (\<lambda>os p. False)"
  by (simp_all add: sample_nf_def)

lemma sample_os_cmds [simp]: "os_cmds sample_os = []"
  by (simp add: sample_os_def)

abbreviation sample_armed :: os where
  "sample_armed \<equiv> snd (installKillSwitch_linux (\<lambda>_. None) sample_paths ''m'' ''arena0'' [] sample_os)"

lemma sample_install:
  "fst (installKillSwitch_linux (\<lambda>_. None) sample_paths ''m'' ''arena0'' [] sample_os) = None"
  by (simp add: installKillSwitch_linux_def Let_def run_cmd_def run_call_def ks_rules_def)


theorem teardownKillSwitch_linux_restores_witness:
  "\<not> nf_drops sample_nf (foldl (nf_step sample_nf) ([], [])
      (os_cmds (teardownKillSwitch_linux (\<lambda>_. None) ''m'' sample_armed)))
      \<lparr>pk_dst = ip4 10 130 50 254, pk_oif = ''eth0''\<rparr>"
  using teardownKillSwitch_linux_restores [OF sample_nf_laws, of "([], [])" "\<lambda>_. None" sample_paths "''m''" "''arena0''" "[]"
      sample_os sample_armed "\<lparr>pk_dst = ip4 10 130 50 254, pk_oif = ''eth0''\<rparr>"] sample_install
  by (simp add: prod_eq_iff) (simp add: sample_nf_def)

section \<open>The Windows install\<close>

lemma allow_not_flip:
  "s \<in> set (allow_scripts tun lan arena) \<Longrightarrow> s \<noteq> setOutbound x" "removeRules \<noteq> setOutbound x"
  by (auto simp: allow_scripts_def allowTunnel_def allowLoopback_def allowScenario_def allowLAN_def
      allowArena_def allow_script_def setOutbound_def removeRules_def)

lemma powershell_inject [simp]: "powershell a = powershell b \<longleftrightarrow> a = b"
  by (simp add: powershell_def)

lemma flip_not_allowed:
  "powershell (setOutbound x) \<notin> powershell ` set (allow_scripts tun lan arena)"
  "powershell removeRules \<noteq> powershell (setOutbound x)"
  using allow_not_flip(1) [of "setOutbound x" tun lan arena x] allow_not_flip(2) [of x] by auto

lemma not_run: "c \<notin> fst ` set l \<Longrightarrow> (c, r) \<notin> set l"
  by force

text \<open>The two shapes of a run: it stops among the allow rules, or goes through all of them.\<close>

lemma installKillSwitch_windows_shape:
  assumes "installKillSwitch_windows flt pl marker lookup ifaces answer tun hosts w = (x, w')"
  defines "A \<equiv> allow_scripts tun (detectLocalCIDRs tun ifaces) (resolve_hosts lookup hosts)"
  obtains (stopped) r0 l where "x \<noteq> None" "os_cmds w' = os_cmds w @ (powershell removeRules, r0) # l"
      "fst ` set l \<subseteq> powershell ` set A"
    | (flipped) r0 r rest where "os_cmds w' = os_cmds w @ (powershell removeRules, r0) # map (\<lambda>s. (powershell s, None)) A
          @ (powershell (setOutbound ''Block''), r) # rest" "fst ` set rest \<subseteq> {powershell queryOutbound}"
      "x = None \<Longrightarrow> r = None \<and> rest = [(powershell queryOutbound, None)]"
proof -
  obtain ok0 w1 where p0: "ps flt removeRules w = (ok0, w1)" by (cases "ps flt removeRules w")
  obtain y w2 where a: "add_rules flt A w1 = (y, w2)" by (cases "add_rules flt A w1")
  obtain ok w3 where p3: "ps flt (setOutbound ''Block'') w2 = (ok, w3)" by (cases "ps flt (setOutbound ''Block'') w2")
  obtain ok4 w4 where p4: "run_cmd flt (powershell queryOutbound) w3 = (ok4, w4)" by (cases "run_cmd flt (powershell queryOutbound) w3")
  from ps_log [OF p0] obtain r0 where l0: "os_cmds w1 = os_cmds w @ [(powershell removeRules, r0)]" by auto
  from ps_log [OF p3] obtain r where l3: "os_cmds w3 = os_cmds w2 @ [(powershell (setOutbound ''Block''), r)]" "ok \<longleftrightarrow> r = None" by auto
  from run_cmd_log [OF p4] obtain r4 where l4: "os_cmds w4 = os_cmds w3 @ [(powershell queryOutbound, r4)]" "ok4 \<longleftrightarrow> r4 = None" by auto
  note run = assms(1) [unfolded installKillSwitch_windows_def Let_def, folded A_def] p0 a p3 p4
  show thesis
  proof (cases y)
    case (Some e)
    with add_rules_log [OF a] obtain l where "os_cmds w2 = os_cmds w1 @ l" "fst ` set l \<subseteq> powershell ` set A" by auto
    moreover have "x = Some e" "w' = w2" using run Some by auto
    ultimately show thesis using stopped [of r0 l] l0 by simp
  next
    case None
    have l2: "os_cmds w2 = os_cmds w1 @ map (\<lambda>s. (powershell s, None)) A" using add_rules_log [OF a] None by simp
    show thesis
    proof (cases ok)
      case False
      with run None have "w' = w3" "x \<noteq> None" by auto
      with flipped [of r0 r "[]"] l0 l2 l3 show thesis by simp
    next
      case True
      with run None have "os_cmds w' = os_cmds w4" "x = None \<Longrightarrow> ok4" by (cases ok4; force split: if_splits)+
      with flipped [of r0 r "[(powershell queryOutbound, r4)]"] l0 l2 l3 l4 True show thesis by simp
    qed
  qed
qed

text \<open>
  (C19) On Windows the outbound default is set to Block only after every allow rule (tunnel,
  loopback, scenario network, each local network, each resolved control-plane address) was
  added without an error, so the operator is never cut off by the order of the steps; and an
  install that reports success has run exactly these steps, and the query, without an error.
\<close>

theorem installKillSwitch_windows_allows_first:
  assumes "installKillSwitch_windows flt pl marker lookup ifaces answer tun hosts w = (x, w')"
  defines "A \<equiv> map (\<lambda>s. (powershell s, None)) (allow_scripts tun (detectLocalCIDRs tun ifaces) (resolve_hosts lookup hosts))"
  shows "\<exists>l. os_cmds w' = os_cmds w @ l \<and>
    (\<forall>r. (powershell (setOutbound ''Block''), r) \<in> set l \<longrightarrow>
       (\<exists>r0 rest. l = (powershell removeRules, r0) # A @ (powershell (setOutbound ''Block''), r) # rest)) \<and>
    (x = None \<longrightarrow> (\<exists>r0. l = (powershell removeRules, r0) # A
       @ [(powershell (setOutbound ''Block''), None), (powershell queryOutbound, None)]))"
  using assms(1)
proof (cases rule: installKillSwitch_windows_shape)
  case (stopped r0 l)
  have "powershell (setOutbound ''Block'') \<notin> fst ` set ((powershell removeRules, r0) # l)"
    using subsetD [OF stopped(3)] flip_not_allowed(1) flip_not_allowed(2) [symmetric] by (simp only: list.set image_insert fst_conv) blast
  then have n: "(powershell (setOutbound ''Block''), r) \<notin> set ((powershell removeRules, r0) # l)" for r by (rule not_run)
  show ?thesis by (rule exI [of _ "(powershell removeRules, r0) # l"]) (use n stopped(1,2) in blast)
next
  case (flipped r0 r rest)
  let ?l = "(powershell removeRules, r0) # A @ (powershell (setOutbound ''Block''), r) # rest"
  have "powershell (setOutbound ''Block'') \<notin> fst ` set A"
    using flip_not_allowed(1) by (simp add: A_def image_image)
  moreover have "powershell (setOutbound ''Block'') \<notin> fst ` set rest"
    using flipped(2) by (auto simp: queryOutbound_def setOutbound_def)
  ultimately have "r' = r" if "(powershell (setOutbound ''Block''), r') \<in> set ?l" for r'
    using that flip_not_allowed(2) [of "''Block''"] by (auto dest: not_run)
  moreover have "os_cmds w' = os_cmds w @ ?l" using flipped(1) by (simp add: A_def)
  ultimately show ?thesis using flipped(3) by (intro exI [of _ ?l]) auto
qed

lemma add_rules_error: "add_rules flt ss w = (Some e, w') \<Longrightarrow> \<exists>s. e = KsAllow s"
  by (induction ss arbitrary: w) (auto split: prod.splits bool.splits)

text \<open>
  A Windows install that fails only at its last check leaves the machine blocked: the
  outbound default was set to Block, nothing sets it back, no marker is written, and the
  recovery of the next start runs no command.
\<close>

lemma installKillSwitch_windows_no_rollback:
  assumes "installKillSwitch_windows flt pl marker lookup ifaces answer tun hosts w = (Some e, w')"
    and "e = KsVerify \<or> e = KsNotBlocked" "os_files w marker = None"
  shows "(\<exists>q r. os_cmds w' = q @ [(powershell (setOutbound ''Block''), None), (powershell queryOutbound, r)])
    \<and> os_cmds (recoverKillSwitchIfLeftArmed flt (teardownKillSwitch_windows flt marker) marker w') = os_cmds w'"
proof
  show "\<exists>q r. os_cmds w' = q @ [(powershell (setOutbound ''Block''), None), (powershell queryOutbound, r)]"
    using assms(1,2)
    by (auto simp: installKillSwitch_windows_def Let_def ps_def split: prod.splits option.splits bool.splits if_splits
        dest!: run_cmd_log dest: add_rules_error)
  show "os_cmds (recoverKillSwitchIfLeftArmed flt (teardownKillSwitch_windows flt marker) marker w') = os_cmds w'"
    using wks.failed_install_no_recovery [OF _ assms(1)] assms(3) by simp
qed

theorem installKillSwitch_windows_allows_first_witness:
  "\<exists>w' r0. installKillSwitch_windows (\<lambda>_. None) sample_paths ''m'' (\<lambda>_. None) None ''Block'' ''arena0'' [] sample_os = (None, w')
     \<and> os_cmds w' = (powershell removeRules, r0) # map (\<lambda>s. (powershell s, None)) [allowTunnel ''arena0'', allowLoopback, allowScenario]
         @ [(powershell (setOutbound ''Block''), None), (powershell queryOutbound, None)]"
proof -
  let ?run = "installKillSwitch_windows (\<lambda>_. None) sample_paths ''m'' (\<lambda>_. None) None ''Block'' ''arena0'' [] sample_os"
  have "contains_str (to_lower ''Block'') ''block''" by code_simp
  then have "fst ?run = None"
    by (simp add: installKillSwitch_windows_def Let_def detectLocalCIDRs_def allow_scripts_def ps_def
        run_cmd_def run_call_def lower_ascii_def del: contains_str.simps)
  then have r: "?run = (None, snd ?run)" by (simp add: prod_eq_iff)
  have "allow_scripts ''arena0'' (detectLocalCIDRs ''arena0'' None) (resolve_hosts (\<lambda>_. None) []) = [allowTunnel ''arena0'', allowLoopback, allowScenario]"
    "os_cmds sample_os = []"
    by (simp_all add: allow_scripts_def detectLocalCIDRs_def sample_os_def)
  with installKillSwitch_windows_allows_first [OF r] r show ?thesis by auto
qed

lemma installKillSwitch_windows_no_rollback_witness:
  "os_cmds (recoverKillSwitchIfLeftArmed (\<lambda>_. None) (teardownKillSwitch_windows (\<lambda>_. None) ''m'') ''m''
     (snd (installKillSwitch_windows (\<lambda>_. None) sample_paths ''m'' (\<lambda>_. None) None ''Allow'' ''arena0'' [] sample_os)))
   = os_cmds (snd (installKillSwitch_windows (\<lambda>_. None) sample_paths ''m'' (\<lambda>_. None) None ''Allow'' ''arena0'' [] sample_os))"
proof -
  let ?run = "installKillSwitch_windows (\<lambda>_. None) sample_paths ''m'' (\<lambda>_. None) None ''Allow'' ''arena0'' [] sample_os"
  have "fst ?run = Some KsNotBlocked"
    by (simp add: installKillSwitch_windows_def Let_def detectLocalCIDRs_def allow_scripts_def ps_def
        run_cmd_def run_call_def lower_ascii_def)
  with installKillSwitch_windows_no_rollback [of "\<lambda>_. None" sample_paths "''m''" "\<lambda>_. None" None "''Allow''" "''arena0''"
      "[]" sample_os KsNotBlocked "snd ?run"]
  show ?thesis by (simp add: prod_eq_iff sample_os_def)
qed

section \<open>Recovery after a crash\<close>

text \<open>
  After a successful install that managed to write its marker, a start after a crash
  (the marker is still there and can be looked up) runs exactly the commands that lift the
  rules, on both platforms; with no marker it runs none.
\<close>

lemma crash_recovery:
  "(os_files w m \<noteq> None \<and> flt (os_tick w) = None \<longrightarrow>
      map fst (os_cmds (recoverKillSwitchIfLeftArmed flt (teardownKillSwitch_linux flt m) m w)) = map fst (os_cmds w) @
        [iptables [''-D'', ''OUTPUT'', ''-j'', killSwitchChain], iptables [''-F'', killSwitchChain],
         iptables [''-X'', killSwitchChain]]
    \<and> map fst (os_cmds (recoverKillSwitchIfLeftArmed flt (teardownKillSwitch_windows flt m) m w)) = map fst (os_cmds w) @
        [powershell (setOutbound ''Allow''), powershell removeRules])
   \<and> (os_files w m = None \<longrightarrow> os_cmds (recoverKillSwitchIfLeftArmed flt td m w) = os_cmds w)"
  using lks.recover_armed [of w m flt] wks.recover_armed [of w m flt] recover_idle [of w m flt td] by simp

lemma crash_recovery_witness:
  "os_files sample_armed ''m'' \<noteq> None \<and>
   map fst (drop 5 (os_cmds (recoverKillSwitchIfLeftArmed (\<lambda>_. None) (teardownKillSwitch_linux (\<lambda>_. None) ''m'') ''m'' sample_armed)))
    = [iptables [''-D'', ''OUTPUT'', ''-j'', killSwitchChain], iptables [''-F'', killSwitchChain],
         iptables [''-X'', killSwitchChain]]"
proof -
  have f: "os_files sample_armed ''m'' \<noteq> None" "length (os_cmds sample_armed) = 5"
    by (simp_all add: installKillSwitch_linux_def Let_def run_cmd_def run_call_def ks_rules_def
        drop_marker_def os_WriteFile_def sample_os_def)
  with crash_recovery [of sample_armed "''m''" "\<lambda>_. None"] show ?thesis
    by (simp flip: drop_map)
qed

end
