(* ===== verification/Base64.thy ===== *)
theory Base64
  imports Arena_Prelude
begin

text \<open>
  \<open>encoding/base64\<close>, standard alphabet with padding, as Go decodes it: line breaks are
  skipped, padding is required, the unused bits of the last group are ignored.
\<close>

section \<open>Encoding\<close>

definition b64_alphabet :: string where
  "b64_alphabet = ''ABCDEFGHIJKLMNOPQRSTUVWXYZabcdefghijklmnopqrstuvwxyz0123456789+/''"

definition b64_char :: "nat \<Rightarrow> char" where
  "b64_char n = b64_alphabet ! n"

definition b64_val :: "char \<Rightarrow> nat option" where
  "b64_val c = (if 65 \<le> byte c \<and> byte c \<le> 90 then Some (byte c - 65)
     else if 97 \<le> byte c \<and> byte c \<le> 122 then Some (byte c - 71)
     else if 48 \<le> byte c \<and> byte c \<le> 57 then Some (byte c + 4)
     else if byte c = 43 then Some 62 else if byte c = 47 then Some 63 else None)"

fun b64_encode :: "string \<Rightarrow> string" where
  "b64_encode [] = []"
| "b64_encode [a] = [b64_char (byte a div 4), b64_char (byte a mod 4 * 16), CHR ''='', CHR ''='']"
| "b64_encode [a, b] = [b64_char (byte a div 4), b64_char (byte a mod 4 * 16 + byte b div 16),
     b64_char (byte b mod 16 * 4), CHR ''='']"
| "b64_encode (a # b # c # s) = b64_char (byte a div 4) # b64_char (byte a mod 4 * 16 + byte b div 16)
     # b64_char (byte b mod 16 * 4 + byte c div 64) # b64_char (byte c mod 64) # b64_encode s"

section \<open>Decoding\<close>

fun b64_groups :: "string \<Rightarrow> string option" where
  "b64_groups [] = Some []"
| "b64_groups (a # b # c # d # s) =
     (case (b64_val a, b64_val b) of
        (Some u, Some v) \<Rightarrow>
          (if c = CHR ''='' then
             (if d = CHR ''='' \<and> s = [] then Some [char_of (u * 4 + v div 16)] else None)
           else (case b64_val c of None \<Rightarrow> None
             | Some x \<Rightarrow>
                 if d = CHR ''='' then
                   (if s = [] then Some [char_of (u * 4 + v div 16), char_of (v mod 16 * 16 + x div 4)] else None)
                 else (case (b64_val d, b64_groups s) of
                   (Some y, Some r) \<Rightarrow> Some (char_of (u * 4 + v div 16) # char_of (v mod 16 * 16 + x div 4)
                       # char_of (x mod 4 * 64 + y) # r)
                 | _ \<Rightarrow> None)))
      | _ \<Rightarrow> None)"
| "b64_groups _ = None"

definition b64_decode :: "string \<Rightarrow> string option" where
  "b64_decode s = b64_groups (filter (\<lambda>c. c \<noteq> CHR 0x0A \<and> c \<noteq> CHR 0x0D) s)"

section \<open>Decoding inverts encoding\<close>

lemma b64_table: "\<forall>n \<in> set [0..<64]. b64_val (b64_char n) = Some n \<and> b64_char n \<noteq> CHR ''=''
    \<and> b64_char n \<noteq> CHR 0x0A \<and> b64_char n \<noteq> CHR 0x0D"
  by code_simp

lemma b64_char [simp]:
  assumes "n < 64"
  shows "b64_val (b64_char n) = Some n" "b64_char n \<noteq> CHR ''=''" "b64_char n \<noteq> CHR 0x0A" "b64_char n \<noteq> CHR 0x0D"
  using b64_table assms by auto

lemma byte_lt: "byte c < 256"
  by (metis of_char_mod_256 mod_less_divisor zero_less_numeral)

lemma b64_parts:
  assumes "a < 256" "b < 256" "c < (256::nat)"
  shows "a div 4 < 64" "a mod 4 * 16 + b div 16 < 64" "b mod 16 * 4 + c div 64 < 64" "a mod 4 * 16 < 64"
    "b mod 16 * 4 < 64" "c mod 64 < 64"
    "a div 4 * 4 + (a mod 4 * 16 + b div 16) div 16 = a" "a div 4 * 4 + a mod 4 * 16 div 16 = a"
    "(a mod 4 * 16 + b div 16) mod 16 * 16 + (b mod 16 * 4 + c div 64) div 4 = b"
    "(a mod 4 * 16 + b div 16) mod 16 * 16 + b mod 16 * 4 div 4 = b"
    "(b mod 16 * 4 + c div 64) mod 4 * 64 + c mod 64 = c"
proof -
  have d: "a div 4 < 64" "b div 16 < 16" "c div 64 < 4"
    using assms by (simp_all add: less_mult_imp_div_less)
  have m: "a mod 4 < 4" "b mod 16 < 16" "c mod 64 < 64" by simp_all
  show "a div 4 < 64" "a mod 4 * 16 + b div 16 < 64" "b mod 16 * 4 + c div 64 < 64" "a mod 4 * 16 < 64"
    "b mod 16 * 4 < 64" "c mod 64 < 64"
    using d m by linarith+
  have 1: "(a mod 4 * 16 + b div 16) div 16 = a mod 4" "(a mod 4 * 16 + b div 16) mod 16 = b div 16"
    "(b mod 16 * 4 + c div 64) div 4 = b mod 16" "(b mod 16 * 4 + c div 64) mod 4 = c div 64"
    using d by simp_all
  show "a div 4 * 4 + (a mod 4 * 16 + b div 16) div 16 = a" "a div 4 * 4 + a mod 4 * 16 div 16 = a"
    "(a mod 4 * 16 + b div 16) mod 16 * 16 + (b mod 16 * 4 + c div 64) div 4 = b"
    "(a mod 4 * 16 + b div 16) mod 16 * 16 + b mod 16 * 4 div 4 = b"
    "(b mod 16 * 4 + c div 64) mod 4 * 64 + c mod 64 = c"
    using 1 by simp_all
qed

lemma group1: "u < 64 \<Longrightarrow> v < 64 \<Longrightarrow>
    b64_groups [b64_char u, b64_char v, CHR ''='', CHR ''=''] = Some [char_of (u * 4 + v div 16)]"
  by simp

lemma group2: "u < 64 \<Longrightarrow> v < 64 \<Longrightarrow> x < 64 \<Longrightarrow>
    b64_groups [b64_char u, b64_char v, b64_char x, CHR ''='']
    = Some [char_of (u * 4 + v div 16), char_of (v mod 16 * 16 + x div 4)]"
  by simp

lemma group3: "u < 64 \<Longrightarrow> v < 64 \<Longrightarrow> x < 64 \<Longrightarrow> y < 64 \<Longrightarrow> b64_groups s = Some r \<Longrightarrow>
    b64_groups (b64_char u # b64_char v # b64_char x # b64_char y # s)
    = Some (char_of (u * 4 + v div 16) # char_of (v mod 16 * 16 + x div 4) # char_of (x mod 4 * 64 + y) # r)"
  by simp

lemma b64_groups_encode: "b64_groups (b64_encode s) = Some s"
proof (induction s rule: b64_encode.induct)
  case (2 a)
  note P = b64_parts [of "byte a" "byte a" "byte a", OF byte_lt byte_lt byte_lt]
  show ?case by (simp only: b64_encode.simps group1 [OF P(1,4)] P(8) char_of_char)
next
  case (3 a b)
  note P = b64_parts [of "byte a" "byte b" "byte b", OF byte_lt byte_lt byte_lt]
  show ?case by (simp only: b64_encode.simps group2 [OF P(1,2,5)] P(7,10) char_of_char)
next
  case (4 a b c s)
  note P = b64_parts [of "byte a" "byte b" "byte c", OF byte_lt byte_lt byte_lt]
  show ?case by (simp only: b64_encode.simps group3 [OF P(1,2,3,6) 4] P(7,9,11) char_of_char)
qed simp

lemma no_breaks: "n < 64 \<Longrightarrow> filter (\<lambda>c. c \<noteq> CHR 0x0A \<and> c \<noteq> CHR 0x0D) (b64_char n # s)
    = b64_char n # filter (\<lambda>c. c \<noteq> CHR 0x0A \<and> c \<noteq> CHR 0x0D) s"
  by simp

lemma pad_breaks: "filter (\<lambda>c. c \<noteq> CHR 0x0A \<and> c \<noteq> CHR 0x0D) (CHR ''='' # s)
    = CHR ''='' # filter (\<lambda>c. c \<noteq> CHR 0x0A \<and> c \<noteq> CHR 0x0D) s"
  by simp

lemma b64_encode_no_breaks: "filter (\<lambda>c. c \<noteq> CHR 0x0A \<and> c \<noteq> CHR 0x0D) (b64_encode s) = b64_encode s"
proof (induction s rule: b64_encode.induct)
  case (2 a)
  note P = b64_parts [of "byte a" "byte a" "byte a", OF byte_lt byte_lt byte_lt]
  show ?case by (simp only: b64_encode.simps no_breaks [OF P(1)] no_breaks [OF P(4)] pad_breaks filter.simps(1))
next
  case (3 a b)
  note P = b64_parts [of "byte a" "byte b" "byte b", OF byte_lt byte_lt byte_lt]
  show ?case
    by (simp only: b64_encode.simps no_breaks [OF P(1)] no_breaks [OF P(2)] no_breaks [OF P(5)] pad_breaks filter.simps(1))
next
  case (4 a b c s)
  note P = b64_parts [of "byte a" "byte b" "byte c", OF byte_lt byte_lt byte_lt]
  show ?case
    by (simp only: b64_encode.simps no_breaks [OF P(1)] no_breaks [OF P(2)] no_breaks [OF P(3)] no_breaks [OF P(6)] 4)
qed simp

lemma b64_roundtrip [simp]: "b64_decode (b64_encode s) = Some s"
  by (simp only: b64_decode_def b64_encode_no_breaks b64_groups_encode)

end
