(* ===== verification/Go_Text.thy ===== *)
theory Go_Text
  imports Arena_Prelude
begin

text \<open>
  The text side of Go's library that the components share: UTF-8 decoding as \<open>range\<close> over a
  string performs it, its inverse, and hexadecimal rendering.
\<close>

section \<open>Hexadecimal\<close>

definition hex_digit :: "nat \<Rightarrow> char" where
  "hex_digit d = (if d < 10 then char_of (48 + d) else char_of (87 + d))"

definition is_hex :: "char \<Rightarrow> bool" where
  "is_hex c \<longleftrightarrow> (48 \<le> byte c \<and> byte c \<le> 57) \<or> (97 \<le> byte c \<and> byte c \<le> 102)"

lemma is_hex_digit [simp]: "d < 16 \<Longrightarrow> is_hex (hex_digit d)"
  by (auto simp: hex_digit_def is_hex_def)

definition hex_byte :: "char \<Rightarrow> string" where
  "hex_byte c = [hex_digit (byte c div 16), hex_digit (byte c mod 16)]"

text \<open>\<open>hex.EncodeToString\<close>.\<close>

definition hex_encode :: "string \<Rightarrow> string" where
  "hex_encode s = concat (map hex_byte s)"

lemma byte_less [simp]: "byte c < 256"
  by (metis of_char_mod_256 mod_less_divisor zero_less_numeral)

lemma byte_div16: "byte c div 16 < 16"
  by (rule less_mult_imp_div_less) simp

lemma hex_encode_length [simp]: "length (hex_encode s) = 2 * length s"
  by (induction s) (simp_all add: hex_encode_def hex_byte_def)

lemma hex_encode_hex: "list_all is_hex (hex_encode s)"
proof (induction s)
  case (Cons c s)
  note byte_div16 [of c]
  with Cons show ?case by (simp add: hex_encode_def hex_byte_def)
qed (simp add: hex_encode_def)

lemma hex_digit_inject: "a < 16 \<Longrightarrow> b < 16 \<Longrightarrow> hex_digit a = hex_digit b \<longleftrightarrow> a = b"
  by (auto simp: hex_digit_def split: if_splits)

lemma hex_encode_inject: "hex_encode s = hex_encode t \<Longrightarrow> s = t"
proof (induction s arbitrary: t)
  case Nil
  then show ?case by (cases t) (simp_all add: hex_encode_def hex_byte_def)
next
  case (Cons c s)
  from Cons.prems obtain d t' where t: "t = d # t'"
    by (cases t) (simp_all add: hex_encode_def hex_byte_def)
  note d = byte_div16 [of c] byte_div16 [of d]
  with Cons.prems t have "byte c div 16 = byte d div 16" "byte c mod 16 = byte d mod 16"
    "hex_encode s = hex_encode t'"
    by (simp_all add: hex_encode_def hex_byte_def hex_digit_inject)
  then have "byte c = byte d" "s = t'" using Cons.IH by (metis div_mult_mod_eq)+
  with t show ?case by simp
qed

text \<open>\<open>%08x\<close> of a non-negative number.\<close>

fun hex_nat :: "nat \<Rightarrow> string" where
  "hex_nat n = (if n < 16 then [hex_digit n] else hex_nat (n div 16) @ [hex_digit (n mod 16)])"

declare hex_nat.simps [simp del]

definition hex08 :: "nat \<Rightarrow> string" where
  "hex08 n = replicate (8 - length (hex_nat n)) (CHR ''0'') @ hex_nat n"

lemma hex_nat_length: "n < 16 ^ Suc k \<Longrightarrow> length (hex_nat n) \<le> Suc k"
proof (induction k arbitrary: n)
  case (Suc k)
  then have "n div 16 < 16 ^ Suc k" by (simp add: less_mult_imp_div_less)
  with Suc.IH [of "n div 16"] show ?case by (subst hex_nat.simps) simp
qed (simp add: hex_nat.simps)

lemma hex_nat_hex: "list_all is_hex (hex_nat n)"
proof (induction n rule: hex_nat.induct)
  case (1 n)
  then show ?case by (cases "n < 16") (simp_all add: hex_nat.simps [of n])
qed

lemma hex08_shape: "n < 2 ^ 32 \<Longrightarrow> length (hex08 n) = 8 \<and> list_all is_hex (hex08 n)"
proof -
  assume "n < 2 ^ 32"
  then have "length (hex_nat n) \<le> 8" using hex_nat_length [of n 7] by simp
  moreover have "is_hex (CHR ''0'')" by (simp add: is_hex_def)
  ultimately show ?thesis using hex_nat_hex [of n] by (auto simp: hex08_def list_all_iff)
qed

section \<open>UTF-8\<close>

definition cont :: "char \<Rightarrow> bool" where
  "cont c \<longleftrightarrow> 0x80 \<le> byte c \<and> byte c \<le> 0xBF"

definition runeError :: nat where "runeError = 0xFFFD"

text \<open>
  \<open>utf8.DecodeRuneInString\<close> on a non-empty string: the rune and the bytes it took. The
  second byte's range depends on the first (no overlong form, no surrogate, nothing above
  U+10FFFF); a bad sequence is the error rune of width one.
\<close>

definition second_ok :: "nat \<Rightarrow> char \<Rightarrow> bool" where
  "second_ok b0 c \<longleftrightarrow> (if b0 = 0xE0 then 0xA0 else if b0 = 0xF0 then 0x90 else 0x80) \<le> byte c
     \<and> byte c \<le> (if b0 = 0xED then 0x9F else if b0 = 0xF4 then 0x8F else 0xBF)"

definition decode_rune :: "string \<Rightarrow> nat \<times> nat" where
  "decode_rune s = (let b0 = byte (hd s) in
     if b0 < 0x80 then (b0, 1)
     else if 0xC2 \<le> b0 \<and> b0 \<le> 0xDF \<and> length s \<ge> 2 \<and> second_ok b0 (s ! 1)
       then ((b0 - 0xC0) * 64 + (byte (s ! 1) - 0x80), 2)
     else if 0xE0 \<le> b0 \<and> b0 \<le> 0xEF \<and> length s \<ge> 3 \<and> second_ok b0 (s ! 1) \<and> cont (s ! 2)
       then ((b0 - 0xE0) * 4096 + (byte (s ! 1) - 0x80) * 64 + (byte (s ! 2) - 0x80), 3)
     else if 0xF0 \<le> b0 \<and> b0 \<le> 0xF4 \<and> length s \<ge> 4 \<and> second_ok b0 (s ! 1) \<and> cont (s ! 2) \<and> cont (s ! 3)
       then ((b0 - 0xF0) * 262144 + (byte (s ! 1) - 0x80) * 4096 + (byte (s ! 2) - 0x80) * 64
              + (byte (s ! 3) - 0x80), 4)
     else (runeError, 1))"

lemma decode_rune_width: "0 < snd (decode_rune s)"
  by (simp add: decode_rune_def Let_def)

function runes :: "string \<Rightarrow> nat list" where
  "runes s = (if s = [] then [] else fst (decode_rune s) # runes (drop (snd (decode_rune s)) s))"
  by pat_completeness auto

termination
  by (relation "measure length") (auto simp: decode_rune_width)

declare runes.simps [simp del]

lemma runes_Nil [simp]: "runes [] = []"
  by (simp add: runes.simps)

definition rune_ok :: "nat \<Rightarrow> bool" where
  "rune_ok r \<longleftrightarrow> r \<le> 0x10FFFF \<and> \<not> (0xD800 \<le> r \<and> r \<le> 0xDFFF)"

text \<open>\<open>utf8.RuneLen\<close> and \<open>WriteRune\<close>, for valid runes.\<close>

definition rune_len :: "nat \<Rightarrow> nat" where
  "rune_len r = (if r < 0x80 then 1 else if r < 0x800 then 2 else if r < 0x10000 then 3 else 4)"

definition encode_rune :: "nat \<Rightarrow> string" where
  "encode_rune r =
     (if r < 0x80 then [char_of r]
      else if r < 0x800 then [char_of (0xC0 + r div 64), char_of (0x80 + r mod 64)]
      else if r < 0x10000
        then [char_of (0xE0 + r div 4096), char_of (0x80 + r div 64 mod 64), char_of (0x80 + r mod 64)]
      else [char_of (0xF0 + r div 262144), char_of (0x80 + r div 4096 mod 64),
            char_of (0x80 + r div 64 mod 64), char_of (0x80 + r mod 64)])"

lemma encode_rune_length [simp]: "length (encode_rune r) = rune_len r"
  by (simp add: encode_rune_def rune_len_def)

lemma encode_rune_nonempty [simp]: "encode_rune r \<noteq> []"
  by (simp add: encode_rune_def)

text \<open>The groups of six bits of a rune.\<close>

lemma div_groups: "r div 4096 = r div 64 div 64" "r div 262144 = r div 64 div 64 div 64" for r :: nat
  by (simp_all add: div_mult2_eq [symmetric])

lemma join64: "q div 64 * 64 + q mod 64 = q" for q :: nat
  by (rule div_mult_mod_eq)

lemma decode2:
  assumes "2 \<le> h" "h < 32" "m < 64"
  shows "decode_rune (char_of (0xC0 + h) # char_of (0x80 + m) # s) = (h * 64 + m, 2)"
  using assms by (simp add: decode_rune_def Let_def second_ok_def)

lemma decode3:
  assumes "h < 16" "h = 0 \<longrightarrow> 32 \<le> m" "h = 13 \<longrightarrow> m \<le> 31" "m < 64" "l < 64"
  shows "decode_rune (char_of (0xE0 + h) # char_of (0x80 + m) # char_of (0x80 + l) # s)
    = ((h * 64 + m) * 64 + l, 3)"
  using assms by (simp add: decode_rune_def Let_def second_ok_def cont_def)

lemma decode4:
  assumes "h \<le> 4" "h = 0 \<longrightarrow> 16 \<le> m" "h = 4 \<longrightarrow> m \<le> 15" "m < 64" "l < 64" "k < 64"
  shows "decode_rune (char_of (0xF0 + h) # char_of (0x80 + m) # char_of (0x80 + l) # char_of (0x80 + k) # s)
    = (((h * 64 + m) * 64 + l) * 64 + k, 4)"
  using assms by (simp add: decode_rune_def Let_def second_ok_def cont_def)

lemma decode_encode:
  assumes "rune_ok r"
  shows "decode_rune (encode_rune r @ s) = (r, rune_len r)"
proof -
  define q where "q = r div 64"
  define p where "p = q div 64"
  have rq: "r = q * 64 + r mod 64" and qp: "q = p * 64 + q mod 64" and pp: "p = p div 64 * 64 + p mod 64"
    unfolding q_def p_def by (rule join64 [symmetric])+
  have m: "r mod 64 < 64" "q mod 64 < 64" "p mod 64 < 64" by simp_all
  have enc: "encode_rune r =
     (if r < 0x80 then [char_of r]
      else if r < 0x800 then [char_of (0xC0 + q), char_of (0x80 + r mod 64)]
      else if r < 0x10000 then [char_of (0xE0 + p), char_of (0x80 + q mod 64), char_of (0x80 + r mod 64)]
      else [char_of (0xF0 + p div 64), char_of (0x80 + p mod 64), char_of (0x80 + q mod 64), char_of (0x80 + r mod 64)])"
    by (simp add: encode_rune_def div_groups q_def p_def)
  consider "r < 0x80" | "0x80 \<le> r" "r < 0x800" | "0x800 \<le> r" "r < 0x10000" | "0x10000 \<le> r" by linarith
  then show ?thesis
  proof cases
    case 1
    then show ?thesis by (simp add: enc decode_rune_def rune_len_def Let_def)
  next
    case 2
    then have "2 \<le> q" "q < 32" using rq m by linarith+
    with m(1) have "decode_rune (char_of (0xC0 + q) # char_of (0x80 + r mod 64) # s) = (q * 64 + r mod 64, 2)"
      by (intro decode2)
    then show ?thesis using 2 by (simp only: enc rune_len_def rq [symmetric]) simp
  next
    case 3
    then have "p < 16" "p = 0 \<longrightarrow> 32 \<le> q mod 64" using rq qp m by linarith+
    moreover have "p = 13 \<longrightarrow> q mod 64 \<le> 31" using assms rq qp m unfolding rune_ok_def by linarith
    ultimately have "decode_rune (char_of (0xE0 + p) # char_of (0x80 + q mod 64) # char_of (0x80 + r mod 64) # s)
        = ((p * 64 + q mod 64) * 64 + r mod 64, 3)"
      using m by (intro decode3)
    then show ?thesis using 3 by (simp only: enc rune_len_def qp [symmetric] rq [symmetric]) simp
  next
    case 4
    then have "p div 64 = 0 \<longrightarrow> 16 \<le> p mod 64" using rq qp pp m by linarith
    moreover have "p div 64 \<le> 4" "p div 64 = 4 \<longrightarrow> p mod 64 \<le> 15"
      using assms rq qp pp m unfolding rune_ok_def by linarith+
    ultimately have "decode_rune (char_of (0xF0 + p div 64) # char_of (0x80 + p mod 64) # char_of (0x80 + q mod 64)
        # char_of (0x80 + r mod 64) # s) = (((p div 64 * 64 + p mod 64) * 64 + q mod 64) * 64 + r mod 64, 4)"
      using m by (intro decode4)
    then show ?thesis using 4
      by (simp only: enc rune_len_def pp [symmetric] qp [symmetric] rq [symmetric]) simp
  qed
qed

lemma runes_encode: "list_all rune_ok rs \<Longrightarrow> runes (concat (map encode_rune rs)) = rs"
proof (induction rs)
  case (Cons r rs)
  then show ?case
    by (subst runes.simps) (simp add: decode_encode)
qed simp

lemma rune_ok2: "0xC2 \<le> a \<Longrightarrow> a \<le> 0xDF \<Longrightarrow> b \<le> 0xBF \<Longrightarrow> rune_ok ((a - 0xC0) * 64 + (b - 0x80))"
proof -
  assume a: "0xC2 \<le> a" "a \<le> 0xDF" and b: "b \<le> 0xBF"
  then have "a - 0xC0 \<le> 31" "b - 0x80 \<le> 63" by linarith+
  then show ?thesis unfolding rune_ok_def by linarith
qed

lemma rune_ok3:
  assumes "a \<le> 0xEF" "b \<le> (if a = 0xED then 0x9F else 0xBF)" "c \<le> 0xBF" "0xE0 \<le> a"
  shows "rune_ok ((a - 0xE0) * 4096 + (b - 0x80) * 64 + (c - 0x80))"
proof -
  define x where "x = a - 0xE0"
  define y where "y = b - 0x80"
  define z where "z = c - 0x80"
  have "x \<le> 15" "y \<le> 63" "z \<le> 63" "x = 13 \<longrightarrow> y \<le> 31"
    using assms by (auto simp: x_def y_def z_def split: if_splits)
  then have "rune_ok (x * 4096 + y * 64 + z)"
    unfolding rune_ok_def by (cases "x = 13"; cases "x < 13") linarith+
  then show ?thesis by (simp only: x_def y_def z_def)
qed

lemma rune_ok4:
  assumes "a \<le> 0xF4" "(if a = 0xF0 then 0x90 else 0x80) \<le> b" "b \<le> (if a = 0xF4 then 0x8F else 0xBF)"
    "c \<le> 0xBF" "d \<le> 0xBF" "0xF0 \<le> a"
  shows "rune_ok ((a - 0xF0) * 262144 + (b - 0x80) * 4096 + (c - 0x80) * 64 + (d - 0x80))"
proof -
  define x where "x = a - 0xF0"
  define y where "y = b - 0x80"
  define z where "z = c - 0x80"
  define u where "u = d - 0x80"
  have "x \<le> 4" "y \<le> 63" "z \<le> 63" "u \<le> 63" "x = 4 \<longrightarrow> y \<le> 15" "x = 0 \<longrightarrow> 16 \<le> y"
    using assms by (auto simp: x_def y_def z_def u_def split: if_splits)
  then have "rune_ok (x * 262144 + y * 4096 + z * 64 + u)"
    unfolding rune_ok_def by (cases "x = 4"; cases "x = 0") linarith+
  then show ?thesis by (simp only: x_def y_def z_def u_def)
qed

lemma decode_rune_ok: "rune_ok (fst (decode_rune s))"
proof -
  let ?b = "byte (hd s)"
  have "rune_ok ?b" if "?b < 0x80" using that by (simp add: rune_ok_def)
  moreover have "rune_ok runeError" by (simp add: rune_ok_def runeError_def)
  moreover have "rune_ok ((?b - 0xC0) * 64 + (byte c - 0x80))" if "0xC2 \<le> ?b" "?b \<le> 0xDF" "second_ok ?b c" for c
    using that by (intro rune_ok2) (auto simp: second_ok_def split: if_splits)
  moreover have "rune_ok ((?b - 0xE0) * 4096 + (byte c - 0x80) * 64 + (byte d - 0x80))"
    if "0xE0 \<le> ?b" "?b \<le> 0xEF" "second_ok ?b c" "cont d" for c d
    using that by (intro rune_ok3) (auto simp: second_ok_def cont_def split: if_splits)
  moreover have "rune_ok ((?b - 0xF0) * 262144 + (byte c - 0x80) * 4096 + (byte d - 0x80) * 64 + (byte e - 0x80))"
    if "0xF0 \<le> ?b" "?b \<le> 0xF4" "second_ok ?b c" "cont d" "cont e" for c d e
    using that by (intro rune_ok4) (auto simp: second_ok_def cont_def split: if_splits)
  ultimately show ?thesis by (simp add: decode_rune_def Let_def)
qed

lemma runes_ok: "list_all rune_ok (runes s)"
proof (induction s rule: runes.induct)
  case (1 s)
  then show ?case using decode_rune_ok by (cases "s = []") (simp_all add: runes.simps [of s])
qed

end
