(* ===== verification/Control_Plane.thy ===== *)
theory Control_Plane
  imports Http_Api Base64 Go_Text
begin

unbundle bit_operations_syntax

text \<open>
  The control-plane calls of \<open>client/main.go\<close>, \<open>client/heartbeat.go\<close> and the trust clean-up
  of \<open>client/trust_cleanup_*.go\<close>: key conversion and derivation, peer status, the periodic
  state check that decides whether the pairing was revoked, the revocation request. Scalar
  multiplication on Curve25519 and the JSON codecs are parameters.
\<close>

section \<open>Keys\<close>

definition b64ToHex :: "string \<Rightarrow> string option" where
  "b64ToHex b64 = (case b64_decode b64 of None \<Rightarrow> None
     | Some raw \<Rightarrow> if length raw \<noteq> 32 then None else Some (hex_encode raw))"

definition clamp :: "string \<Rightarrow> string" where
  "clamp raw = raw[0 := char_of (byte (raw ! 0) AND 248), 31 := char_of ((byte (raw ! 31) AND 127) OR 64)]"

definition derivePubKey :: "(string \<Rightarrow> string option) \<Rightarrow> string \<Rightarrow> string option" where
  "derivePubKey x25519 privB64 = (case b64_decode privB64 of None \<Rightarrow> None
     | Some raw \<Rightarrow> if length raw \<noteq> 32 then None
         else (case x25519 (clamp raw) of None \<Rightarrow> None | Some pub \<Rightarrow> Some (b64_encode pub)))"

section \<open>Status calls\<close>

record cp_world =
  cp_ul :: url_lib
  cp_srv :: service
  cp_build :: build
  cp_x25519 :: "string \<Rightarrow> string option"
  cp_status :: "string \<Rightarrow> string option"  \<comment> \<open>the status field of the peer/status body\<close>
  cp_c2 :: "string \<Rightarrow> (string option \<times> string) option"  \<comment> \<open>byoc2 status, latest version\<close>
  cp_revoke_body :: "string \<Rightarrow> string option"

definition fetchPeerStatus :: "cp_world \<Rightarrow> string \<Rightarrow> string \<Rightarrow> go_err + string" where
  "fetchPeerStatus cp arena privB64 =
     (if privB64 = [] then Inr ''unknown''
      else (case derivePubKey (cp_x25519 cp) privB64 of
        None \<Rightarrow> Inl PrivErr
      | Some pubB64 \<Rightarrow> (case joinURL (cp_ul cp) arena ''/api/byoc2/peer/status'' of
          Inl e \<Rightarrow> Inl e
        | Inr endpoint \<Rightarrow> (case new_request (cp_ul cp) ''GET'' (endpoint @ ''?pubkey='' @ ul_escape (cp_ul cp) pubB64) None 5 of
            None \<Rightarrow> Inl NewRequestErr
          | Some r0 \<Rightarrow>
            (let r = set_header ''User-Agent'' (userAgent (cp_build cp) (b_version (cp_build cp)))
                       (set_header ''Accept'' ''application/json'' r0) in
             case cp_srv cp r of
               HttpFail e \<Rightarrow> Inl (DoErr e)
             | HttpReply st bd \<Rightarrow>
                 if st = 404 then Inr ''unknown''
                 else if st \<ge> 400 then Inl (HttpStatus st)
                 else (case cp_status cp bd of None \<Rightarrow> Inl DecodeErr
                   | Some s \<Rightarrow> Inr (if s = [] then ''unknown'' else s)))))))"

text \<open>The result is (revoked, latest version, error).\<close>

definition pingC2State :: "cp_world \<Rightarrow> string \<Rightarrow> string \<Rightarrow> string \<Rightarrow> bool \<times> string \<times> go_err option" where
  "pingC2State cp arena revToken privB64 =
     (if revToken = [] then
        (case fetchPeerStatus cp arena privB64 of
           Inl e \<Rightarrow> (False, [], Some e) | Inr stat \<Rightarrow> (stat = ''revoked'', [], None))
      else (case joinURL (cp_ul cp) arena ''/api/users/me/c2-state'' of
        Inl e \<Rightarrow> (False, [], Some e)
      | Inr endpoint \<Rightarrow> (case bearer_get (cp_ul cp) (cp_srv cp) (cp_build cp) 5 revToken endpoint of
          Inl e \<Rightarrow> (False, [], Some e)
        | Inr (st, bd) \<Rightarrow>
            if st = 401 then
              (case fetchPeerStatus cp arena privB64 of
                 Inl _ \<Rightarrow> (False, [], None)
               | Inr stat \<Rightarrow> if stat = ''active'' then (False, [], None) else (True, [], None))
            else if st \<ge> 400 then (False, [], Some (HttpStatus st))
            else (case cp_c2 cp bd of None \<Rightarrow> (False, [], Some DecodeErr)
              | Some (b2, ver) \<Rightarrow> (b2 = Some ''revoked'', ver, None)))))"

definition bestEffortRevoke :: "cp_world \<Rightarrow> string \<Rightarrow> string \<Rightarrow> go_err option" where
  "bestEffortRevoke cp arena privB64 =
     (if privB64 = [] then None
      else (case derivePubKey (cp_x25519 cp) privB64 of
        None \<Rightarrow> Some PrivErr
      | Some pubB64 \<Rightarrow> (case joinURL (cp_ul cp) arena ''/api/byoc2/peer/revoke'' of
          Inl e \<Rightarrow> Some e
        | Inr endpoint \<Rightarrow>
          (case doJSON (cp_ul cp) (cp_srv cp) httpClientTimeout ''POST'' endpoint
                  (userAgent (cp_build cp) (b_version (cp_build cp))) (Some (cp_revoke_body cp pubB64)) of
             Inl e \<Rightarrow> Some e
           | Inr (st, bd) \<Rightarrow> if st \<ge> 400 then Some (HttpStatus st) else None))))"

section \<open>Heartbeat\<close>

record heartbeatPayload =
  hb_PeerID :: string
  hb_KillSwitchArmed :: bool
  hb_KillSwitchInstallAt :: string

definition heartbeatInterval :: nat where "heartbeatInterval = 60"
definition heartbeatTimeout :: nat where "heartbeatTimeout = 5"

definition heartbeat_request :: "url_lib \<Rightarrow> (heartbeatPayload \<Rightarrow> string option) \<Rightarrow> string \<Rightarrow> string \<Rightarrow> string \<Rightarrow> string
    \<Rightarrow> bool \<Rightarrow> http_request option" where
  "heartbeat_request ul marshal arenaBaseURL installedAt peerID agentToken armed =
     (case marshal \<lparr>hb_PeerID = peerID, hb_KillSwitchArmed = armed, hb_KillSwitchInstallAt = installedAt\<rparr> of
        None \<Rightarrow> None
      | Some bdy \<Rightarrow>
          (case ul_parse ul (arenaBaseURL @ ''/api/byoc2/kill-switch-heartbeat'') of
             None \<Rightarrow> None
           | Some _ \<Rightarrow> Some (set_header ''Authorization'' (''Bearer '' @ agentToken)
               (set_header ''Content-Type'' ''application/json''
                 \<lparr>rq_method = ''POST'', rq_url = arenaBaseURL @ ''/api/byoc2/kill-switch-heartbeat'',
                  rq_headers = [], rq_body = Some bdy, rq_timeout = heartbeatTimeout\<rparr>))))"

text \<open>The posts of a heartbeat running for \<open>up\<close> seconds: one at once, then one per tick. All
  carry the \<open>armed\<close> flag given at the start.\<close>

definition startHeartbeat :: "url_lib \<Rightarrow> (heartbeatPayload \<Rightarrow> string option) \<Rightarrow> string \<Rightarrow> string \<Rightarrow> string \<Rightarrow> string
    \<Rightarrow> bool \<Rightarrow> nat \<Rightarrow> (nat \<times> http_request option) list" where
  "startHeartbeat ul marshal arenaBaseURL installedAt peerID agentToken armed up =
     map (\<lambda>k. (k * heartbeatInterval, heartbeat_request ul marshal arenaBaseURL installedAt peerID agentToken armed))
       [0..<Suc (up div heartbeatInterval)]"

section \<open>Trust clean-up\<close>

definition arenaTrustPath :: path where
  "arenaTrustPath = ''/usr/local/share/ca-certificates/arena-adaptix-teamserver.crt''"

definition cleanupPlatformArenaTrust_linux :: "faults \<Rightarrow> os \<Rightarrow> oserr option \<times> os" where
  "cleanupPlatformArenaTrust_linux flt w = (case os_Remove flt arenaTrustPath w of
     (Inl e, w1) \<Rightarrow> if e = NotExist then (None, w1) else (Some e, w1)
   | (Inr _, w1) \<Rightarrow> run_call flt [''update-ca-certificates''] w1)"

definition cleanupPlatformArenaTrust_windows :: "faults \<Rightarrow> os \<Rightarrow> oserr option \<times> os" where
  \<open>cleanupPlatformArenaTrust_windows flt w = run_call flt
     [''powershell.exe'', ''-NoProfile'', ''-NonInteractive'', ''-Command'',
      ''$store = New-Object Security.Cryptography.X509Certificates.X509Store('' @ [CHR 0x27] @ ''Root'' @ [CHR 0x27]
      @ '','' @ [CHR 0x27] @ ''LocalMachine'' @ [CHR 0x27]
      @ ''); try { $store.Open([Security.Cryptography.X509Certificates.OpenFlags]::ReadWrite); @($store.Certificates | Where-Object { $_.FriendlyName -eq ''
      @ [CHR 0x27] @ ''Arena Adaptix TeamServer'' @ [CHR 0x27]
      @ '' }) | ForEach-Object { $store.Remove($_) } } finally { $store.Close() }''] w\<close>

definition cleanupPlatformArenaTrust_other :: "os \<Rightarrow> oserr option \<times> os" where
  "cleanupPlatformArenaTrust_other w = (None, w)"

definition cleanupArenaTrust :: "(os \<Rightarrow> oserr option \<times> os) \<Rightarrow> os \<Rightarrow> os" where
  "cleanupArenaTrust cleanup w = snd (cleanup w)"

definition cleanupArenaTrustIfRevoked :: "(os \<Rightarrow> oserr option \<times> os) \<Rightarrow> bool \<Rightarrow> os \<Rightarrow> os" where
  "cleanupArenaTrustIfRevoked cleanup revoked w = (if revoked then cleanupArenaTrust cleanup w else w)"

section \<open>The scalar that reaches the curve\<close>

fun le_nat :: "string \<Rightarrow> nat" where
  "le_nat [] = 0"
| "le_nat (c # s) = byte c + 256 * le_nat s"

lemma le_nat_append: "le_nat (s @ t) = le_nat s + 256 ^ length s * le_nat t"
  by (induction s) (simp_all add: algebra_simps)

lemma le_nat_less: "le_nat s < 256 ^ length s"
proof (induction s)
  case (Cons c s)
  then have "256 * le_nat s + 256 \<le> 256 ^ length (c # s)" by simp
  moreover have "le_nat (c # s) < 256 * le_nat s + 256" using byte_lt [of c] by simp
  ultimately show ?case by linarith
qed simp

lemma and_248: "n < 256 \<Longrightarrow> (n AND 248) mod 8 = 0 \<and> n AND 248 < 256" for n :: nat
proof -
  assume "n < 256"
  have "take_bit 3 (n AND 248) = take_bit 3 n AND take_bit 3 248" by simp
  also have "take_bit 3 (248::nat) = 0" by simp
  finally have "(n AND 248) mod 8 = 0" by (simp add: take_bit_eq_mod)
  moreover have "take_bit 8 (n AND 248) = n AND 248"
    using \<open>n < 256\<close> by (simp add: take_bit_nat_eq_self)
  then have "n AND 248 < 256" using take_bit_nat_less_exp [of 8 "n AND 248"] by simp
  ultimately show ?thesis by simp
qed

lemma and_127_or_64: "64 \<le> (n AND 127) OR 64 \<and> (n AND 127) OR 64 < 128" for n :: nat
proof
  have "drop_bit 6 ((n AND 127) OR 64) = drop_bit 6 (n AND 127) OR 1" by simp
  then have "drop_bit 6 ((n AND 127) OR 64) \<noteq> 0" by (simp add: or_eq_0_iff)
  then show "64 \<le> (n AND 127) OR 64" by (simp add: drop_bit_eq_div div_eq_0_iff)
  have "take_bit 7 ((n AND 127) OR 64) = take_bit 7 (n AND 127) OR take_bit 7 64" by simp
  also have "take_bit 7 (n AND 127) = n AND 127"
  proof -
    have "n AND 127 = take_bit 7 n" by (simp add: take_bit_eq_mask mask_eq_exp_minus_1)
    then show ?thesis by simp
  qed
  finally have "take_bit 7 ((n AND 127) OR 64) = (n AND 127) OR 64" by simp
  then show "(n AND 127) OR 64 < 128" using take_bit_nat_less_exp [of 7 "(n AND 127) OR 64"] by simp
qed

lemma clamp_split:
  assumes "length raw = 32"
  shows "\<exists>s. length s = 30 \<and> clamp raw =
    char_of (byte (raw ! 0) AND 248) # s @ [char_of ((byte (raw ! 31) AND 127) OR 64)]"
proof -
  obtain c t where ct: "raw = c # t" using assms by (cases raw) auto
  then have t: "length t = 31" using assms by simp
  then obtain s d where sd: "t = s @ [d]" "length s = 30" by (cases t rule: rev_cases) auto
  have "(c # s @ [d])[0 := x, 31 := y] = x # s @ [y]" for x y
    using sd(2) by (simp add: list_update_append)
  moreover have "clamp raw = (c # s @ [d])[0 := char_of (byte (raw ! 0) AND 248), 31 := char_of ((byte (raw ! 31) AND 127) OR 64)]"
    by (simp only: clamp_def ct sd(1))
  ultimately show ?thesis using sd(2) by auto
qed

text \<open>
  The scalar \<open>derivePubKey\<close> hands to the curve is clamped as RFC 7748 asks, whatever
  the 32 bytes are: it is a multiple of 8 and lies between 2^254 and 2^255; and the result
  is the printed point for exactly the keys that decode to 32 bytes.
\<close>

lemma derivePubKey_clamped:
  assumes "derivePubKey x25519 k = Some pub"
  shows "\<exists>raw p. b64_decode k = Some raw \<and> length raw = 32 \<and> x25519 (clamp raw) = Some p \<and> b64_decode pub = Some p
    \<and> le_nat (clamp raw) mod 8 = 0 \<and> 2 ^ 254 \<le> le_nat (clamp raw) \<and> le_nat (clamp raw) < 2 ^ 255"
proof -
  from assms obtain raw p where r: "b64_decode k = Some raw" "length raw = 32" "x25519 (clamp raw) = Some p"
    "pub = b64_encode p"
    by (auto simp: derivePubKey_def split: option.splits if_splits)
  obtain s where s: "length s = 30" "clamp raw =
    char_of (byte (raw ! 0) AND 248) # s @ [char_of ((byte (raw ! 31) AND 127) OR 64)]"
    using clamp_split [OF r(2)] by blast
  let ?a = "byte (raw ! 0) AND 248" and ?z = "(byte (raw ! 31) AND 127) OR 64"
  note a = and_248 [OF byte_lt, of "raw ! 0"] and z = and_127_or_64 [of "byte (raw ! 31)"]
  have "le_nat (clamp raw) = byte (char_of ?a :: char) + 256 * (le_nat s + 256 ^ 30 * byte (char_of ?z :: char))"
    by (simp only: s le_nat.simps le_nat_append) simp
  then have v: "le_nat (clamp raw) = ?a + 256 * (le_nat s + 256 ^ 30 * ?z)" using a z by simp
  have "le_nat s < 256 ^ 30" using le_nat_less [of s] s(1) by simp
  define X where "X = ?a"
  define Y where "Y = le_nat s"
  define Z where "Z = ?z"
  have f: "X mod 8 = 0" "X < 256" "64 \<le> Z" "Z < 128" "Y < 256 ^ 30" "le_nat (clamp raw) = X + 256 * (Y + 256 ^ 30 * Z)"
    using a z v \<open>le_nat s < 256 ^ 30\<close> by (simp_all add: X_def Y_def Z_def)
  have e: "(256::nat) * 256 ^ 30 = 2 ^ 248" by simp
  have "(X + 256 * (Y + 256 ^ 30 * Z)) mod 8 = 0"
  proof -
    have "X + 256 * (Y + 256 ^ 30 * Z) = X + 8 * (32 * (Y + 256 ^ 30 * Z))" by simp
    then show ?thesis using f(1) by (metis mod_mult_self2)
  qed
  moreover have "2 ^ 254 \<le> X + 256 * (Y + 256 ^ 30 * Z)"
  proof -
    have "(2::nat) ^ 254 = 2 ^ 248 * 64" by simp
    also have "\<dots> \<le> 2 ^ 248 * Z" using f(3) by simp
    finally show ?thesis using e by (simp add: algebra_simps)
  qed
  moreover have "X + 256 * (Y + 256 ^ 30 * Z) < 2 ^ 255"
  proof -
    have "Y + 1 \<le> 256 ^ 30" using f(5) by simp
    then have "X + 256 * Y < 256 * 256 ^ 30" using f(2) by linarith
    then have "X + 256 * (Y + 256 ^ 30 * Z) < 2 ^ 248 * (Z + 1)" using e by (simp add: algebra_simps)
    also have "\<dots> \<le> 2 ^ 248 * 128" using f(4) by simp
    finally show ?thesis by simp
  qed
  ultimately show ?thesis using r f(6) by auto
qed

lemma derivePubKey_encode:
  "length raw = 32 \<Longrightarrow> derivePubKey Some (b64_encode raw) = Some (b64_encode (clamp raw))"
  by (simp add: derivePubKey_def)

lemma derivePubKey_clamped_witness:
  "le_nat (clamp (replicate 32 (CHR 0xFF))) mod 8 = 0"
proof -
  define k where "k = replicate 32 (CHR 0xFF)"
  have "length k = 32" by (simp add: k_def)
  from derivePubKey_clamped [OF derivePubKey_encode [OF this]]
  obtain raw where "b64_decode (b64_encode k) = Some raw" "le_nat (clamp raw) mod 8 = 0" by (elim exE conjE)
  then have "le_nat (clamp k) mod 8 = 0" by simp
  then show ?thesis by (simp only: k_def)
qed

text \<open>
  A WireGuard key goes to the device unchanged: the hexadecimal form \<open>b64ToHex\<close> makes
  of the base64 text of 32 bytes is 64 lower-case digits naming exactly those bytes, and any
  text that does not decode to 32 bytes is refused.
\<close>

lemma b64ToHex_exact:
  "(case b64ToHex b64 of
      Some h \<Rightarrow> \<exists>raw. b64_decode b64 = Some raw \<and> length raw = 32 \<and> h = hex_encode raw \<and> length h = 64 \<and> list_all is_hex h
    | None \<Rightarrow> \<not> (\<exists>raw. b64_decode b64 = Some raw \<and> length raw = 32))
   \<and> b64ToHex (b64_encode k) = (if length k = 32 then Some (hex_encode k) else None)"
  by (auto simp: b64ToHex_def hex_encode_hex split: option.splits)

section \<open>When a pairing counts as revoked\<close>

lemma pingC2State_cases:
  "fst (pingC2State cp arena tok priv) \<longleftrightarrow>
     (if tok = [] then fetchPeerStatus cp arena priv = Inr ''revoked''
      else (\<exists>endpoint st bd. joinURL (cp_ul cp) arena ''/api/users/me/c2-state'' = Inr endpoint
        \<and> bearer_get (cp_ul cp) (cp_srv cp) (cp_build cp) 5 tok endpoint = Inr (st, bd)
        \<and> (if st = 401 then (\<exists>s. fetchPeerStatus cp arena priv = Inr s \<and> s \<noteq> ''active'')
           else st < 400 \<and> (\<exists>ver. cp_c2 cp bd = Some (Some ''revoked'', ver)))))"
proof (cases "tok = []")
  case True
  then show ?thesis by (cases "fetchPeerStatus cp arena priv") (simp_all add: pingC2State_def)
next
  case False
  show ?thesis
  proof (cases "joinURL (cp_ul cp) arena ''/api/users/me/c2-state''")
    case (Inl e)
    with False show ?thesis by (simp add: pingC2State_def)
  next
    case (Inr endpoint)
    show ?thesis
    proof (cases "bearer_get (cp_ul cp) (cp_srv cp) (cp_build cp) 5 tok endpoint")
      case (Inl e)
      with Inr False show ?thesis by (simp add: pingC2State_def)
    next
      case r: (Inr sb)
      obtain st bd where sb: "sb = (st, bd)" by (cases sb)
      show ?thesis
        by (cases "fetchPeerStatus cp arena priv"; cases "cp_c2 cp bd")
          (use Inr r sb False in \<open>auto simp: pingC2State_def\<close>)
    qed
  qed
qed

text \<open>
  \<open>pingC2State\<close> reports a revocation in exactly three cases: without a token, when the
  key's status is "revoked"; with one, when a 2xx or 3xx answer says so; or when the token is
  refused (401) and the key's status came back as anything but "active", which includes
  "unknown" and any other word.
\<close>

lemma pingC2State_revoked_iff:
  "fst (pingC2State cp arena tok priv) \<longleftrightarrow>
     (if tok = [] then fetchPeerStatus cp arena priv = Inr ''revoked''
      else (\<exists>endpoint st bd. joinURL (cp_ul cp) arena ''/api/users/me/c2-state'' = Inr endpoint
        \<and> bearer_get (cp_ul cp) (cp_srv cp) (cp_build cp) 5 tok endpoint = Inr (st, bd)
        \<and> (if st = 401 then (\<exists>s. fetchPeerStatus cp arena priv = Inr s \<and> s \<noteq> ''active'')
           else st < 400 \<and> (\<exists>ver. cp_c2 cp bd = Some (Some ''revoked'', ver)))))"
  by (rule pingC2State_cases)

lemma fetchPeerStatus_outage:
  assumes "\<And>q. (\<exists>e. cp_srv cp q = HttpFail e) \<or> (\<exists>st bd. cp_srv cp q = HttpReply st bd \<and> 500 \<le> st)" "priv \<noteq> []"
  shows "\<exists>e. fetchPeerStatus cp arena priv = Inl e"
proof (cases "derivePubKey (cp_x25519 cp) priv")
  case (Some pub)
  show ?thesis
  proof (cases "joinURL (cp_ul cp) arena ''/api/byoc2/peer/status''")
    case (Inr ep)
    show ?thesis
    proof (cases "new_request (cp_ul cp) ''GET'' (ep @ ''?pubkey='' @ ul_escape (cp_ul cp) pub) None 5")
      case r: (Some r0)
      define q where "q = set_header ''User-Agent'' (userAgent (cp_build cp) (b_version (cp_build cp)))
                       (set_header ''Accept'' ''application/json'' r0)"
      have "fetchPeerStatus cp arena priv = (case cp_srv cp q of HttpFail e \<Rightarrow> Inl (DoErr e)
         | HttpReply st bd \<Rightarrow> if st = 404 then Inr ''unknown'' else if st \<ge> 400 then Inl (HttpStatus st)
             else (case cp_status cp bd of None \<Rightarrow> Inl DecodeErr | Some s \<Rightarrow> Inr (if s = [] then ''unknown'' else s)))"
        using assms(2) Some Inr r by (simp add: fetchPeerStatus_def q_def Let_def)
      with assms(1) [of q] show ?thesis by auto
    qed (use assms(2) Some Inr in \<open>simp add: fetchPeerStatus_def\<close>)
  qed (use assms(2) Some in \<open>simp add: fetchPeerStatus_def\<close>)
qed (use assms(2) in \<open>simp add: fetchPeerStatus_def\<close>)

text \<open>
  An outage never looks like a revocation: if every request fails or is answered with a
  server error, \<open>pingC2State\<close> does not report the pairing as revoked (for a key that is set).
\<close>

lemma outage_is_not_revocation:
  assumes "\<And>q. case cp_srv cp q of HttpFail _ \<Rightarrow> True | HttpReply st _ \<Rightarrow> 500 \<le> st" "priv \<noteq> []"
  shows "\<not> fst (pingC2State cp arena tok priv)"
proof -
  have s: "(\<exists>e. cp_srv cp q = HttpFail e) \<or> (\<exists>st bd. cp_srv cp q = HttpReply st bd \<and> 500 \<le> st)" for q
    using assms(1) [of q] by (cases "cp_srv cp q") auto
  obtain e where e: "fetchPeerStatus cp arena priv = Inl e" using fetchPeerStatus_outage [OF _ assms(2)] s by blast
  have st: "500 \<le> st" if "bearer_get (cp_ul cp) (cp_srv cp) (cp_build cp) 5 tok ep = Inr (st, bd)" for ep st bd
  proof -
    from bearer_get_header [OF that] obtain q where "cp_srv cp q = HttpReply st bd" by auto
    with s [of q] show ?thesis by auto
  qed
  show ?thesis
  proof
    assume "fst (pingC2State cp arena tok priv)"
    with e obtain ep st bd where "bearer_get (cp_ul cp) (cp_srv cp) (cp_build cp) 5 tok ep = Inr (st, bd)" "st < 400"
      unfolding pingC2State_cases by (auto split: if_splits)
    with st show False by fastforce
  qed
qed

section \<open>The trust clean-up\<close>

text \<open>
  The Linux trust clean-up touches only Arena's own certificate: no other file changes,
  the store is refreshed only after the file was removed, and when it reports success the
  file is gone; run again it does nothing.
\<close>

lemma trust_cleanup_exact:
  assumes "no_phantom flt" "cleanupPlatformArenaTrust_linux flt w = (r, w')"
  shows "(\<forall>q. q \<noteq> arenaTrustPath \<longrightarrow> os_files w' q = os_files w q)
    \<and> (r = None \<longrightarrow> os_files w' arenaTrustPath = None)
    \<and> (os_cmds w' \<noteq> os_cmds w \<longrightarrow> os_files w arenaTrustPath \<noteq> None \<and> os_files w' arenaTrustPath = None)"
  using assms
  by (auto simp: cleanupPlatformArenaTrust_linux_def run_call_def Let_def os_call_defs no_phantom_def
      split: option.splits if_splits)

lemma trust_cleanup_exact_witness:
  "os_files (snd (cleanupPlatformArenaTrust_linux (\<lambda>_. None)
     \<lparr>os_files = (\<lambda>_. Some \<lparr>f_data = ''c'', f_mode = 420\<rparr>), os_dirs = (\<lambda>_. None), os_cmds = [], os_tick = 0\<rparr>)) ''other''
   = Some \<lparr>f_data = ''c'', f_mode = 420\<rparr>"
  using trust_cleanup_exact [of "\<lambda>_. None"
      "\<lparr>os_files = (\<lambda>_. Some \<lparr>f_data = ''c'', f_mode = 420\<rparr>), os_dirs = (\<lambda>_. None), os_cmds = [], os_tick = 0\<rparr>",
      OF _ prod.collapse [symmetric]]
  by (simp add: no_phantom_def arenaTrustPath_def)

definition sample_cp :: cp_world where
  "sample_cp = \<lparr>cp_ul = sample_urls, cp_srv = (\<lambda>_. HttpReply 503 []), cp_build = sample_build, cp_x25519 = Some,
     cp_status = (\<lambda>_. None), cp_c2 = (\<lambda>_. None), cp_revoke_body = Some\<rparr>"

lemma outage_is_not_revocation_witness:
  "\<not> fst (pingC2State sample_cp ''a'' ''t'' ''k'')"
  by (rule outage_is_not_revocation) (simp_all add: sample_cp_def)

lemma pingC2State_revoked_iff_witness:
  "fst (pingC2State (sample_cp\<lparr>cp_srv := (\<lambda>q. if rq_headers q \<noteq> [] \<and> snd (last (rq_headers q)) = ''Bearer t''
      then HttpReply 401 [] else HttpReply 404 [])\<rparr>) ''a'' ''t'' [])"
  unfolding pingC2State_revoked_iff
  by (simp add: sample_cp_def joinURL_def sample_urls_def bearer_get_def new_request_def set_header_def Let_def
      fetchPeerStatus_def)

end
