(* ===== verification/Platform.thy ===== *)
theory Platform
  imports Kill_Switch Control_Plane
begin

text \<open>
  The functions \<open>client/main.go\<close> calls under the same name on every system, chosen by build
  tags: \<open>configureTUN\<close>, \<open>configureTunnelDNS\<close>, \<open>reconcileTUN\<close>, \<open>teardownTUN\<close>,
  \<open>installKillSwitch\<close>, \<open>teardownKillSwitch\<close> and the trust clean-up. A \<open>platform\<close> is one such
  choice; the locale states what \<open>runConnect\<close> relies on in all of them.
\<close>

section \<open>The interface\<close>

record platform =
  pf_configureTUN :: "string \<Rightarrow> networkProfile \<Rightarrow> os \<Rightarrow> tun_error option \<times> os"
  pf_configureDNS :: "networkProfile \<Rightarrow> os \<Rightarrow> tun_error option \<times> os"
  pf_reconcile :: "networkProfile \<Rightarrow> networkProfile \<Rightarrow> os \<Rightarrow> tun_error option \<times> os"
  pf_teardownTUN :: "networkProfile \<Rightarrow> os \<Rightarrow> os"
  pf_installKS :: "string list \<Rightarrow> os \<Rightarrow> ks_error option \<times> os"
  pf_teardownKS :: "os \<Rightarrow> os"
  pf_trust :: "os \<Rightarrow> oserr option \<times> os"

text \<open>The order in which Go walks the keys \<open>S\<close> of a map: any enumeration of them, \<open>ord\<close> says
  which; one that is none of \<open>S\<close> stands for the sorted one.\<close>

definition walk :: "(string set \<Rightarrow> string list) \<Rightarrow> string set \<Rightarrow> string list" where
  "walk ord S = (if distinct (ord S) \<and> set (ord S) = S then ord S else sorted_list_of_set S)"

lemma set_walk [simp]: "finite S \<Longrightarrow> set (walk ord S) = S"
  by (auto simp: walk_def)

lemma finite_routes [simp]: "finite (networkRouteSet np)"
  by (simp add: networkRouteSet_def)

definition linux_platform :: "faults \<Rightarrow> path_lib \<Rightarrow> path \<Rightarrow> string \<Rightarrow> (string set \<Rightarrow> string list) \<Rightarrow> platform" where
  "linux_platform flt pl marker tun ord =
     \<lparr>pf_configureTUN = configureTUN_linux flt tun,
      pf_configureDNS = configureTunnelDNS_linux flt tun,
      pf_reconcile = (\<lambda>prev nxt. reconcileTUN_linux flt tun (walk ord (networkRouteSet prev)) (walk ord (networkRouteSet nxt)) prev nxt),
      pf_teardownTUN = teardownTUN_linux flt tun,
      pf_installKS = installKillSwitch_linux flt pl marker tun,
      pf_teardownKS = teardownKillSwitch_linux flt marker,
      pf_trust = cleanupPlatformArenaTrust_linux flt\<rparr>"

definition windows_platform :: "faults \<Rightarrow> path_lib \<Rightarrow> path \<Rightarrow> string \<Rightarrow> (string set \<Rightarrow> string list) \<Rightarrow> bool
    \<Rightarrow> (string \<Rightarrow> bool) \<Rightarrow> (string \<Rightarrow> net_ip list option) \<Rightarrow> (string \<times> net_addr list option) list option \<Rightarrow> string \<Rightarrow> platform" where
  "windows_platform flt pl marker tun ord native parses lookup ifaces answer =
     \<lparr>pf_configureTUN = configureTUN_windows flt native parses,
      pf_configureDNS = configureTunnelDNS_windows flt native,
      pf_reconcile = (\<lambda>prev nxt. reconcileTUN_windows flt native (walk ord (networkRouteSet prev)) (walk ord (networkRouteSet nxt)) prev nxt),
      pf_teardownTUN = (\<lambda>np. teardownTUN_windows flt native),
      pf_installKS = installKillSwitch_windows flt pl marker lookup ifaces answer tun,
      pf_teardownKS = teardownKillSwitch_windows flt marker,
      pf_trust = cleanupPlatformArenaTrust_windows flt\<rparr>"

definition other_platform :: "string \<Rightarrow> platform" where
  "other_platform tun =
     \<lparr>pf_configureTUN = (\<lambda>ip np. configureTUN_other), pf_configureDNS = (\<lambda>np. configureTunnelDNS_other),
      pf_reconcile = (\<lambda>prev nxt. reconcileTUN_other), pf_teardownTUN = (\<lambda>np. teardownTUN_other),
      pf_installKS = installKillSwitch_other tun, pf_teardownKS = teardownKillSwitch_other,
      pf_trust = cleanupPlatformArenaTrust_other\<rparr>"

section \<open>What a call adds to the log\<close>

definition logs :: "(cmd \<Rightarrow> bool) \<Rightarrow> os \<Rightarrow> os \<Rightarrow> bool" where
  "logs P w w' \<longleftrightarrow> (\<exists>l. os_cmds w' = os_cmds w @ l \<and> list_all (\<lambda>e. P (fst e)) l)"

lemma logs_refl [simp]: "os_cmds w' = os_cmds w \<Longrightarrow> logs P w w'"
  by (simp add: logs_def)

lemma logs_trans [trans]: "logs P w w1 \<Longrightarrow> logs P w1 w2 \<Longrightarrow> logs P w w2"
  by (auto simp: logs_def)

lemma logs_mono: "logs P w w' \<Longrightarrow> (\<And>c. P c \<Longrightarrow> Q c) \<Longrightarrow> logs Q w w'"
  by (auto simp: logs_def list_all_iff)

lemma logs_one: "os_cmds w' = os_cmds w @ [(c, r)] \<Longrightarrow> P c \<Longrightarrow> logs P w w'"
  by (simp add: logs_def)

lemma logs_call: "run_call flt c w = (r, w') \<Longrightarrow> P c \<Longrightarrow> logs P w w'"
  using run_call_log [of flt c w r w'] by (auto intro: logs_one)

lemma logs_cmd: "run_cmd flt c w = (ok, w') \<Longrightarrow> P c \<Longrightarrow> logs P w w'"
  using run_cmd_log [of flt c w ok w'] by (auto intro: logs_one)

lemma logs_op: "cmd_op flt c w = (x, w') \<Longrightarrow> P c \<Longrightarrow> logs P w w'"
  using cmd_op_log [of flt c w x w'] by (auto intro: logs_one)

lemma logs_cmds: "list_all P cs \<Longrightarrow> logs P w (run_cmds flt cs w)"
proof (induction cs arbitrary: w)
  case (Cons c cs)
  have "logs P w (snd (run_cmd flt c w))"
    using Cons.prems by (intro logs_one [of _ _ c]) simp_all
  moreover have "logs P (snd (run_cmd flt c w)) (run_cmds flt (c # cs) w)" using Cons by simp
  ultimately show ?case by (rule logs_trans)
qed simp

lemma logs_withdraw:
  assumes "\<And>r s s1 x. r \<notin> keep \<Longrightarrow> r \<in> set rs \<Longrightarrow> del r s = (x, s1) \<Longrightarrow> logs P s s1"
  shows "logs P s (snd (withdraw del keep rs s))"
  using assms
proof (induction rs arbitrary: s)
  case (Cons r rs)
  have IH: "logs P v (snd (withdraw del keep rs v))" for v
    by (rule Cons.IH) (rule Cons.prems, simp_all)
  obtain x s1 where d: "del r s = (x, s1)" by (cases "del r s")
  show ?case
  proof (cases "r \<in> keep")
    case True
    with IH show ?thesis by simp
  next
    case False
    have 1: "logs P s s1" by (rule Cons.prems [OF False _ d]) simp
    from False d 1 logs_trans [OF 1 IH] show ?thesis by (cases x) simp_all
  qed
qed simp

lemma logs_install:
  assumes "\<And>r s s1 x. r \<in> set rs \<Longrightarrow> add r s = (x, s1) \<Longrightarrow> logs P s s1"
  shows "logs P s (snd (install_routes add present rs s))"
  using assms
proof (induction rs arbitrary: s)
  case (Cons r rs)
  have IH: "logs P v (snd (install_routes add present rs v))" for v
    by (rule Cons.IH) (rule Cons.prems, simp_all)
  obtain x s1 where d: "add r s = (x, s1)" by (cases "add r s")
  have 1: "logs P s s1" by (rule Cons.prems [OF _ d]) simp
  from IH d 1 logs_trans [OF 1 IH] show ?case by (cases "r \<in> present"; cases x) simp_all
qed simp

lemma logs_reconcile:
  assumes "\<And>r s s1 x. r \<in> set porder \<Longrightarrow> del r s = (x, s1) \<Longrightarrow> logs P s s1"
    and "\<And>r s s1 x. r \<in> set norder \<Longrightarrow> add r s = (x, s1) \<Longrightarrow> logs P s s1"
    and "\<And>s. logs P s (snd (dns s))"
  shows "logs P s (snd (reconcile_with add del dns porder norder prev nxt s))"
proof -
  obtain x s1 where w: "withdraw del nxt porder s = (x, s1)" by (cases "withdraw del nxt porder s")
  obtain y s2 where i: "install_routes add prev norder s1 = (y, s2)" by (cases "install_routes add prev norder s1")
  have 1: "logs P s s1" using logs_withdraw [of nxt porder del P s] assms(1) w by force
  have 2: "logs P s1 s2" using logs_install [of norder add P s1 prev] assms(2) i by force
  from 1 2 assms(3) [of s2] w i show ?thesis
    by (cases x; cases y) (auto simp: reconcile_with_def intro: logs_trans)
qed

section \<open>What \<open>runConnect\<close> relies on\<close>

definition device_cmd :: "cmd \<Rightarrow> bool" where
  "device_cmd c \<longleftrightarrow> c \<noteq> [] \<and> hd c \<in> {''tun.CreateTUN'', ''device.NewDevice'', ''net.ListenUDP'', ''dev.IpcSet'', ''dev.Up'',
     ''dev.Close'', ''tdev.Close'', ''udpConn.Close''}"

text \<open>
  \<open>installs\<close> is the route a command puts in force, \<open>sets_dns\<close> tells the commands that change
  the resolver. The platform functions never touch the devices; routes are only those of the
  profile at hand; only the two DNS steps change the resolver.
\<close>

locale platform_laws =
  fixes pf :: platform
    and installs :: "cmd \<Rightarrow> string option"
    and sets_dns :: "cmd \<Rightarrow> bool"
  assumes configure_log: "authorised_profile np \<Longrightarrow>
      logs (\<lambda>c. \<not> device_cmd c \<and> \<not> sets_dns c \<and> (\<forall>r. installs c = Some r \<longrightarrow> r \<in> networkRouteSet np)) w (snd (pf_configureTUN pf ip np w))"
    and dns_log: "logs (\<lambda>c. \<not> device_cmd c \<and> installs c = None) w (snd (pf_configureDNS pf np w))"
    and reconcile_log: "authorised_profile np \<Longrightarrow>
      logs (\<lambda>c. \<not> device_cmd c \<and> (\<forall>r. installs c = Some r \<longrightarrow> r \<in> networkRouteSet np)) w (snd (pf_reconcile pf cur np w))"
    and teardown_log: "logs (\<lambda>c. \<not> device_cmd c \<and> \<not> sets_dns c \<and> installs c = None) w (pf_teardownTUN pf np w)"
    and installKS_log: "logs (\<lambda>c. \<not> device_cmd c \<and> \<not> sets_dns c \<and> installs c = None) w (snd (pf_installKS pf hosts w))"
    and teardownKS_log: "logs (\<lambda>c. \<not> device_cmd c \<and> \<not> sets_dns c \<and> installs c = None) w (pf_teardownKS pf w)"
    and trust_log: "logs (\<lambda>c. \<not> device_cmd c \<and> \<not> sets_dns c \<and> installs c = None) w (snd (pf_trust pf w))"
    and device_quiet: "device_cmd c \<Longrightarrow> installs c = None \<and> \<not> sets_dns c"
begin

text \<open>The three things a whole run is judged by: no device call, no route but of an authorised
  profile, no change of the resolver.\<close>

definition confined :: "cmd \<Rightarrow> bool" where
  "confined c \<longleftrightarrow> (\<forall>r. installs c = Some r \<longrightarrow> (\<exists>np. authorised_profile np \<and> r \<in> networkRouteSet np))"

lemma logs_quiet:
  assumes "logs (\<lambda>c. \<not> device_cmd c \<and> \<not> sets_dns c \<and> installs c = None) w w'"
  shows "logs confined w w'" "logs (\<lambda>c. \<not> device_cmd c) w w'" "logs (\<lambda>c. \<not> sets_dns c) w w'"
  using assms by (auto elim: logs_mono simp: confined_def)

lemma logs_routes:
  assumes "logs (\<lambda>c. \<not> device_cmd c \<and> (\<forall>r. installs c = Some r \<longrightarrow> r \<in> networkRouteSet np)) w w'" "authorised_profile np"
  shows "logs confined w w'" "logs (\<lambda>c. \<not> device_cmd c) w w'"
  using assms(2) by (auto intro!: logs_mono [OF assms(1)] exI [of _ np] simp: confined_def)

end

section \<open>Linux\<close>

definition linux_installs :: "string \<Rightarrow> cmd \<Rightarrow> string option" where
  "linux_installs tun c = (case route_cmd tun c of Some (v, x) \<Rightarrow> if v = ''replace'' then Some x else None | None \<Rightarrow> None)"

definition linux_sets_dns :: "cmd \<Rightarrow> bool" where
  "linux_sets_dns c \<longleftrightarrow> take 2 c \<in> {[''resolvectl'', ''dns''], [''resolvectl'', ''domain''], [''resolvectl'', ''default-route'']}"

lemma route_cmd_hd: "route_cmd tun c = Some (v, x) \<Longrightarrow> c = [''ip'', ''route'', v, x, ''dev'', tun]"
  by (auto simp: route_cmd_def ip_route_def split: list.splits if_splits)

lemma linux_installs_eq: "linux_installs tun c = Some x \<Longrightarrow> c = [''ip'', ''route'', ''replace'', x, ''dev'', tun]"
  by (auto simp: linux_installs_def split: option.splits if_splits dest: route_cmd_hd)

lemma linux_installs_simps [simp]:
  "linux_installs tun (ip_route ''replace'' tun x) = Some x"
  "linux_installs tun (ip_route ''del'' tun x) = None"
  by (simp_all add: linux_installs_def)

lemma linux_quiet:
  assumes "c \<noteq> []" "hd c \<noteq> ''ip''"
  shows "linux_installs tun c = None"
  using linux_installs_eq [of tun c] assms by (cases "linux_installs tun c") auto

lemma not_device: "c \<noteq> [] \<Longrightarrow> hd c \<in> {''ip'', ''resolvectl'', ''iptables'', ''update-ca-certificates'', ''powershell'', ''powershell.exe'',
    ''AddRoute'', ''DeleteRoute'', ''SetDNS'', ''SetIPAddressesForFamily'', ''FlushIPAddresses'', ''IPInterface'', ''ipif.Set'',
    ''FlushDNS'', ''FlushRoutes''} \<Longrightarrow> \<not> device_cmd c"
  by (auto simp: device_cmd_def)

abbreviation linux_quiet_cmd :: "string \<Rightarrow> cmd \<Rightarrow> bool" where
  "linux_quiet_cmd tun c \<equiv> \<not> device_cmd c \<and> \<not> linux_sets_dns c \<and> linux_installs tun c = None"

lemma linux_quiet_cmds:
  "linux_quiet_cmd tun (iptables args)" "linux_quiet_cmd tun [''resolvectl'', ''revert'', tun]"
  "linux_quiet_cmd tun (ip_route ''del'' tun x)" "linux_quiet_cmd tun [''ip'', ''link'', ''set'', tun, ''down'']"
  "linux_quiet_cmd tun [''ip'', ''addr'', ''flush'', ''dev'', tun]" "linux_quiet_cmd tun [''update-ca-certificates'']"
  "linux_quiet_cmd tun [''ip'', ''addr'', ''add'', y, ''dev'', tun]" "linux_quiet_cmd tun [''ip'', ''link'', ''set'', tun, ''up'']"
proof -
  have q: "linux_installs tun c = None" if "\<And>x. c \<noteq> [''ip'', ''route'', ''replace'', x, ''dev'', tun]" for c
    using that linux_installs_eq [of tun c] by (cases "linux_installs tun c") auto
  show "linux_quiet_cmd tun (iptables args)" "linux_quiet_cmd tun [''resolvectl'', ''revert'', tun]"
    "linux_quiet_cmd tun (ip_route ''del'' tun x)" "linux_quiet_cmd tun [''ip'', ''link'', ''set'', tun, ''down'']"
    "linux_quiet_cmd tun [''ip'', ''addr'', ''flush'', ''dev'', tun]" "linux_quiet_cmd tun [''update-ca-certificates'']"
    "linux_quiet_cmd tun [''ip'', ''addr'', ''add'', y, ''dev'', tun]" "linux_quiet_cmd tun [''ip'', ''link'', ''set'', tun, ''up'']"
    by (auto intro!: q simp: device_cmd_def linux_sets_dns_def iptables_def ip_route_def)
qed

lemma linux_dns_logs: "logs (\<lambda>c. \<not> device_cmd c \<and> linux_installs tun c = None) w (snd (configureLinuxDNS flt tun np w))"
proof -
  obtain l where l: "os_cmds (snd (configureLinuxDNS flt tun np w)) = os_cmds w @ l" "resolvectl_log l"
    using configureLinuxDNS_log by blast
  have "\<not> device_cmd c \<and> linux_installs tun c = None" if "(c, r) \<in> set l" for c r
    using that l(2) linux_quiet [of c tun] not_device [of c] by (force simp: resolvectl_log_def)
  with l(1) show ?thesis by (auto simp: logs_def list_all_iff)
qed

lemma linux_add_cmd: "\<not> device_cmd (ip_route v tun r)" "\<not> linux_sets_dns (ip_route v tun r)"
  by (simp_all add: device_cmd_def linux_sets_dns_def ip_route_def)

lemma linux_add_logs: "r \<in> S \<Longrightarrow> linux_add flt tun r s = (x, s1) \<Longrightarrow>
    logs (\<lambda>c. \<not> device_cmd c \<and> \<not> linux_sets_dns c \<and> (\<forall>q. linux_installs tun c = Some q \<longrightarrow> q \<in> S)) s s1"
  unfolding linux_add_def by (erule logs_op) (simp add: linux_add_cmd)

lemma linux_del_logs: "linux_del flt tun r s = (x, s1) \<Longrightarrow> logs (linux_quiet_cmd tun) s s1"
  unfolding linux_del_def by (erule logs_op) (rule linux_quiet_cmds)

lemma linux_configure_logs:
  "logs (\<lambda>c. \<not> device_cmd c \<and> \<not> linux_sets_dns c \<and> (\<forall>q. linux_installs tun c = Some q \<longrightarrow> q \<in> networkRouteSet np))
     w (snd (configureTUN_linux flt tun ip np w))"
    (is "logs ?P w _")
proof -
  let ?c1 = "[''ip'', ''addr'', ''add'', ip @ ''/16'', ''dev'', tun]" and ?c2 = "[''ip'', ''link'', ''set'', tun, ''up'']"
  obtain ok1 w1 where 1: "run_cmd flt ?c1 w = (ok1, w1)" by (cases "run_cmd flt ?c1 w")
  obtain ok2 w2 where 2: "run_cmd flt ?c2 w1 = (ok2, w2)" by (cases "run_cmd flt ?c2 w1")
  have l1: "logs ?P w w1" by (rule logs_cmd [OF 1]) (use linux_quiet_cmds(7) [of "ip @ ''/16''" tun] in simp)
  have l2: "logs ?P w1 w2" by (rule logs_cmd [OF 2]) (use linux_quiet_cmds(8) in simp)
  have l3: "logs ?P w2 (snd (install_routes (linux_add flt tun) {} (networkProfileRouteCIDRs np) w2))"
    by (rule logs_install) (erule linux_add_logs [rotated], simp add: networkRouteSet_def)
  note l12 = logs_trans [OF l1 l2]
  from l1 l12 logs_trans [OF l12 l3] 1 2 show ?thesis
    by (cases ok1; cases ok2) (simp_all add: configureTUN_linux_def)
qed

lemma linux_reconcile_logs:
  assumes "set norder = networkRouteSet nxt"
  shows "logs (\<lambda>c. \<not> device_cmd c \<and> (\<forall>q. linux_installs tun c = Some q \<longrightarrow> q \<in> networkRouteSet nxt))
     w (snd (reconcileTUN_linux flt tun porder norder prev nxt w))"
  unfolding reconcileTUN_linux_def
proof (rule logs_reconcile)
  fix r s s1 x
  show "linux_del flt tun r s = (x, s1) \<Longrightarrow> logs (\<lambda>c. \<not> device_cmd c \<and> (\<forall>q. linux_installs tun c = Some q \<longrightarrow> q \<in> networkRouteSet nxt)) s s1"
    by (drule linux_del_logs) (erule logs_mono, simp)
  show "r \<in> set norder \<Longrightarrow> linux_add flt tun r s = (x, s1) \<Longrightarrow>
      logs (\<lambda>c. \<not> device_cmd c \<and> (\<forall>q. linux_installs tun c = Some q \<longrightarrow> q \<in> networkRouteSet nxt)) s s1"
    unfolding assms by (drule (1) linux_add_logs) (erule logs_mono, simp)
  show "logs (\<lambda>c. \<not> device_cmd c \<and> (\<forall>q. linux_installs tun c = Some q \<longrightarrow> q \<in> networkRouteSet nxt)) s (snd (configureLinuxDNS flt tun nxt s))"
    by (rule logs_mono [OF linux_dns_logs [of tun s flt nxt]]) simp
qed

lemma linux_teardown_logs: "logs (linux_quiet_cmd tun) w (teardownTUN_linux flt tun np w)"
  unfolding teardownTUN_linux_def
  by (rule logs_cmds) (use linux_quiet_cmds [where tun = tun] in \<open>auto simp: list_all_iff\<close>)

lemma append_rules_logs: "logs (linux_quiet_cmd tun) w (snd (append_rules flt rs w))"
proof (induction rs arbitrary: w)
  case (Cons r rs)
  let ?c = "iptables ([''-A'', killSwitchChain] @ r)"
  obtain ok w1 where 1: "run_cmd flt ?c w = (ok, w1)" by (cases "run_cmd flt ?c w")
  have "logs (linux_quiet_cmd tun) w w1" by (rule logs_cmd [OF 1]) (rule linux_quiet_cmds)
  from this logs_trans [OF this Cons.IH] 1 show ?case by (cases ok) simp_all
qed simp

lemma linux_installKS_logs: "logs (linux_quiet_cmd tun) w (snd (installKillSwitch_linux flt pl m t hosts w))"
proof -
  let ?N = "iptables [''-N'', killSwitchChain]" and ?F = "iptables [''-F'', killSwitchChain]"
  let ?D = "iptables [''-D'', ''OUTPUT'', ''-j'', killSwitchChain]" and ?I = "iptables [''-I'', ''OUTPUT'', ''1'', ''-j'', killSwitchChain]"
  have c: "logs (linux_quiet_cmd tun) v (snd (run_cmd flt (iptables args) v))" for v args
    by (rule logs_cmd [OF prod.collapse [symmetric]]) (rule linux_quiet_cmds)
  define w1 where "w1 = snd (run_cmd flt ?N w)"
  obtain f w2 where 2: "run_cmd flt ?F w1 = (f, w2)" by (cases "run_cmd flt ?F w1")
  obtain a w3 where 3: "append_rules flt (ks_rules t) w2 = (a, w3)" by (cases "append_rules flt (ks_rules t) w2")
  define w4 where "w4 = snd (run_cmd flt ?D w3)"
  obtain i w5 where 5: "run_cmd flt ?I w4 = (i, w5)" by (cases "run_cmd flt ?I w4")
  have l1: "logs (linux_quiet_cmd tun) w w1" unfolding w1_def by (rule c)
  have "logs (linux_quiet_cmd tun) w1 w2" using c [of w1 "[''-F'', killSwitchChain]"] 2 by simp
  note l2 = logs_trans [OF l1 this]
  have "logs (linux_quiet_cmd tun) w2 w3" using append_rules_logs [of tun w2 flt "ks_rules t"] 3 by simp
  note l3 = logs_trans [OF l2 this]
  have "logs (linux_quiet_cmd tun) w3 w4" unfolding w4_def by (rule c)
  note l4 = logs_trans [OF l3 this]
  have "logs (linux_quiet_cmd tun) w4 w5" using c [of w4 "[''-I'', ''OUTPUT'', ''1'', ''-j'', killSwitchChain]"] 5 by simp
  note l5 = logs_trans [OF l4 this]
  have l6: "logs (linux_quiet_cmd tun) w (drop_marker flt pl m w5)" using l5 by (rule logs_trans) simp
  show ?thesis using l2 l3 l5 l6 2 3 5
    by (cases f; cases a; cases i) (simp_all add: installKillSwitch_linux_def Let_def w1_def [symmetric] w4_def [symmetric])
qed

lemma linux_trust_logs: "logs (linux_quiet_cmd tun) w (snd (cleanupPlatformArenaTrust_linux flt w))"
proof -
  obtain x w1 where r: "os_Remove flt arenaTrustPath w = (x, w1)" by (cases "os_Remove flt arenaTrustPath w")
  have 1: "logs (linux_quiet_cmd tun) w w1" using file_calls_cmds(2) [of flt arenaTrustPath w] r by simp
  have "logs (linux_quiet_cmd tun) w1 (snd (run_call flt [''update-ca-certificates''] w1))"
    by (rule logs_call [OF prod.collapse [symmetric]]) (rule linux_quiet_cmds)
  from 1 logs_trans [OF 1 this] r show ?thesis
    by (cases x) (simp_all add: cleanupPlatformArenaTrust_linux_def)
qed

lemma linux_teardownKS_logs: "logs (linux_quiet_cmd tun) w (teardownKillSwitch_linux flt m w)"
proof -
  let ?cs = "[iptables [''-D'', ''OUTPUT'', ''-j'', killSwitchChain], iptables [''-F'', killSwitchChain], iptables [''-X'', killSwitchChain]]"
  have "logs (linux_quiet_cmd tun) w (run_cmds flt ?cs w)"
    by (rule logs_cmds) (use linux_quiet_cmds(1) in simp)
  also have "logs (linux_quiet_cmd tun) (run_cmds flt ?cs w) (teardownKillSwitch_linux flt m w)"
    unfolding teardownKillSwitch_linux_def by (rule logs_refl) (rule file_calls_cmds)
  finally show ?thesis .
qed

interpretation lp: platform_laws "linux_platform flt pl m tun ord" "linux_installs tun" linux_sets_dns
  for flt pl m tun ord
proof
  fix c
  show "device_cmd c \<Longrightarrow> linux_installs tun c = None \<and> \<not> linux_sets_dns c"
    by (cases c) (auto simp: device_cmd_def linux_sets_dns_def intro!: linux_quiet)
qed (simp_all add: linux_platform_def linux_configure_logs linux_dns_logs linux_reconcile_logs linux_teardown_logs
      linux_installKS_logs linux_teardownKS_logs linux_trust_logs configureTunnelDNS_linux_def)

section \<open>Windows\<close>

definition windows_installs :: "cmd \<Rightarrow> string option" where
  "windows_installs c = (case c of [v, x] \<Rightarrow> if v = ''AddRoute'' then Some x else None | _ \<Rightarrow> None)"

definition windows_sets_dns :: "cmd \<Rightarrow> bool" where
  "windows_sets_dns c \<longleftrightarrow> c \<noteq> [] \<and> hd c = ''SetDNS''"

abbreviation windows_quiet_cmd :: "cmd \<Rightarrow> bool" where
  "windows_quiet_cmd c \<equiv> \<not> device_cmd c \<and> \<not> windows_sets_dns c \<and> windows_installs c = None"

lemma windows_quiet_cmds:
  "windows_quiet_cmd (powershell s)" "windows_quiet_cmd [''DeleteRoute'', x]" "windows_quiet_cmd [''SetIPAddressesForFamily'', x]"
  "windows_quiet_cmd [''FlushIPAddresses'']" "windows_quiet_cmd [''IPInterface'']" "windows_quiet_cmd [''ipif.Set'']"
  "windows_quiet_cmd [''FlushDNS'']" "windows_quiet_cmd [''FlushRoutes'']"
  by (auto simp: device_cmd_def windows_sets_dns_def windows_installs_def powershell_def)

lemma windows_add_cmd: "\<not> device_cmd [''AddRoute'', x]" "\<not> windows_sets_dns [''AddRoute'', x]"
  "windows_installs [''AddRoute'', x] = Some x"
  by (auto simp: device_cmd_def windows_sets_dns_def windows_installs_def)

abbreviation windows_route_cmd :: "string set \<Rightarrow> cmd \<Rightarrow> bool" where
  "windows_route_cmd S c \<equiv> \<not> device_cmd c \<and> \<not> windows_sets_dns c \<and> (\<forall>q. windows_installs c = Some q \<longrightarrow> q \<in> S)"

lemma win_call_logs: "P c \<Longrightarrow> logs P w (snd (run_call flt c w))"
  by (rule logs_call [OF prod.collapse [symmetric]])

lemma win_add_routes_logs: "prefix_string ` set qs \<subseteq> S \<Longrightarrow> logs (windows_route_cmd S) w (snd (win_add_routes flt qs w))"
proof (induction qs arbitrary: w)
  case (Cons p qs)
  obtain r w1 where 1: "run_call flt [''AddRoute'', prefix_string p] w = (r, w1)" by (cases "run_call flt [''AddRoute'', prefix_string p] w")
  have l: "logs (windows_route_cmd S) w w1"
    by (rule logs_call [OF 1]) (use Cons.prems windows_add_cmd [of "prefix_string p"] in simp)
  have "logs (windows_route_cmd S) w1 (snd (win_add_routes flt qs w1))" using Cons by simp
  from l logs_trans [OF l this] 1 show ?case by (cases r) simp_all
qed simp

lemma win_set_ip_logs: "logs (windows_route_cmd S) w (snd (win_set_ip flt ip w))"
proof -
  let ?c = "[''SetIPAddressesForFamily'', ip @ ''/16'']"
  have q: "windows_route_cmd S ?c" "windows_route_cmd S [''FlushIPAddresses'']" using windows_quiet_cmds(3,4) by simp_all
  obtain r w1 where 1: "run_call flt ?c w = (r, w1)" by (cases "run_call flt ?c w")
  define w2 where "w2 = snd (run_call flt [''FlushIPAddresses''] w1)"
  have l1: "logs (windows_route_cmd S) w w1" by (rule logs_call [OF 1]) (use q(1) in simp)
  have "logs (windows_route_cmd S) w1 w2" unfolding w2_def by (rule win_call_logs) (use q(2) in simp)
  note l2 = logs_trans [OF l1 this]
  have "logs (windows_route_cmd S) w2 (snd (run_call flt ?c w2))" by (rule win_call_logs) (use q(1) in simp)
  note l3 = logs_trans [OF l2 this]
  from l1 l3 1 show ?thesis by (cases r) (simp_all add: win_set_ip_def Let_def w2_def [symmetric])
qed

lemma win_attempt_logs:
  assumes "prefix_string ` set qs \<subseteq> S"
  shows "logs (windows_route_cmd S) w (snd (win_attempt flt qs ip w))"
proof -
  obtain a w1 where 1: "win_add_routes flt qs w = (a, w1)" by (cases "win_add_routes flt qs w")
  obtain b w2 where 2: "win_set_ip flt ip w1 = (b, w2)" by (cases "win_set_ip flt ip w1")
  obtain c w3 where 3: "run_call flt [''IPInterface''] w2 = (c, w3)" by (cases "run_call flt [''IPInterface''] w2")
  obtain d w4 where 4: "run_call flt [''ipif.Set''] w3 = (d, w4)" by (cases "run_call flt [''ipif.Set''] w3")
  have l1: "logs (windows_route_cmd S) w w1" using win_add_routes_logs [OF assms, of w flt] 1 by simp
  have "logs (windows_route_cmd S) w1 w2" using win_set_ip_logs [of S w1 flt ip] 2 by simp
  note l2 = logs_trans [OF l1 this]
  have "logs (windows_route_cmd S) w2 w3" by (rule logs_call [OF 3]) (use windows_quiet_cmds(5) in simp)
  note l3 = logs_trans [OF l2 this]
  have "logs (windows_route_cmd S) w3 w4" by (rule logs_call [OF 4]) (use windows_quiet_cmds(6) in simp)
  note l4 = logs_trans [OF l3 this]
  from l1 l2 l3 l4 1 2 3 4 show ?thesis by (cases a; cases b; cases c; cases d) (simp_all add: win_attempt_def)
qed

lemma win_retry_logs:
  "prefix_string ` set qs \<subseteq> S \<Longrightarrow> logs (windows_route_cmd S) w (snd (win_retry n e flt qs ip w))"
proof (induction n arbitrary: e w)
  case (Suc n)
  obtain a w1 where 1: "win_attempt flt qs ip w = (a, w1)" by (cases "win_attempt flt qs ip w")
  have l: "logs (windows_route_cmd S) w w1" using win_attempt_logs [OF Suc.prems, of w flt ip] 1 by simp
  show ?case
  proof (cases a)
    case (AttemptRetry e')
    with 1 logs_trans [OF l Suc.IH [OF Suc.prems, of w1 e']] show ?thesis by simp
  qed (use 1 l in simp_all)
qed simp

lemma windows_configure_logs:
  assumes "authorised_profile np"
  shows "logs (windows_route_cmd (networkRouteSet np)) w (snd (configureTUN_windows flt native parses ip np w))"
  using win_retry_logs [of _ "networkRouteSet np"] parsed_CIDRs [OF assms]
  by (simp add: configureTUN_windows_def)

lemma windows_dns_logs: "logs (\<lambda>c. \<not> device_cmd c \<and> windows_installs c = None) w (snd (setWindowsDNS flt np w))"
proof -
  have c: "\<not> device_cmd (''SetDNS'' # args) \<and> windows_installs (''SetDNS'' # args) = None" for args
    by (auto simp: device_cmd_def windows_installs_def split: list.splits)
  from setWindowsDNS_log [of flt np w] show ?thesis
    by (elim disjE exE) (simp, erule logs_one, rule c)
qed

lemma windows_op_logs:
  "win_del flt r s = (x, s1) \<Longrightarrow> logs windows_quiet_cmd s s1"
  "r \<in> S \<Longrightarrow> win_add flt r s = (x, s1) \<Longrightarrow> logs (windows_route_cmd S) s s1"
proof -
  assume "win_del flt r s = (x, s1)"
  from win_del_log [OF this] windows_quiet_cmds(2) [of r] show "logs windows_quiet_cmd s s1"
    by (elim disjE exE conjE) (simp, erule logs_one, simp)
next
  assume r: "r \<in> S" and a: "win_add flt r s = (x, s1)"
  have q: "windows_route_cmd S [''AddRoute'', r]" using r windows_add_cmd [of r] by simp
  from win_add_log [OF a] show "logs (windows_route_cmd S) s s1"
    by (elim disjE exE conjE) (simp, erule logs_one, rule q)
qed

lemma windows_reconcile_logs:
  assumes "set norder = networkRouteSet nxt"
  shows "logs (\<lambda>c. \<not> device_cmd c \<and> (\<forall>q. windows_installs c = Some q \<longrightarrow> q \<in> networkRouteSet nxt))
     w (snd (reconcileTUN_windows flt native porder norder prev nxt w))" (is "logs ?P w _")
proof (cases native)
  case True
  have "logs ?P w (snd (reconcile_with (win_add flt) (win_del flt) (setWindowsDNS flt nxt) porder norder
      (networkRouteSet prev) (networkRouteSet nxt) w))"
  proof (rule logs_reconcile)
    fix r s s1 x
    show "win_del flt r s = (x, s1) \<Longrightarrow> logs ?P s s1" by (drule windows_op_logs(1)) (erule logs_mono, simp)
    show "r \<in> set norder \<Longrightarrow> win_add flt r s = (x, s1) \<Longrightarrow> logs ?P s s1"
      unfolding assms by (drule (1) windows_op_logs(2)) (erule logs_mono, simp)
    show "logs ?P s (snd (setWindowsDNS flt nxt s))" by (rule logs_mono [OF windows_dns_logs]) simp
  qed
  with True show ?thesis by (simp add: reconcileTUN_windows_def)
qed (simp add: reconcileTUN_windows_def)

lemma windows_installKS_logs:
  "logs windows_quiet_cmd w (snd (installKillSwitch_windows flt pl m lookup ifaces answer tun hosts w))"
proof -
  define A where "A = allow_scripts tun (detectLocalCIDRs tun ifaces) (resolve_hosts lookup hosts)"
  have p: "logs windows_quiet_cmd v (snd (run_cmd flt (powershell s) v))" for s v
    by (rule logs_cmd [OF prod.collapse [symmetric]]) (rule windows_quiet_cmds)
  have a: "logs windows_quiet_cmd v (snd (add_rules flt ss v))" for ss v
  proof (induction ss arbitrary: v)
    case (Cons s ss)
    obtain ok v1 where 1: "ps flt s v = (ok, v1)" by (cases "ps flt s v")
    then have l: "logs windows_quiet_cmd v v1" using p [of v s] by (simp add: ps_def)
    from l logs_trans [OF l Cons.IH] 1 show ?case by (cases ok) simp_all
  qed simp
  define w1 where "w1 = snd (ps flt removeRules w)"
  obtain x w2 where 2: "add_rules flt A w1 = (x, w2)" by (cases "add_rules flt A w1")
  obtain f w3 where 3: "ps flt (setOutbound ''Block'') w2 = (f, w3)" by (cases "ps flt (setOutbound ''Block'') w2")
  obtain q w4 where 4: "run_cmd flt (powershell queryOutbound) w3 = (q, w4)" by (cases "run_cmd flt (powershell queryOutbound) w3")
  have l1: "logs windows_quiet_cmd w w1" unfolding w1_def ps_def by (rule p)
  have "logs windows_quiet_cmd w1 w2" using a [of w1 A] 2 by simp
  note l2 = logs_trans [OF l1 this]
  have "logs windows_quiet_cmd w2 w3" using p [of w2] 3 by (metis ps_def snd_conv)
  note l3 = logs_trans [OF l2 this]
  have "logs windows_quiet_cmd w3 w4" using p [of w3 queryOutbound] 4 by simp
  note l4 = logs_trans [OF l3 this]
  have l5: "logs windows_quiet_cmd w (drop_marker flt pl m w4)" using l4 by (rule logs_trans) simp
  show ?thesis using l2 l3 l4 l5 2 3 4
    by (cases x; cases f; cases q)
      (simp_all add: installKillSwitch_windows_def Let_def A_def [symmetric] w1_def [symmetric])
qed

lemma windows_teardownKS_logs: "logs windows_quiet_cmd w (teardownKillSwitch_windows flt m w)"
proof -
  let ?cs = "[powershell (setOutbound ''Allow''), powershell removeRules]"
  have "logs windows_quiet_cmd w (run_cmds flt ?cs w)" by (rule logs_cmds) (use windows_quiet_cmds(1) in simp)
  also have "logs windows_quiet_cmd (run_cmds flt ?cs w) (teardownKillSwitch_windows flt m w)"
    unfolding teardownKillSwitch_windows_def by (rule logs_refl) (rule file_calls_cmds)
  finally show ?thesis .
qed

lemma windows_teardown_logs: "logs windows_quiet_cmd w (teardownTUN_windows flt native w)"
proof -
  have "logs windows_quiet_cmd w (run_cmds flt [[''FlushDNS''], [''FlushRoutes''], [''FlushIPAddresses'']] w)"
    by (rule logs_cmds) (use windows_quiet_cmds(4,7,8) in simp)
  then show ?thesis by (simp add: teardownTUN_windows_def)
qed

lemma windows_trust_logs: "logs windows_quiet_cmd w (snd (cleanupPlatformArenaTrust_windows flt w))"
  unfolding cleanupPlatformArenaTrust_windows_def
  by (rule win_call_logs) (simp add: device_cmd_def windows_sets_dns_def windows_installs_def)

interpretation wp: platform_laws "windows_platform flt pl m tun ord native parses lookup ifaces answer"
  windows_installs windows_sets_dns
  for flt pl m tun ord native parses lookup ifaces answer
proof
  fix c
  show "device_cmd c \<Longrightarrow> windows_installs c = None \<and> \<not> windows_sets_dns c"
    by (auto simp: device_cmd_def windows_sets_dns_def windows_installs_def split: list.splits)
next
  fix np w
  show "logs (\<lambda>c. \<not> device_cmd c \<and> windows_installs c = None) w
      (snd (pf_configureDNS (windows_platform flt pl m tun ord native parses lookup ifaces answer) np w))"
    using windows_dns_logs [of w flt np] by (simp add: windows_platform_def configureTunnelDNS_windows_def)
qed (simp_all add: windows_platform_def windows_configure_logs windows_reconcile_logs windows_teardown_logs
      windows_installKS_logs windows_teardownKS_logs windows_trust_logs)

interpretation op: platform_laws "other_platform tun" "\<lambda>_. None" "\<lambda>_. False" for tun
  by unfold_locales
    (simp_all add: other_platform_def configureTUN_other_def configureTunnelDNS_other_def reconcileTUN_other_def
      teardownTUN_other_def installKillSwitch_other_def teardownKillSwitch_other_def cleanupPlatformArenaTrust_other_def)

end
