(* ===== verification/Session_Id.thy ===== *)
theory Session_Id
  imports Go_Text
begin

text \<open>
  The correlation id both ends of a tunnel log: \<open>newSessionID\<close> of
  \<open>client/observability.go\<close> and \<open>server/main.go\<close>, and the server's validator
  \<open>sessionIDFromHeader\<close>. Entropy is an argument: \<open>None\<close> when \<open>rand.Read\<close> fails, otherwise
  the four bytes read; \<open>nanos\<close> is \<open>time.Now().UnixNano()\<close>.
\<close>

unbundle bit_operations_syntax

section \<open>Generation\<close>

definition newSessionID :: "string option \<Rightarrow> 64 word \<Rightarrow> string" where
  "newSessionID rnd nanos = (case rnd of
     None \<Rightarrow> hex08 (unat (nanos AND 0xffffffff))
   | Some b \<Rightarrow> hex_encode b)"

definition newSessionID_server :: "string option \<Rightarrow> 64 word \<Rightarrow> string" where
  "newSessionID_server rnd nanos = (case rnd of
     None \<Rightarrow> hex08 (unat (nanos AND 0xffffffff))
   | Some b \<Rightarrow> hex_encode b)"

section \<open>Validation\<close>

definition bad_id_char :: "char \<Rightarrow> bool" where
  "bad_id_char c \<longleftrightarrow> (byte c < 48 \<or> byte c > 57) \<and> (byte c < 97 \<or> byte c > 102)"

fun scan_id :: "string \<Rightarrow> bool" where
  "scan_id [] = True"
| "scan_id (c # cs) = (if bad_id_char c then False else scan_id cs)"

definition sessionIDFromHeader :: "string \<Rightarrow> string option" where
  "sessionIDFromHeader v = (if length v \<noteq> 8 then None else if scan_id v then Some v else None)"

lemma bad_id_char: "bad_id_char c \<longleftrightarrow> \<not> is_hex c"
  by (auto simp: bad_id_char_def is_hex_def)

lemma scan_id: "scan_id s \<longleftrightarrow> list_all is_hex s"
  by (induction s) (auto simp: bad_id_char)

lemma sessionIDFromHeader_hex:
  "sessionIDFromHeader v = Some s \<longleftrightarrow> s = v \<and> length v = 8 \<and> list_all is_hex v"
  by (auto simp: sessionIDFromHeader_def scan_id)

section \<open>The contract between the ends\<close>

text \<open>
  \<open>fresh\<close> makes an id from what the machine gives (\<open>given\<close> says which results of the
  entropy source are possible), \<open>accept\<close> validates a header.
\<close>

locale session_ids =
  fixes fresh :: "'r \<Rightarrow> string"
    and given :: "'r \<Rightarrow> bool"
    and accept :: "string \<Rightarrow> string option"
  assumes accept_exact: "accept v = Some s \<Longrightarrow> s = v"
    and accept_hex: "accept v = Some s \<Longrightarrow> length v = 8 \<and> list_all is_hex v"
    and fresh_accepted: "given r \<Longrightarrow> accept (fresh r) = Some (fresh r)"
begin

text \<open>The id a server uses: the header's when it is accepted, else a fresh one.\<close>

definition chosen :: "string \<Rightarrow> 'r \<Rightarrow> string" where
  "chosen header r = (case accept header of Some s \<Rightarrow> s | None \<Rightarrow> fresh r)"

lemma chosen_hex: "given r \<Longrightarrow> length (chosen h r) = 8 \<and> list_all is_hex (chosen h r)"
  using accept_hex [of h] accept_exact [of h] fresh_accepted [of r] accept_hex [of "fresh r" "fresh r"]
  by (cases "accept h") (simp_all add: chosen_def)

lemma shared_id: "given r \<Longrightarrow> chosen (fresh r) r' = fresh r"
  by (simp add: chosen_def fresh_accepted)

end

definition entropy_given :: "string option \<times> 64 word \<Rightarrow> bool" where
  "entropy_given r \<longleftrightarrow> (case fst r of None \<Rightarrow> True | Some b \<Rightarrow> length b = 4)"

lemma nanos_masked: "unat (nanos AND 0xffffffff) < 2 ^ 32" for nanos :: "64 word"
proof -
  have "(0xffffffff :: 64 word) = mask 32" by (simp add: mask_eq_exp_minus_1)
  then have "nanos AND 0xffffffff = take_bit 32 nanos" by (simp add: take_bit_eq_mask)
  then show ?thesis using take_bit_nat_less_exp [of 32 "unat nanos"] by (simp add: unsigned_take_bit_eq)
qed

lemma newSessionID_hex:
  "entropy_given (rnd, nanos) \<Longrightarrow> length (newSessionID rnd nanos) = 8 \<and> list_all is_hex (newSessionID rnd nanos)"
  using hex08_shape [OF nanos_masked]
  by (auto simp: newSessionID_def entropy_given_def hex_encode_hex split: option.splits)

interpretation csid: session_ids "\<lambda>(rnd, nanos). newSessionID rnd nanos" entropy_given sessionIDFromHeader
  by unfold_locales (auto simp: sessionIDFromHeader_hex newSessionID_hex)

interpretation ssid: session_ids "\<lambda>(rnd, nanos). newSessionID_server rnd nanos" entropy_given sessionIDFromHeader
proof -
  have "newSessionID_server = newSessionID" by (simp add: newSessionID_server_def newSessionID_def fun_eq_iff)
  then show "session_ids (\<lambda>(rnd, nanos). newSessionID_server rnd nanos) entropy_given sessionIDFromHeader"
    using csid.session_ids_axioms by simp
qed

section \<open>Properties\<close>

text \<open>
  \<open>sessionIDFromHeader\<close> accepts exactly the strings of eight lower-case hexadecimal
  digits, and returns them unchanged.
\<close>

lemma sessionIDFromHeader_iff:
  "sessionIDFromHeader v = (if length v = 8 \<and> set v \<subseteq> set ''0123456789abcdef'' then Some v else None)"
proof -
  have "is_hex c \<longleftrightarrow> c \<in> set ''0123456789abcdef''" for c
  proof
    assume "is_hex c"
    then have "byte c \<in> {48..57} \<union> {97..102}" by (auto simp: is_hex_def)
    also have "{48..57} \<union> {97..102} = set (map byte ''0123456789abcdef'')" by (simp add: atLeastAtMost_insertL [symmetric] set_eq_iff) presburger
    finally obtain d where "d \<in> set ''0123456789abcdef''" "byte c = byte d"
      unfolding set_map by (rule imageE)
    then show "c \<in> set ''0123456789abcdef''" by (simp only: of_char_eq_iff)
  qed (auto simp: is_hex_def)
  then show ?thesis by (auto simp: sessionIDFromHeader_def scan_id list_all_iff subset_iff)
qed

text \<open>
  Every id a client sends is the id the server logs, also when the random source
  failed and the clock was used instead; two different random draws give different ids.
\<close>

lemma session_id_correlates:
  assumes "entropy_given (rnd, nanos)"
  shows "sessionIDFromHeader (newSessionID rnd nanos) = Some (newSessionID rnd nanos)
    \<and> (\<forall>b b'. newSessionID (Some b) nanos = newSessionID (Some b') nanos \<longrightarrow> b = b')"
  using csid.fresh_accepted [OF assms] hex_encode_inject
  by (auto simp: newSessionID_def)

lemma session_id_correlates_witness:
  "sessionIDFromHeader (newSessionID (Some ''AbCd'') 0) = Some (newSessionID (Some ''AbCd'') 0)"
  using session_id_correlates [of "Some ''AbCd''" 0] by (simp add: entropy_given_def)

end
