(* ===== verification/Observability.thy ===== *)
theory Observability
  imports Session_Id
begin

text \<open>
  \<open>client/observability.go\<close>: the counters of a shovel session and the state derived from
  them, the box that keeps the first reason a session ended, and the sanitiser of error
  texts. The atomics are 64-bit words; times are milliseconds of the Unix epoch.
\<close>

section \<open>Counters\<close>

record tunnelMetrics =
  framesUp :: "64 word"
  bytesUp :: "64 word"
  framesDown :: "64 word"
  bytesDown :: "64 word"
  firstUpMs :: "64 word"
  firstDownMs :: "64 word"

definition noMetrics :: tunnelMetrics where
  "noMetrics = \<lparr>framesUp = 0, bytesUp = 0, framesDown = 0, bytesDown = 0, firstUpMs = 0, firstDownMs = 0\<rparr>"

definition markUp :: "nat \<Rightarrow> 64 word \<Rightarrow> tunnelMetrics \<Rightarrow> bool \<times> tunnelMetrics" where
  "markUp n now m = (let m1 = m\<lparr>framesUp := framesUp m + 1, bytesUp := bytesUp m + of_nat n\<rparr> in
     if firstUpMs m1 = 0 then (True, m1\<lparr>firstUpMs := now\<rparr>) else (False, m1))"

definition markDown :: "nat \<Rightarrow> 64 word \<Rightarrow> tunnelMetrics \<Rightarrow> bool \<times> tunnelMetrics" where
  "markDown n now m = (let m1 = m\<lparr>framesDown := framesDown m + 1, bytesDown := bytesDown m + of_nat n\<rparr> in
     if firstDownMs m1 = 0 then (True, m1\<lparr>firstDownMs := now\<rparr>) else (False, m1))"

definition stateControlConnected :: string where "stateControlConnected = ''CONTROL CONNECTED''"
definition stateLocalWgPacketSeen :: string where "stateLocalWgPacketSeen = ''LOCAL_WG_PACKET_SEEN''"
definition stateNoReturnTraffic :: string where "stateNoReturnTraffic = ''NO_RETURN_TRAFFIC''"
definition stateBidirectionalSeen :: string where "stateBidirectionalSeen = ''BIDIRECTIONAL_OBSERVED''"

definition dataPlaneDegradedAfterMs :: int where "dataPlaneDegradedAfterMs = 90 * 1000"

definition dataPlaneState :: "tunnelMetrics \<Rightarrow> 64 word \<Rightarrow> string" where
  "dataPlaneState m now =
     (if firstUpMs m = 0 then stateControlConnected
      else if firstDownMs m = 0 then
        (if sint (now - firstUpMs m) > dataPlaneDegradedAfterMs then stateNoReturnTraffic
         else stateLocalWgPacketSeen)
      else stateBidirectionalSeen)"

definition orNever :: "string \<Rightarrow> string" where
  "orNever s = (if s = [] then ''never'' else s)"

text \<open>\<open>Duration.String\<close> of a whole number of seconds.\<close>

definition secs_string :: "nat \<Rightarrow> string" where
  "secs_string d = (if d < 60 then dec d @ ''s''
     else if d < 3600 then dec (d div 60) @ ''m'' @ dec (d mod 60) @ ''s''
     else dec (d div 3600) @ ''h'' @ dec (d div 60 mod 60) @ ''m'' @ dec (d mod 60) @ ''s'')"

definition since_string :: "int \<Rightarrow> string" where
  "since_string d = (if d < 0 then CHR ''-'' # secs_string (nat (- d)) else secs_string (nat d))"

definition word_string :: "64 word \<Rightarrow> string" where
  "word_string x = (if sint x < 0 then CHR ''-'' # dec (nat (- sint x)) else dec (nat (sint x)))"

text \<open>\<open>upSecs\<close> and \<open>downSecs\<close> are the rounded \<open>time.Since\<close> of the two first packets.\<close>

definition snapshot :: "tunnelMetrics \<Rightarrow> string \<Rightarrow> 64 word \<Rightarrow> int \<Rightarrow> int \<Rightarrow> string" where
  "snapshot m sid now upSecs downSecs =
     (let upSince = (if sint (firstUpMs m) > 0 then since_string upSecs else []);
          downSince = (if sint (firstDownMs m) > 0 then since_string downSecs else [])
      in ''session='' @ sid @ '' up_frames='' @ word_string (framesUp m) @ '' up_bytes='' @ word_string (bytesUp m)
         @ '' up_first='' @ orNever upSince @ '' down_frames='' @ word_string (framesDown m)
         @ '' down_bytes='' @ word_string (bytesDown m) @ '' down_first='' @ orNever downSince
         @ '' state='' @ dataPlaneState m now)"

section \<open>The reason a session ended\<close>

record reasonBox =
  rb_set :: bool
  rb_s :: string

definition setf :: "string \<Rightarrow> reasonBox \<Rightarrow> reasonBox" where
  "setf s r = (if \<not> rb_set r then r\<lparr>rb_s := s, rb_set := True\<rparr> else r)"

definition get_reason :: "reasonBox \<Rightarrow> string" where
  "get_reason r = (if \<not> rb_set r then ''unknown'' else rb_s r)"

section \<open>Sanitising a reason\<close>

definition sanitizeMaxBytes :: nat where "sanitizeMaxBytes = 160"

definition is_control :: "nat \<Rightarrow> bool" where
  "is_control r \<longleftrightarrow> r < 0x20 \<or> r = 0x7f"

fun sanitize_loop :: "nat list \<Rightarrow> string \<Rightarrow> string" where
  "sanitize_loop [] b = b"
| "sanitize_loop (r # rs) b =
     (let size = (if is_control r then 1 else rune_len r) in
      if length b + size > sanitizeMaxBytes then b
      else if size = 1 \<and> is_control r then sanitize_loop rs (b @ '' '')
      else sanitize_loop rs (b @ encode_rune r))"

definition sanitizeReason :: "string option \<Rightarrow> string" where
  "sanitizeReason err = (case err of None \<Rightarrow> ''nil'' | Some s \<Rightarrow> sanitize_loop (runes s) [])"

section \<open>The first write wins\<close>

text \<open>
  A register that keeps the first value written to it, as the reason box and the two
  first-packet timestamps do. Events other than writes pass through (\<open>val\<close> is \<open>None\<close>);
  \<open>valid\<close> are the events whose value can be told from an empty register.
\<close>

locale first_wins =
  fixes put :: "'v \<Rightarrow> 's \<Rightarrow> 's" and get :: "'s \<Rightarrow> 'x option" and val :: "'v \<Rightarrow> 'x option"
    and valid :: "'v \<Rightarrow> bool"
  assumes put_get: "valid v \<Longrightarrow> get (put v s) = (case get s of None \<Rightarrow> val v | Some x \<Rightarrow> Some x)"
begin

lemma kept: "get s = Some x \<Longrightarrow> list_all valid vs \<Longrightarrow> get (fold put vs s) = Some x"
  by (induction vs arbitrary: s) (simp_all add: put_get)

lemma first: "get s = None \<Longrightarrow> list_all valid vs \<Longrightarrow>
    get (fold put vs s) = (case List.map_filter val vs of [] \<Rightarrow> None | x # _ \<Rightarrow> Some x)"
proof (induction vs arbitrary: s)
  case (Cons v vs)
  then show ?case by (cases "val v") (auto simp: put_get map_filter_simps kept)
qed (simp add: map_filter_simps)

end

text \<open>The marks of a session, in the order the atomics serialise them.\<close>

datatype mark = Up nat "64 word" | Down nat "64 word"

fun apply_mark :: "mark \<Rightarrow> tunnelMetrics \<Rightarrow> tunnelMetrics" where
  "apply_mark (Up n now) m = snd (markUp n now m)"
| "apply_mark (Down n now) m = snd (markDown n now m)"

fun mark_time :: "mark \<Rightarrow> 64 word" where
  "mark_time (Up n now) = now" | "mark_time (Down n now) = now"

fun up_time :: "mark \<Rightarrow> 64 word option" where
  "up_time (Up n now) = Some now" | "up_time (Down n now) = None"

fun down_time :: "mark \<Rightarrow> 64 word option" where
  "down_time (Up n now) = None" | "down_time (Down n now) = Some now"

interpretation rb: first_wins setf "\<lambda>r. if rb_set r then Some (rb_s r) else None" Some "\<lambda>_. True"
  by unfold_locales (simp add: setf_def)

interpretation up: first_wins apply_mark "\<lambda>m. if firstUpMs m = 0 then None else Some (firstUpMs m)"
  up_time "\<lambda>v. mark_time v \<noteq> 0"
proof
  fix v s
  assume "mark_time v \<noteq> 0"
  then show "(if firstUpMs (apply_mark v s) = 0 then None else Some (firstUpMs (apply_mark v s))) =
      (case if firstUpMs s = 0 then None else Some (firstUpMs s) of None \<Rightarrow> up_time v | Some x \<Rightarrow> Some x)"
    by (cases v) (simp_all add: markUp_def markDown_def Let_def)
qed

interpretation down: first_wins apply_mark "\<lambda>m. if firstDownMs m = 0 then None else Some (firstDownMs m)"
  down_time "\<lambda>v. mark_time v \<noteq> 0"
proof
  fix v s
  assume "mark_time v \<noteq> 0"
  then show "(if firstDownMs (apply_mark v s) = 0 then None else Some (firstDownMs (apply_mark v s))) =
      (case if firstDownMs s = 0 then None else Some (firstDownMs s) of None \<Rightarrow> down_time v | Some x \<Rightarrow> Some x)"
    by (cases v) (simp_all add: markUp_def markDown_def Let_def)
qed

section \<open>The observed state of a session\<close>

text \<open>What a session has seen, read off its marks.\<close>

definition observed :: "mark list \<Rightarrow> 64 word \<Rightarrow> string" where
  "observed ms now = (case List.map_filter up_time ms of
     [] \<Rightarrow> ''CONTROL CONNECTED''
   | t # _ \<Rightarrow> (if List.map_filter down_time ms \<noteq> [] then ''BIDIRECTIONAL_OBSERVED''
       else if sint (now - t) > 90000 then ''NO_RETURN_TRAFFIC'' else ''LOCAL_WG_PACKET_SEEN''))"

lemma fold_counts:
  "framesUp (fold apply_mark ms m) = framesUp m + of_nat (length (List.map_filter up_time ms))"
  "framesDown (fold apply_mark ms m) = framesDown m + of_nat (length (List.map_filter down_time ms))"
proof (induction ms arbitrary: m)
  case (Cons v ms)
  {
    case 1
    then show ?case by (cases v) (simp_all add: Cons markUp_def markDown_def Let_def map_filter_simps)
  next
    case 2
    then show ?case by (cases v) (simp_all add: Cons markUp_def markDown_def Let_def map_filter_simps)
  }
qed (simp_all add: map_filter_simps)

text \<open>
  (C31) After any interleaving of packets in the two directions, the reported state is the
  one the packets justify: nothing before the first outbound packet, degraded once 90
  seconds passed since the \<^emph>\<open>first\<close> outbound packet with none coming back, bidirectional
  from the first answer on; and every packet is counted exactly once.
\<close>

theorem dataPlaneState_observed:
  assumes "\<forall>v \<in> set ms. mark_time v \<noteq> 0"
  shows "dataPlaneState (fold apply_mark ms noMetrics) now = observed ms now
    \<and> framesUp (fold apply_mark ms noMetrics) = of_nat (length (List.map_filter up_time ms))
    \<and> framesDown (fold apply_mark ms noMetrics) = of_nat (length (List.map_filter down_time ms))"
proof -
  have v: "list_all (\<lambda>v. mark_time v \<noteq> 0) ms" using assms by (simp add: list_all_iff)
  have e: "firstUpMs noMetrics = 0" "firstDownMs noMetrics = 0" "framesUp noMetrics = 0" "framesDown noMetrics = 0"
    by (simp_all add: noMetrics_def)
  have "dataPlaneState (fold apply_mark ms noMetrics) now = observed ms now"
    using up.first [OF _ v, of noMetrics] down.first [OF _ v, of noMetrics] e
    by (auto simp: dataPlaneState_def observed_def stateControlConnected_def stateNoReturnTraffic_def
        stateLocalWgPacketSeen_def stateBidirectionalSeen_def dataPlaneDegradedAfterMs_def
        split: list.splits if_splits)
  then show ?thesis by (simp add: fold_counts e)
qed

theorem dataPlaneState_observed_witness:
  "dataPlaneState (fold apply_mark [Up 100 5, Up 60 7] noMetrics) 90006 = ''NO_RETURN_TRAFFIC''"
  using dataPlaneState_observed [of "[Up 100 5, Up 60 7]" 90006]
  by (simp add: observed_def map_filter_simps)

text \<open>The reason logged at a reconnect is the first one recorded, whatever follows it.\<close>

lemma reason_first_wins:
  "get_reason (fold setf rs \<lparr>rb_set = False, rb_s = []\<rparr>) = (case rs of [] \<Rightarrow> ''unknown'' | s # _ \<Rightarrow> s)"
  using rb.first [of "\<lparr>rb_set = False, rb_s = []\<rparr>" rs]
  by (auto simp: get_reason_def list_all_iff map_filter_simps split: list.splits if_splits)

section \<open>A sanitised reason cannot inject a log line\<close>

text \<open>The longest prefix of runes that fits, with the control characters blanked.\<close>

fun fitting :: "nat \<Rightarrow> nat list \<Rightarrow> nat list" where
  "fitting room [] = []"
| "fitting room (r # rs) = (let r' = (if is_control r then 0x20 else r) in
     if rune_len r' > room then [] else r' # fitting (room - rune_len r') rs)"

lemma space_rune: "encode_rune 32 = '' ''" "rune_len 32 = 1"
proof -
  have "byte (char_of (32::nat)) = byte (CHR '' '')" by simp
  then have "char_of (32::nat) = CHR '' ''" by (simp only: of_char_eq_iff)
  then show "encode_rune 32 = '' ''" by (simp add: encode_rune_def)
qed (simp add: rune_len_def)

lemma sanitize_loop_fitting:
  "length b \<le> 160 \<Longrightarrow> sanitize_loop rs b = b @ concat (map encode_rune (fitting (160 - length b) rs))"
proof (induction rs b rule: sanitize_loop.induct)
  case (2 r rs b)
  let ?r = "if is_control r then 0x20 else r"
  have s: "(if is_control r then 1 else rune_len r) = rune_len ?r" by (simp add: space_rune)
  show ?case
  proof (cases "length b + rune_len ?r > 160")
    case True
    with "2.prems" show ?thesis by (auto simp: sanitizeMaxBytes_def Let_def space_rune)
  next
    case False
    then have l: "length (b @ encode_rune ?r) \<le> 160" by simp
    have step: "sanitize_loop (r # rs) b = sanitize_loop rs (b @ encode_rune ?r)"
      using False by (auto simp: sanitizeMaxBytes_def Let_def space_rune)
    have "sanitize_loop rs (b @ encode_rune ?r) =
        b @ encode_rune ?r @ concat (map encode_rune (fitting (160 - length b - rune_len ?r) rs))"
      using 2 l False s by (cases "is_control r") (simp_all add: sanitizeMaxBytes_def space_rune diff_diff_eq)
    moreover have "\<not> rune_len ?r > 160 - length b" using False 2(3) by linarith
    ultimately show ?thesis using step by (simp add: Let_def)
  qed
qed simp

lemma fitting_length: "length (concat (map encode_rune (fitting room rs))) \<le> room"
proof (induction room rs rule: fitting.induct)
  case (2 room r rs)
  show ?case
  proof (cases "rune_len (if is_control r then 0x20 else r) > room")
    case False
    with "2.IH" [OF refl this] show ?thesis by (simp add: Let_def)
  qed (simp add: Let_def)
qed simp

lemma space_facts: "\<not> is_control 32" "rune_ok 32"
  by (simp_all add: is_control_def rune_ok_def)

lemma fitting_runes: "\<forall>r \<in> set (fitting room rs). \<not> is_control r"
proof (induction room rs rule: fitting.induct)
  case (2 room r rs)
  then show ?case by (cases "is_control r") (simp_all add: Let_def space_facts)
qed simp

lemma fitting_ok: "list_all rune_ok rs \<Longrightarrow> list_all rune_ok (fitting room rs)"
proof (induction room rs rule: fitting.induct)
  case (2 room r rs)
  then show ?case by (cases "is_control r") (simp_all add: Let_def space_facts)
qed simp

lemma byte_of_big: "0x80 \<le> 0x80 + (n::nat)" "0x80 \<le> 0xC0 + (n::nat)" "0x80 \<le> 0xE0 + (n::nat)" "0x80 \<le> 0xF0 + (n::nat)"
  by simp_all

lemma encode_no_control:
  assumes "\<not> is_control r" "rune_ok r" "c \<in> set (encode_rune r)"
  shows "byte c \<ge> 0x20 \<and> byte c \<noteq> 0x7f"
proof (cases "r < 0x80")
  case True
  with assms show ?thesis by (auto simp: encode_rune_def is_control_def)
next
  case False
  have top: "r div 262144 \<le> 4" using assms(2) div_le_mono [of r "0x10FFFF" 262144] by (simp add: rune_ok_def)
  have mid: "r < 0x10000 \<Longrightarrow> r div 4096 < 16" "r < 0x800 \<Longrightarrow> r div 64 < 32"
    by (rule less_mult_imp_div_less, simp)+
  have "\<exists>n :: nat. c = char_of n \<and> 0x80 \<le> n \<and> n < 256"
  proof -
    consider "r < 0x800" | "\<not> r < 0x800" "r < 0x10000" | "\<not> r < 0x10000" by linarith
    then show ?thesis
    proof cases
      case 1
      with False assms(3) have "c = char_of (0xC0 + r div 64) \<or> c = char_of (0x80 + r mod 64)"
        by (simp add: encode_rune_def)
      moreover have "0xC0 + r div 64 < 256" "0x80 + r mod 64 < 256" using mid(2) [OF 1] by simp_all
      ultimately show ?thesis by (metis byte_of_big)
    next
      case 2
      with False assms(3) have "c = char_of (0xE0 + r div 4096) \<or> c = char_of (0x80 + r div 64 mod 64) \<or> c = char_of (0x80 + r mod 64)"
        by (simp add: encode_rune_def)
      moreover have "0xE0 + r div 4096 < 256" "0x80 + r div 64 mod 64 < 256" "0x80 + r mod 64 < 256" using mid(1) [OF 2(2)] by simp_all
      ultimately show ?thesis by (metis byte_of_big)
    next
      case 3
      with False assms(3) have "c = char_of (0xF0 + r div 262144) \<or> c = char_of (0x80 + r div 4096 mod 64)
          \<or> c = char_of (0x80 + r div 64 mod 64) \<or> c = char_of (0x80 + r mod 64)"
        by (simp add: encode_rune_def)
      moreover have "0xF0 + r div 262144 < 256" "0x80 + r div 4096 mod 64 < 256" "0x80 + r div 64 mod 64 < 256"
        "0x80 + r mod 64 < 256" using top by simp_all
      ultimately show ?thesis by (metis byte_of_big)
    qed
  qed
  then show ?thesis by auto
qed

lemma sanitize_core:
  "length (sanitizeReason err) \<le> 160
   \<and> (\<forall>c \<in> set (sanitizeReason err). byte c \<ge> 0x20 \<and> byte c \<noteq> 0x7f)
   \<and> (\<forall>s. err = Some s \<longrightarrow> runes (sanitizeReason err) = fitting 160 (runes s))"
proof (cases err)
  case None
  then show ?thesis by (simp add: sanitizeReason_def)
next
  case (Some t)
  let ?f = "fitting 160 (runes t)"
  have s: "sanitizeReason err = concat (map encode_rune ?f)"
    using sanitize_loop_fitting [of "[]" "runes t"] Some by (simp add: sanitizeReason_def)
  have ok: "list_all rune_ok ?f" using fitting_ok runes_ok by blast
  have "byte c \<ge> 0x20 \<and> byte c \<noteq> 0x7f" if c: "c \<in> set (sanitizeReason err)" for c
  proof -
    from c s obtain r where "r \<in> set ?f" "c \<in> set (encode_rune r)" by auto
    with encode_no_control fitting_runes ok show ?thesis by (metis list_all_iff)
  qed
  then show ?thesis using s fitting_length [of 160 "runes t"] runes_encode [OF ok] Some by simp
qed

lemma sanitize_fits:
  "length (sanitizeReason e) \<le> 160" "list_all (\<lambda>c. byte c \<ge> 0x20 \<and> byte c \<noteq> 0x7f) (sanitizeReason e)"
  using sanitize_core [of e] by (simp_all add: list_all_iff)

text \<open>
  (C34) \<open>sanitizeReason\<close> makes any error text fit for one log line: at most 160 bytes, no
  control character, and valid UTF-8 made of whole characters: decoding it gives exactly
  the longest fitting prefix of the characters of the input, control characters blanked.
\<close>

theorem sanitizeReason_safe:
  "length (sanitizeReason err) \<le> 160
   \<and> (\<forall>c \<in> set (sanitizeReason err). byte c \<ge> 0x20 \<and> byte c \<noteq> 0x7f)
   \<and> (\<forall>s. err = Some s \<longrightarrow> runes (sanitizeReason err) = fitting 160 (runes s))"
  by (rule sanitize_core)

theorem sanitizeReason_safe_witness:
  "runes (sanitizeReason (Some ''bad'')) = fitting 160 (runes ''bad'')"
  using sanitizeReason_safe [of "Some ''bad''"] by simp

end
