(* ===== verification/Client_Shovel.thy ===== *)
theory Client_Shovel
  imports Observability
begin

text \<open>
  \<open>runShovel\<close> and \<open>runOneTunnel\<close> of \<open>client/main.go\<close>. A session is the state shared by the five
  goroutines and the body of one \<open>runOneTunnel\<close> call, a run any interleaving of their steps
  (\<open>se_step\<close>); a step ends at the next blocking call. \<open>writeWS\<close> is three steps (wait for the
  mutex, write, release), so overlapping writers would show. The client is the list of
  sessions \<open>runShovel\<close> has opened, all reading the one UDP socket.
\<close>

section \<open>Dialling\<close>

definition ws_headers :: "string \<Rightarrow> string \<Rightarrow> (string \<times> string) list" where
  "ws_headers arenaToken sid = (if arenaToken \<noteq> [] then [(''X-Arena-Token'', arenaToken)] else [])
     @ [(''X-Arena-Session'', sid)]"

text \<open>\<open>NetDialContext\<close>: where a connection to \<open>address\<close> really goes. \<open>hostname\<close> is
  \<open>url.URL.Hostname\<close>.\<close>

definition dial_override :: "(string \<Rightarrow> string) \<Rightarrow> string \<Rightarrow> string \<Rightarrow> string \<Rightarrow> string" where
  "dial_override hostname targetHost dialAddress address =
     (if dialAddress \<noteq> [] \<and> hostname address = targetHost then dialAddress else address)"

definition wssKeepaliveInterval :: nat where "wssKeepaliveInterval = 45"
definition wssReadTimeout :: nat where "wssReadTimeout = 90"

section \<open>A session\<close>

datatype in_msg = InBinary string | InPing string | InOther

datatype wframe = WPong string | WPing | WData string

datatype writer = PongWriter | PingWriter | DataWriter

datatype rd_pc = RdRead | RdPong string | RdPonging string | RdGot string | RdWait string | RdSend string | RdExit
datatype up_pc = UpRead | UpLock string | UpWriting string | UpExit
datatype ka_pc = KaWait | KaLock | KaWriting | KaExit

record session =
  se_id :: string
  se_done :: bool  \<comment> \<open>\<open>subCtx\<close> is cancelled\<close>
  se_wsOpen :: bool
  se_lock :: "writer option"  \<comment> \<open>\<open>writeMu\<close>\<close>
  se_wgPeer :: "string option"
  se_peerCh :: "string option"
  se_metrics :: tunnelMetrics
  se_reason :: reasonBox
  se_rd :: rd_pc
  se_up :: up_pc
  se_ka :: ka_pc
  se_watching :: bool
  se_last :: string
  se_stats :: bool
  se_result :: "string option"  \<comment> \<open>what \<open>runOneTunnel\<close> returned\<close>
  se_log :: "string list"
  se_wsIn :: "in_msg list"  \<comment> \<open>received and not yet read\<close>
  se_fromWS :: "string list"
  se_down :: "(string \<times> string option) list"  \<comment> \<open>payload, and the peer it was sent to unless dropped\<close>
  se_fromUDP :: "string list"
  se_toWS :: "wframe list"

definition new_session :: "string \<Rightarrow> session" where
  "new_session sid = \<lparr>se_id = sid, se_done = False, se_wsOpen = True, se_lock = None, se_wgPeer = None, se_peerCh = None,
     se_metrics = noMetrics, se_reason = \<lparr>rb_set = False, rb_s = []\<rparr>, se_rd = RdRead, se_up = UpRead, se_ka = KaWait,
     se_watching = True, se_last = [], se_stats = True, se_result = None, se_log = [], se_wsIn = [], se_fromWS = [],
     se_down = [], se_fromUDP = [], se_toWS = []\<rparr>"

text \<open>\<open>reason.setf(prefix, sanitizeReason(err))\<close> followed by the deferred \<open>cancel\<close>.\<close>

definition give_up :: "string \<Rightarrow> string \<Rightarrow> session \<Rightarrow> session" where
  "give_up prefix err s = s\<lparr>se_reason := setf (prefix @ sanitizeReason (Some err)) (se_reason s), se_done := True\<rparr>"

text \<open>The first datagram of a session names the peer.\<close>

definition note_peer :: "string \<Rightarrow> session \<Rightarrow> session" where
  "note_peer p s = (if se_wgPeer s = None
     then s\<lparr>se_wgPeer := Some p, se_peerCh := (case se_peerCh s of None \<Rightarrow> Some p | Some q \<Rightarrow> Some q)\<rparr> else s)"

definition wsReadMax :: nat where "wsReadMax = 65535"

text \<open>
  \<open>ctx\<close> is whether the parent context may be cancelled. Times, read errors, write errors and
  ticks are free. A write on a closed socket fails.
\<close>

inductive se_step :: "bool \<Rightarrow> session \<Rightarrow> session \<Rightarrow> bool" for ctx where
  Arrive: "se_wsOpen s \<Longrightarrow> se_step ctx s (s\<lparr>se_wsIn := se_wsIn s @ [m]\<rparr>)"
| RdBinary: "se_rd s = RdRead \<Longrightarrow> se_wsIn s = InBinary x # rest \<Longrightarrow>
     se_step ctx s (s\<lparr>se_rd := RdGot x, se_wsIn := rest, se_fromWS := se_fromWS s @ [x]\<rparr>)"
| RdPinged: "se_rd s = RdRead \<Longrightarrow> se_wsIn s = InPing d # rest \<Longrightarrow> se_step ctx s (s\<lparr>se_rd := RdPong d, se_wsIn := rest\<rparr>)"
| RdSkip: "se_rd s = RdRead \<Longrightarrow> se_wsIn s = InOther # rest \<Longrightarrow> se_step ctx s (s\<lparr>se_wsIn := rest\<rparr>)"
| RdError: "se_rd s = RdRead \<Longrightarrow> se_step ctx s (give_up ''wss read: '' e (s\<lparr>se_rd := RdExit\<rparr>))"
| PongLocked: "se_rd s = RdPong d \<Longrightarrow> se_lock s = None \<Longrightarrow> se_step ctx s (s\<lparr>se_rd := RdPonging d, se_lock := Some PongWriter\<rparr>)"
| PongWrote: "se_rd s = RdPonging d \<Longrightarrow> se_wsOpen s \<Longrightarrow>
     se_step ctx s (s\<lparr>se_rd := RdRead, se_lock := None, se_toWS := se_toWS s @ [WPong d]\<rparr>)"
| PongFailed: "se_rd s = RdPonging d \<Longrightarrow> se_step ctx s (give_up ''wss read: '' e (s\<lparr>se_rd := RdExit, se_lock := None\<rparr>))"
| RdPeer: "se_rd s = RdGot x \<Longrightarrow> se_wgPeer s = Some p \<Longrightarrow> se_step ctx s (s\<lparr>se_rd := RdSend x\<rparr>)"
| RdNoPeer: "se_rd s = RdGot x \<Longrightarrow> se_wgPeer s = None \<Longrightarrow> se_step ctx s (s\<lparr>se_rd := RdWait x\<rparr>)"
| RdChan: "se_rd s = RdWait x \<Longrightarrow> se_peerCh s = Some p \<Longrightarrow>
     se_step ctx s (s\<lparr>se_rd := RdSend x, se_wgPeer := Some p, se_peerCh := None\<rparr>)"
| RdCancel: "se_rd s = RdWait x \<Longrightarrow> se_done s \<Longrightarrow> se_step ctx s (s\<lparr>se_rd := RdExit\<rparr>)"
| RdDrop: "se_rd s = RdWait x \<Longrightarrow> se_step ctx s (s\<lparr>se_rd := RdRead, se_down := se_down s @ [(x, None)]\<rparr>)"
| RdSent: "se_rd s = RdSend x \<Longrightarrow> se_wgPeer s = Some p \<Longrightarrow> markDown (length x) now (se_metrics s) = (first, m) \<Longrightarrow>
     se_step ctx s (s\<lparr>se_rd := RdRead, se_down := se_down s @ [(x, Some p)], se_metrics := m,
       se_log := se_log s @ (if first then [stateBidirectionalSeen] else [])\<rparr>)"
| RdSendFailed: "se_rd s = RdSend x \<Longrightarrow> se_step ctx s (give_up ''udp write: '' e (s\<lparr>se_rd := RdExit\<rparr>))"
| UpData: "se_up s = UpRead \<Longrightarrow> length x \<le> wsReadMax \<Longrightarrow>
     se_step ctx s (note_peer p (s\<lparr>se_up := UpLock x, se_fromUDP := se_fromUDP s @ [x]\<rparr>))"
| UpError: "se_up s = UpRead \<Longrightarrow> se_step ctx s (give_up ''udp read: '' e (s\<lparr>se_up := UpExit\<rparr>))"
| UpLocked: "se_up s = UpLock x \<Longrightarrow> se_lock s = None \<Longrightarrow> se_step ctx s (s\<lparr>se_up := UpWriting x, se_lock := Some DataWriter\<rparr>)"
| UpWrote: "se_up s = UpWriting x \<Longrightarrow> se_wsOpen s \<Longrightarrow>
     se_step ctx s (s\<lparr>se_up := UpRead, se_lock := None, se_toWS := se_toWS s @ [WData x],
       se_metrics := snd (markUp (length x) now (se_metrics s))\<rparr>)"
| UpWriteFailed: "se_up s = UpWriting x \<Longrightarrow>
     se_step ctx s (give_up ''wss write: '' e (s\<lparr>se_up := UpExit, se_lock := None\<rparr>))"
| KaTick: "se_ka s = KaWait \<Longrightarrow> se_step ctx s (s\<lparr>se_ka := KaLock\<rparr>)"
| KaLocked: "se_ka s = KaLock \<Longrightarrow> se_lock s = None \<Longrightarrow> se_step ctx s (s\<lparr>se_ka := KaWriting, se_lock := Some PingWriter\<rparr>)"
| KaWrote: "se_ka s = KaWriting \<Longrightarrow> se_wsOpen s \<Longrightarrow>
     se_step ctx s (s\<lparr>se_ka := KaWait, se_lock := None, se_toWS := se_toWS s @ [WPing]\<rparr>)"
| KaFailed: "se_ka s = KaWriting \<Longrightarrow> se_step ctx s (s\<lparr>se_ka := KaExit, se_lock := None\<rparr>)"
| KaDone: "se_ka s = KaWait \<Longrightarrow> se_done s \<Longrightarrow> se_step ctx s (s\<lparr>se_ka := KaExit\<rparr>)"
| Watch: "se_watching s \<Longrightarrow> cur = dataPlaneState (se_metrics s) now \<Longrightarrow>
     se_step ctx s (if cur \<noteq> se_last s then s\<lparr>se_last := cur, se_log := se_log s @ [cur]\<rparr> else s)"
| WatchDone: "se_watching s \<Longrightarrow> se_done s \<Longrightarrow> se_step ctx s (s\<lparr>se_watching := False\<rparr>)"
| Stats: "se_stats s \<Longrightarrow> se_step ctx s (s\<lparr>se_log := se_log s @ [snapshot (se_metrics s) (se_id s) now upSecs downSecs]\<rparr>)"
| StatsDone: "se_stats s \<Longrightarrow> se_done s \<Longrightarrow> se_step ctx s (s\<lparr>se_stats := False\<rparr>)"
| Cancelled: "ctx \<Longrightarrow> se_step ctx s (s\<lparr>se_done := True\<rparr>)"
| Return: "se_done s \<Longrightarrow> se_result s = None \<Longrightarrow>
     se_step ctx s (s\<lparr>se_result := Some (get_reason (se_reason s)), se_wsOpen := False\<rparr>)"

section \<open>The reconnect loop\<close>

record client =
  cl_ctx :: bool  \<comment> \<open>the context is cancelled\<close>
  cl_connected :: bool  \<comment> \<open>something is in the \<open>connected\<close> channel, or was\<close>
  cl_sessions :: "session list"
  cl_returned :: bool

definition cl_init :: client where
  "cl_init = \<lparr>cl_ctx = False, cl_connected = False, cl_sessions = [], cl_returned = False\<rparr>"

definition idle_client :: "client \<Rightarrow> bool" where
  "idle_client c \<longleftrightarrow> \<not> cl_returned c \<and> list_all (\<lambda>s. se_result s \<noteq> None) (cl_sessions c)"

inductive cl_reach :: "client \<Rightarrow> bool" where
  start: "cl_reach cl_init"
| dial_failed: "cl_reach c \<Longrightarrow> idle_client c \<Longrightarrow> \<not> cl_ctx c \<Longrightarrow> cl_reach c"
| dialled: "cl_reach c \<Longrightarrow> idle_client c \<Longrightarrow> \<not> cl_ctx c \<Longrightarrow> entropy_given (rnd, nanos) \<Longrightarrow>
     cl_reach (c\<lparr>cl_sessions := cl_sessions c @ [new_session (newSessionID rnd nanos)], cl_connected := True\<rparr>)"
| loop_ended: "cl_reach c \<Longrightarrow> idle_client c \<Longrightarrow> cl_ctx c \<Longrightarrow> cl_reach (c\<lparr>cl_returned := True\<rparr>)"
| cancelled: "cl_reach c \<Longrightarrow> cl_reach (c\<lparr>cl_ctx := True\<rparr>)"
| moved: "cl_reach c \<Longrightarrow> i < length (cl_sessions c) \<Longrightarrow> se_step (cl_ctx c) (cl_sessions c ! i) s' \<Longrightarrow>
     cl_reach (c\<lparr>cl_sessions := (cl_sessions c)[i := s']\<rparr>)"

inductive_cases se_stepE: "se_step ctx s s'"

section \<open>Invariants of a session\<close>

text \<open>The mutex is held by exactly the goroutine that is writing.\<close>

definition lock_inv :: "session \<Rightarrow> bool" where
  "lock_inv s \<longleftrightarrow> (se_lock s = Some PongWriter \<longleftrightarrow> (\<exists>d. se_rd s = RdPonging d))
     \<and> (se_lock s = Some DataWriter \<longleftrightarrow> (\<exists>x. se_up s = UpWriting x))
     \<and> (se_lock s = Some PingWriter \<longleftrightarrow> se_ka s = KaWriting)"

lemmas session_defs = give_up_def note_peer_def

lemma lock_step: "se_step ctx s s' \<Longrightarrow> lock_inv s \<Longrightarrow> lock_inv s'"
  by (cases rule: se_step.cases, assumption) (auto simp: lock_inv_def session_defs)

text \<open>What was sent down is in the order read; frames are dropped only before the first one is
  delivered, and all go to one peer.\<close>

fun down_ok :: "string option \<Rightarrow> (string \<times> string option) list \<Rightarrow> bool" where
  "down_ok p [] = True"
| "down_ok p ((x, None) # r) = down_ok p r"
| "down_ok p ((x, Some q) # r) = (p = Some q \<and> list_all (\<lambda>e. snd e = Some q) r)"

lemma down_ok_deliver: "down_ok p xs \<Longrightarrow> p = Some q \<Longrightarrow> down_ok p (xs @ [(x, Some q)])"
  by (induction p xs rule: down_ok.induct) auto

lemma down_ok_drop: "list_all (\<lambda>e. snd e = None) xs \<Longrightarrow> down_ok p (xs @ [(x, None)])"
  by (induction xs) auto

lemma down_ok_None: "down_ok None xs \<longleftrightarrow> list_all (\<lambda>e. snd e = None) xs"
  by (induction "None :: string option" xs rule: down_ok.induct) auto

lemma down_ok_all_dropped: "list_all (\<lambda>e. snd e = None) xs \<Longrightarrow> down_ok p xs"
  by (induction xs) auto

definition peer_inv :: "session \<Rightarrow> bool" where
  "peer_inv s \<longleftrightarrow> (se_peerCh s \<noteq> None \<longrightarrow> se_peerCh s = se_wgPeer s)
     \<and> down_ok (se_wgPeer s) (se_down s)
     \<and> ((\<exists>x. se_rd s = RdWait x) \<longrightarrow> list_all (\<lambda>e. snd e = None) (se_down s))
     \<and> ((\<exists>x. se_rd s = RdSend x) \<longrightarrow> se_wgPeer s \<noteq> None)"

lemma peer_step:
  assumes "se_step ctx s s'" "peer_inv s"
  shows "peer_inv s'"
  using assms(1)
proof cases
  case (RdChan x p)
  with assms(2) have "se_wgPeer s = Some p" by (simp add: peer_inv_def)
  with RdChan assms(2) show ?thesis by (simp add: peer_inv_def)
qed (use assms(2) in \<open>auto simp: peer_inv_def session_defs down_ok_deliver down_ok_drop down_ok_None
  down_ok_all_dropped split: option.splits\<close>)

text \<open>Payloads: read, in flight and written.\<close>

fun pending_rd :: "rd_pc \<Rightarrow> string list" where
  "pending_rd (RdGot x) = [x]" | "pending_rd (RdWait x) = [x]" | "pending_rd (RdSend x) = [x]" | "pending_rd _ = []"

fun pending_up :: "up_pc \<Rightarrow> string list" where
  "pending_up (UpLock x) = [x]" | "pending_up (UpWriting x) = [x]" | "pending_up _ = []"

fun datas :: "wframe list \<Rightarrow> string list" where
  "datas [] = []" | "datas (WData x # fs) = x # datas fs" | "datas (WPing # fs) = datas fs" | "datas (WPong _ # fs) = datas fs"

lemma datas_append [simp]: "datas (xs @ ys) = datas xs @ datas ys"
  by (induction xs rule: datas.induct) auto

definition rd_flow :: "session \<Rightarrow> bool" where
  "rd_flow s \<longleftrightarrow> se_fromWS s = map fst (se_down s) @ pending_rd (se_rd s)
     \<or> se_rd s = RdExit \<and> (\<exists>x. se_fromWS s = map fst (se_down s) @ [x])"

definition up_flow :: "session \<Rightarrow> bool" where
  "up_flow s \<longleftrightarrow> (se_fromUDP s = datas (se_toWS s) @ pending_up (se_up s)
       \<or> se_up s = UpExit \<and> (\<exists>x. se_fromUDP s = datas (se_toWS s) @ [x]))
     \<and> framesUp (se_metrics s) = of_nat (length (datas (se_toWS s)))"

lemma markUp_frames [simp]: "framesUp (snd (markUp n now m)) = framesUp m + 1"
  "framesDown (snd (markUp n now m)) = framesDown m"
  by (simp_all add: markUp_def Let_def)

lemma markDown_frames: "markDown n now m = (b, m') \<Longrightarrow> framesUp m' = framesUp m \<and> framesDown m' = framesDown m + 1"
  by (auto simp: markDown_def Let_def split: if_splits)

lemma rd_flow_step: "se_step ctx s s' \<Longrightarrow> rd_flow s \<Longrightarrow> rd_flow s'"
  by (cases rule: se_step.cases, assumption) (auto simp: rd_flow_def session_defs split: if_splits)

lemma up_flow_step: "se_step ctx s s' \<Longrightarrow> up_flow s \<Longrightarrow> up_flow s'"
  by (cases rule: se_step.cases, assumption) (auto simp: up_flow_def session_defs dest: markDown_frames split: if_splits)

text \<open>The end of a session.\<close>

definition end_inv :: "session \<Rightarrow> bool" where
  "end_inv s \<longleftrightarrow> (se_wsOpen s \<longleftrightarrow> se_result s = None) \<and> (se_result s \<noteq> None \<longrightarrow> se_done s)
     \<and> (se_rd s = RdExit \<or> se_up s = UpExit \<longrightarrow> se_done s)
     \<and> sessionIDFromHeader (se_id s) = Some (se_id s)"

lemma end_step: "se_step ctx s s' \<Longrightarrow> end_inv s \<Longrightarrow> end_inv s'"
  by (cases rule: se_step.cases, assumption) (auto simp: end_inv_def session_defs split: if_splits)

section \<open>Lifting to the client\<close>

locale session_invariant =
  fixes P :: "session \<Rightarrow> bool"
  assumes P_new: "sessionIDFromHeader sid = Some sid \<Longrightarrow> P (new_session sid)"
    and P_step: "se_step ctx s s' \<Longrightarrow> P s \<Longrightarrow> P s'"
begin

lemma everywhere: "cl_reach c \<Longrightarrow> list_all P (cl_sessions c)"
proof (induction rule: cl_reach.induct)
  case (dialled c rnd nanos)
  then show ?case using P_new csid.fresh_accepted [of "(rnd, nanos)"] by simp
next
  case (moved c i s')
  then show ?case using P_step [OF moved.hyps(3)] by (simp add: list_all_length nth_list_update)
qed (simp_all add: cl_init_def)

lemma each: "cl_reach c \<Longrightarrow> s \<in> set (cl_sessions c) \<Longrightarrow> P s"
  using everywhere by (simp add: list_all_iff)

end

interpretation lock: session_invariant lock_inv
  by unfold_locales (simp add: lock_inv_def new_session_def, rule lock_step)

interpretation peer: session_invariant peer_inv
  by unfold_locales (simp add: peer_inv_def new_session_def, rule peer_step)

interpretation rdflow: session_invariant rd_flow
  by unfold_locales (simp add: rd_flow_def new_session_def, rule rd_flow_step)

interpretation upflow: session_invariant up_flow
  by unfold_locales (simp add: up_flow_def new_session_def noMetrics_def, rule up_flow_step)

interpretation ending: session_invariant end_inv
  by unfold_locales (simp add: end_inv_def new_session_def, rule end_step)

text \<open>All sessions but the last have returned.\<close>

lemma earlier_returned: "cl_reach c \<Longrightarrow> Suc i < length (cl_sessions c) \<Longrightarrow> se_result (cl_sessions c ! i) \<noteq> None"
proof (induction arbitrary: i rule: cl_reach.induct)
  case (dialled c rnd nanos)
  then show ?case by (auto simp: idle_client_def list_all_length nth_append)
next
  case (moved c j s')
  have keep: "se_result s \<noteq> None \<Longrightarrow> se_result s' \<noteq> None" if "se_step ctx s s'" for ctx s
    using that by cases (auto simp: session_defs split: if_splits)
  show ?case
    by (cases "i = j") (use moved.IH [of i] moved.prems keep [OF moved.hyps(3)] in \<open>simp_all add: nth_list_update\<close>)
qed (simp_all add: cl_init_def)

section \<open>A session that has returned\<close>

text \<open>Writes on its socket fail, so it takes at most one more datagram from the shared UDP
  socket, and that one is lost.\<close>

definition stale :: "nat \<Rightarrow> wframe list \<Rightarrow> session \<Rightarrow> bool" where
  "stale n out s \<longleftrightarrow> se_result s \<noteq> None \<and> \<not> se_wsOpen s \<and> se_done s \<and> se_toWS s = out
     \<and> length (se_fromUDP s) + (if se_up s = UpRead then 1 else 0) \<le> n"

lemma stale_step: "se_step ctx s s' \<Longrightarrow> stale n out s \<Longrightarrow> stale n out s'"
  by (cases rule: se_step.cases, assumption) (auto simp: stale_def session_defs split: if_splits)

lemma stale_run: "(se_step ctx)\<^sup>*\<^sup>* s s' \<Longrightarrow> stale n out s \<Longrightarrow> stale n out s'"
  by (induction rule: rtranclp_induct) (auto intro: stale_step)

section \<open>The reason of a reconnect\<close>

definition plain :: "string \<Rightarrow> bool" where
  "plain r \<longleftrightarrow> length r \<le> 171 \<and> list_all (\<lambda>c. byte c \<ge> 0x20 \<and> byte c \<noteq> 0x7f) r"

definition reason_inv :: "session \<Rightarrow> bool" where
  "reason_inv s \<longleftrightarrow> plain (get_reason (se_reason s)) \<and> (case se_result s of None \<Rightarrow> True | Some r \<Rightarrow> plain r)"

lemma plain_reason: "plain (''wss read: '' @ sanitizeReason e)" "plain (''wss write: '' @ sanitizeReason e)"
  "plain (''udp read: '' @ sanitizeReason e)" "plain (''udp write: '' @ sanitizeReason e)" "plain ''unknown''"
  using sanitize_fits [of e] by (simp_all add: plain_def)

lemma get_setf: "get_reason (setf r b) = (if rb_set b then get_reason b else r)"
  by (simp add: get_reason_def setf_def)

lemma reason_step: "se_step ctx s s' \<Longrightarrow> reason_inv s \<Longrightarrow> reason_inv s'"
  by (cases rule: se_step.cases, assumption)
    (use plain_reason in \<open>auto simp: reason_inv_def session_defs get_setf split: if_splits\<close>)

interpretation reason: session_invariant reason_inv
  by unfold_locales (simp add: reason_inv_def new_session_def get_reason_def plain_reason, rule reason_step)

section \<open>Properties\<close>

fun rd_writing :: "rd_pc \<Rightarrow> writer list" where
  "rd_writing (RdPonging _) = [PongWriter]" | "rd_writing _ = []"

fun up_writing :: "up_pc \<Rightarrow> writer list" where
  "up_writing (UpWriting _) = [DataWriter]" | "up_writing _ = []"

fun ka_writing :: "ka_pc \<Rightarrow> writer list" where
  "ka_writing KaWriting = [PingWriter]" | "ka_writing _ = []"

definition writers :: "session \<Rightarrow> writer list" where
  "writers s = rd_writing (se_rd s) @ up_writing (se_up s) @ ka_writing (se_ka s)"

lemma writers_lock: "lock_inv s \<Longrightarrow> writers s = (case se_lock s of None \<Rightarrow> [] | Some w \<Rightarrow> [w])"
proof -
  assume "lock_inv s"
  then show ?thesis
    by (cases "se_rd s"; cases "se_up s"; cases "se_ka s"; cases "se_lock s"; cases "the (se_lock s)")
      (auto simp: lock_inv_def writers_def)
qed


lemma all_same: "list_all (\<lambda>e. snd e = v) r \<Longrightarrow> r = map (\<lambda>y. (y, v)) (map fst r)"
  by (induction r) auto

lemma down_ok_shape: "down_ok p xs \<Longrightarrow> \<exists>drops sent. xs = map (\<lambda>x. (x, None)) drops @ map (\<lambda>y. (y, p)) sent \<and> (p = None \<longrightarrow> sent = [])"
proof (induction p xs rule: down_ok.induct)
  case (1 p)
  then show ?case by simp
next
  case (2 p x r)
  then obtain drops sent where "r = map (\<lambda>x. (x, None)) drops @ map (\<lambda>y. (y, p)) sent" "p = None \<longrightarrow> sent = []" by auto
  then show ?case by (intro exI [of _ "x # drops"] exI [of _ sent]) simp
next
  case (3 p x q r)
  then have "r = map (\<lambda>y. (y, p)) (map fst r)" using all_same [of "Some q" r] by simp
  then show ?case using 3 by (intro exI [of _ "[]"] exI [of _ "x # map fst r"]) simp
qed

lemma up_flow_rest: "up_flow s \<Longrightarrow> \<exists>rest. se_fromUDP s = datas (se_toWS s) @ rest \<and> length rest \<le> 1"
  by (cases "se_up s") (auto simp: up_flow_def)

lemma rd_flow_rest: "rd_flow s \<Longrightarrow> \<exists>rest. se_fromWS s = map fst (se_down s) @ rest \<and> length rest \<le> 1"
  by (cases "se_rd s") (auto simp: rd_flow_def)


text \<open>
  The reconnect line cannot be forged: the reason \<open>runOneTunnel\<close> returns for a session,
  whatever the text of the errors that ended it and whichever goroutine failed first, has no
  control character and at most 171 bytes.
\<close>

lemma reconnect_reason_plain:
  assumes "cl_reach c" "s \<in> set (cl_sessions c)" "se_result s = Some r"
  shows "length r \<le> 171 \<and> (\<forall>ch \<in> set r. byte ch \<ge> 0x20 \<and> byte ch \<noteq> 0x7f)"
  using reason.each [OF assms(1,2)] assms(3) by (simp add: reason_inv_def plain_def list_all_iff)

text \<open>A session with its reader blocked on the UDP socket; the sample runs below use it.\<close>

lemma move_last:
  assumes "cl_reach c" "cl_sessions c = ss @ [s]" "se_step (cl_ctx c) s s'"
  shows "\<exists>c'. cl_reach c' \<and> cl_sessions c' = ss @ [s'] \<and> cl_ctx c' = cl_ctx c \<and> cl_returned c' = cl_returned c"
  using cl_reach.moved [OF assms(1), of "length ss" s'] assms(2,3)
  by (intro exI [of _ "c\<lparr>cl_sessions := ss @ [s']\<rparr>"]) (simp add: list_update_append)

definition sample_sid :: string where
  "sample_sid = newSessionID (Some ''AbCd'') 0"

text \<open>A session whose socket was closed by the other side and which has returned.\<close>

definition sample_broken :: session where
  "sample_broken = give_up ''wss read: '' ''EOF'' ((new_session sample_sid)\<lparr>se_rd := RdExit\<rparr>)"

definition sample_ended :: session where
  "sample_ended = sample_broken\<lparr>se_result := Some (get_reason (se_reason sample_broken)), se_wsOpen := False\<rparr>"

lemma sample_ended_facts [simp]:
  "se_up sample_ended = UpRead" "se_lock sample_ended = None" "se_fromUDP sample_ended = []" "se_toWS sample_ended = []"
  "se_result sample_ended = Some (get_reason (se_reason sample_broken))" "se_wsOpen sample_ended = False" "se_wgPeer sample_ended = None"
  by (simp_all add: sample_ended_def) (simp_all add: sample_broken_def give_up_def new_session_def)

lemma sample_new_run: "\<exists>c. cl_reach c \<and> cl_sessions c = [new_session sample_sid] \<and> \<not> cl_ctx c \<and> \<not> cl_returned c"
proof -
  have "entropy_given (Some ''AbCd'', 0)" by (simp add: entropy_given_def)
  from cl_reach.dialled [OF cl_reach.start _ _ this] show ?thesis
    by (intro exI [of _ "cl_init\<lparr>cl_sessions := [new_session sample_sid], cl_connected := True\<rparr>"])
      (simp add: cl_init_def idle_client_def sample_sid_def)
qed

lemma sample_ended_run: "\<exists>c. cl_reach c \<and> cl_sessions c = [sample_ended] \<and> \<not> cl_ctx c \<and> \<not> cl_returned c"
proof -
  obtain c where c: "cl_reach c" "cl_sessions c = [new_session sample_sid]" "\<not> cl_ctx c" "\<not> cl_returned c"
    using sample_new_run by blast
  have "se_step (cl_ctx c) (new_session sample_sid) sample_broken"
    unfolding sample_broken_def by (rule RdError) (simp add: new_session_def)
  with move_last [OF c(1), of "[]"] c obtain d where d: "cl_reach d" "cl_sessions d = [sample_broken]" "\<not> cl_ctx d" "\<not> cl_returned d"
    by auto
  have "se_step (cl_ctx d) sample_broken sample_ended"
    unfolding sample_ended_def by (rule Return) (simp_all add: sample_broken_def give_up_def new_session_def)
  with move_last [OF d(1), of "[]"] d show ?thesis by auto
qed

text \<open>The old session's UDP goroutine takes a datagram and fails to write it.\<close>

definition sample_taken :: session where
  "sample_taken = note_peer ''127.0.0.1:1'' (sample_ended\<lparr>se_up := UpLock ''p'', se_fromUDP := se_fromUDP sample_ended @ [''p'']\<rparr>)"

definition sample_writing :: session where
  "sample_writing = sample_taken\<lparr>se_up := UpWriting ''p'', se_lock := Some DataWriter\<rparr>"

definition sample_stolen :: session where
  "sample_stolen = give_up ''wss write: '' ''closed'' (sample_writing\<lparr>se_up := UpExit, se_lock := None\<rparr>)"

lemma steal_steps: "se_step ctx sample_ended sample_taken" "se_step ctx sample_taken sample_writing"
  "se_step ctx sample_writing sample_stolen"
proof -
  show "se_step ctx sample_ended sample_taken" unfolding sample_taken_def
    by (rule UpData) (simp_all add: wsReadMax_def)
  show "se_step ctx sample_taken sample_writing" unfolding sample_writing_def
    by (rule UpLocked) (simp_all add: sample_taken_def note_peer_def)
  show "se_step ctx sample_writing sample_stolen" unfolding sample_stolen_def
    by (rule UpWriteFailed) (simp add: sample_writing_def)
qed

lemma sample_stolen_facts [simp]:
  "se_result sample_stolen = Some (get_reason (se_reason sample_broken))" "se_fromUDP sample_stolen = [''p'']" "se_toWS sample_stolen = []" "se_up sample_stolen = UpExit"
  by (simp_all add: sample_stolen_def sample_writing_def sample_taken_def give_up_def note_peer_def)

lemma sample_two_sessions: "\<exists>c. cl_reach c \<and> cl_sessions c = [sample_ended, new_session sample_sid]"
proof -
  obtain c where c: "cl_reach c" "cl_sessions c = [sample_ended]" "\<not> cl_ctx c" "\<not> cl_returned c"
    using sample_ended_run by (elim exE conjE)
  have i: "idle_client c" using c(2,4) by (simp add: idle_client_def)
  have "entropy_given (Some ''AbCd'', 0)" by (simp add: entropy_given_def)
  note r = cl_reach.dialled [OF c(1) i c(3) this]
  show ?thesis by (rule exI, rule conjI [OF r]) (simp add: c(2) sample_sid_def)
qed

lemma steal_run: "\<exists>c. cl_reach c \<and> cl_sessions c = [sample_stolen, new_session sample_sid]"
proof -
  have move: "\<exists>e. cl_reach e \<and> cl_sessions e = [v, n]"
    if ex: "\<exists>e. cl_reach e \<and> cl_sessions e = [u, n]" and step: "\<And>ctx. se_step ctx u v" for u v n
  proof -
    from ex obtain e where e: "cl_reach e" "cl_sessions e = [u, n]" by (elim exE conjE)
    show ?thesis using cl_reach.moved [OF e(1), of 0 v] e(2) step
      by (intro exI [of _ "e\<lparr>cl_sessions := [v, n]\<rparr>"]) simp
  qed
  show ?thesis by (rule move [OF move [OF move [OF sample_two_sessions]]]) (rule steal_steps)+
qed

text \<open>
  A reconnect can lose the first datagram: the UDP goroutine of a session that has
  returned stays blocked on the shared UDP socket, and when WireGuard sends its next packet
  it may be that goroutine which takes it and fails to write it to the closed socket, while
  the new session never sees it. It is at most one per reconnect: from then on, whatever
  happens, a returned session reads no further datagram and writes no frame.
\<close>

lemma stale_reader_steals:
  "(\<exists>c old new. cl_reach c \<and> cl_sessions c = [old, new] \<and> se_result old \<noteq> None \<and> se_result new = None \<and> se_wsOpen new
      \<and> se_fromUDP old = [''p''] \<and> datas (se_toWS old) = [] \<and> se_up old = UpExit \<and> se_fromUDP new = [])
   \<and> (se_result s \<noteq> None \<and> \<not> se_wsOpen s \<and> se_done s \<and> (se_step ctx)\<^sup>*\<^sup>* s s' \<longrightarrow>
      length (se_fromUDP s') \<le> length (se_fromUDP s) + 1 \<and> se_toWS s' = se_toWS s)"
proof (rule conjI)
  from steal_run obtain e where e: "cl_reach e" "cl_sessions e = [sample_stolen, new_session sample_sid]" by (elim exE conjE)
  show "\<exists>c old new. cl_reach c \<and> cl_sessions c = [old, new] \<and> se_result old \<noteq> None \<and> se_result new = None \<and> se_wsOpen new
      \<and> se_fromUDP old = [''p''] \<and> datas (se_toWS old) = [] \<and> se_up old = UpExit \<and> se_fromUDP new = []"
    by (rule exI [of _ e], rule exI [of _ sample_stolen], rule exI [of _ "new_session sample_sid"])
      (use e in \<open>simp add: new_session_def\<close>)
  show "se_result s \<noteq> None \<and> \<not> se_wsOpen s \<and> se_done s \<and> (se_step ctx)\<^sup>*\<^sup>* s s' \<longrightarrow>
      length (se_fromUDP s') \<le> length (se_fromUDP s) + 1 \<and> se_toWS s' = se_toWS s"
  proof
    assume a: "se_result s \<noteq> None \<and> \<not> se_wsOpen s \<and> se_done s \<and> (se_step ctx)\<^sup>*\<^sup>* s s'"
    then have "stale (length (se_fromUDP s) + 1) (se_toWS s) s" by (simp add: stale_def)
    with stale_run [of ctx s s'] a have "stale (length (se_fromUDP s) + 1) (se_toWS s) s'" by simp
    then show "length (se_fromUDP s') \<le> length (se_fromUDP s) + 1 \<and> se_toWS s' = se_toWS s"
      by (simp add: stale_def split: if_splits)
  qed
qed

section \<open>Witnesses\<close>

lemma stale_reader_steals_witness:
  "length (se_fromUDP sample_stolen) = 1 \<and> length (se_fromUDP sample_stolen) \<le> length (se_fromUDP sample_ended) + 1
   \<and> se_toWS sample_stolen = se_toWS sample_ended"
proof -
  have "(se_step False)\<^sup>*\<^sup>* sample_ended sample_stolen"
    using steal_steps by (meson converse_rtranclp_into_rtranclp rtranclp.rtrancl_refl)
  moreover have "se_done sample_ended" by (simp add: sample_ended_def sample_broken_def give_up_def)
  ultimately show ?thesis
    using conjunct2 [OF stale_reader_steals [of sample_ended False sample_stolen]] by simp
qed



lemma reconnect_reason_plain_witness:
  "\<exists>c r. cl_reach c \<and> cl_sessions c = [sample_ended] \<and> se_result sample_ended = Some r \<and> length r \<le> 171"
proof -
  obtain c where c: "cl_reach c" "cl_sessions c = [sample_ended]" using sample_ended_run by blast
  obtain r where r: "se_result sample_ended = Some r" using sample_ended_facts(5) by blast
  with reconnect_reason_plain [OF c(1), of sample_ended r] c show ?thesis by auto
qed

end
