(* ===== verification/Pairing.thy ===== *)
theory Pairing
  imports Http_Api
begin

text \<open>
  \<open>client/pair.go\<close>: the browser pairing flow. Time is in milliseconds. The control plane is
  a parameter: one service per request made, in order, with the time each request takes;
  \<open>pe_cancel\<close> is the moment the context is cancelled, if ever. Response decoding is a
  parameter.
\<close>

section \<open>Exit codes and constants\<close>

definition ExitOK :: nat where "ExitOK = 0"
definition ExitFatalRuntime :: nat where "ExitFatalRuntime = 1"
definition ExitPairInitFailed :: nat where "ExitPairInitFailed = 2"
definition ExitUserCancelled :: nat where "ExitUserCancelled = 3"
definition ExitExpiredOrNotFound :: nat where "ExitExpiredOrNotFound = 4"
definition ExitNetworkBudgetExceeded :: nat where "ExitNetworkBudgetExceeded = 5"
definition ExitPairWallClockTimeout :: nat where "ExitPairWallClockTimeout = 6"
definition ExitConfigPermDenied :: nat where "ExitConfigPermDenied = 7"
definition ExitConfigUnlinkFailed :: nat where "ExitConfigUnlinkFailed = 8"
definition ExitSignal :: nat where "ExitSignal = 130"

lemmas exit_defs = ExitOK_def ExitFatalRuntime_def ExitPairInitFailed_def ExitUserCancelled_def
  ExitExpiredOrNotFound_def ExitNetworkBudgetExceeded_def ExitPairWallClockTimeout_def
  ExitConfigPermDenied_def ExitConfigUnlinkFailed_def ExitSignal_def

definition pollIntervalDefault :: nat where "pollIntervalDefault = 2000"
definition pollPerRequestTO :: nat where "pollPerRequestTO = 10"  \<comment> \<open>seconds\<close>
definition pollWallClockMax :: nat where "pollWallClockMax = 10 * 60 * 1000"
definition pollNetMaxFailures :: nat where "pollNetMaxFailures = 30"
definition pollNetMaxBackoff :: nat where "pollNetMaxBackoff = 30000"

section \<open>Pairing codes\<close>

definition pairingAlphabet :: string where
  "pairingAlphabet = ''ABCDEFGHJKMNPQRSTUVWXYZ23456789''"

text \<open>\<open>rnd n\<close> is what \<open>rand.Read\<close> gives for a buffer of \<open>n\<close> bytes.\<close>

definition generatePairingCode :: "(nat \<Rightarrow> string option) \<Rightarrow> nat \<Rightarrow> string option" where
  "generatePairingCode rnd n = (case rnd n of None \<Rightarrow> None
     | Some buf \<Rightarrow> Some (map (\<lambda>b. pairingAlphabet ! (byte b mod length pairingAlphabet)) buf))"

section \<open>Messages\<close>

record pairInitRequest =
  pi_ClientVersion :: string
  pi_Hostname :: string
  pi_OS :: string
  pi_Arch :: string

record pairInitResponse =
  pr_Code :: string
  pr_ClaimURL :: string
  pr_ExpiresAt :: string

record pairClaimedResponse =
  pc_TunnelIP :: string
  pc_PrivateKey :: string
  pc_ServerPubKey :: string
  pc_ServerHost :: string
  pc_UserEmail :: string
  pc_DeviceID :: string
  pc_RevocationToken :: string

record pairOptions =
  po_ArenaBaseURL :: string
  po_ConfigPath :: path
  po_ClientVer :: string
  po_NoBrowser :: bool

definition pairInit :: "url_lib \<Rightarrow> build \<Rightarrow> service \<Rightarrow> string \<Rightarrow> (pairInitRequest \<Rightarrow> string option)
    \<Rightarrow> (string \<Rightarrow> pairInitResponse option) \<Rightarrow> pairOptions \<Rightarrow> go_err + (string \<times> pairInitResponse)" where
  "pairInit ul b srv hostname marshal decode opts =
     (let reqBody = \<lparr>pi_ClientVersion = po_ClientVer opts, pi_Hostname = hostname, pi_OS = b_goos b, pi_Arch = b_goarch b\<rparr> in
      case joinURL ul (po_ArenaBaseURL opts) ''/api/byoc2/pair/init'' of
        Inl e \<Rightarrow> Inl e
      | Inr endpoint \<Rightarrow> (case doJSON ul srv httpClientTimeout ''POST'' endpoint (userAgent b (po_ClientVer opts)) (Some (marshal reqBody)) of
          Inl e \<Rightarrow> Inl e
        | Inr (st, bd) \<Rightarrow>
            if st < 200 \<or> st \<ge> 300 then Inl (HttpStatus st)
            else (case decode bd of None \<Rightarrow> Inl DecodeErr
              | Some out \<Rightarrow> if pr_Code out = [] then Inl EmptyCode else Inr (pr_Code out, out))))"

section \<open>Polling\<close>

text \<open>
  Every error of \<open>http.Client.Do\<close> is a \<open>*url.Error\<close>, and so is a URL that does not parse;
  both implement \<open>net.Error\<close>, whatever they wrap.
\<close>

definition isTransientNetErr :: "go_err option \<Rightarrow> bool" where
  "isTransientNetErr err = (case err of None \<Rightarrow> False
     | Some (DoErr _) \<Rightarrow> True | Some NewRequestErr \<Rightarrow> True | Some _ \<Rightarrow> False)"

definition backoffFor :: "int \<Rightarrow> nat" where
  "backoffFor failures =
     (let failures = (if failures < 1 then 1 else failures);
          shift = failures - 1;
          shift = (if shift > 6 then 6 else shift);
          d = pollIntervalDefault * 2 ^ nat shift
      in if d > pollNetMaxBackoff then pollNetMaxBackoff else d)"

record poll_env =
  pe_srv :: "nat \<Rightarrow> service"
  pe_dur :: "nat \<Rightarrow> nat"
  pe_cancel :: "nat option"
  pe_decode :: "string \<Rightarrow> pairClaimedResponse option"

definition ctx_done :: "poll_env \<Rightarrow> nat \<Rightarrow> bool" where
  "ctx_done pe now = (case pe_cancel pe of None \<Rightarrow> False | Some t \<Rightarrow> t \<le> now)"

text \<open>\<open>sleepCtx\<close>: the time of the wake-up, or \<open>None\<close> when the context ends first.\<close>

definition sleepCtx :: "poll_env \<Rightarrow> nat \<Rightarrow> nat \<Rightarrow> nat option" where
  "sleepCtx pe now d = (case pe_cancel pe of None \<Rightarrow> Some (now + d)
     | Some t \<Rightarrow> if t < now + d then None else Some (now + d))"

datatype poll_result = Claimed pairClaimedResponse | PollFail nat

text \<open>What one answered request leads to: an end, or another round after a sleep.\<close>

datatype verdict = Finish poll_result | Retry nat nat  \<comment> \<open>failures so far, sleep\<close>

definition poll_verdict :: "(string \<Rightarrow> pairClaimedResponse option) \<Rightarrow> go_err + (nat \<times> string) \<Rightarrow> nat \<Rightarrow> verdict" where
  "poll_verdict decode r fails = (case r of
     Inl e \<Rightarrow>
       if isTransientNetErr (Some e) then
         (if fails + 1 \<ge> pollNetMaxFailures then Finish (PollFail ExitNetworkBudgetExceeded)
          else Retry (fails + 1) (backoffFor (int (fails + 1))))
       else Finish (PollFail ExitFatalRuntime)
   | Inr (st, bd) \<Rightarrow>
       if st = 200 then (case decode bd of None \<Rightarrow> Finish (PollFail ExitFatalRuntime) | Some out \<Rightarrow> Finish (Claimed out))
       else if st = 202 then Retry 0 pollIntervalDefault
       else if st = 410 then Finish (PollFail ExitUserCancelled)
       else if st = 404 then Finish (PollFail ExitExpiredOrNotFound)
       else if st \<ge> 500 \<and> st < 600 then
         (if fails + 1 \<ge> pollNetMaxFailures then Finish (PollFail ExitNetworkBudgetExceeded)
          else Retry (fails + 1) (backoffFor (int (fails + 1))))
       else Finish (PollFail ExitFatalRuntime))"

text \<open>The loop, with fuel; \<open>k\<close> counts the requests.\<close>

fun poll_loop :: "nat \<Rightarrow> url_lib \<Rightarrow> poll_env \<Rightarrow> string \<Rightarrow> string \<Rightarrow> nat \<Rightarrow> nat \<Rightarrow> nat \<Rightarrow> nat \<Rightarrow> poll_result option" where
  "poll_loop 0 ul pe pollURL ua deadline now fails k = None"
| "poll_loop (Suc fuel) ul pe pollURL ua deadline now fails k =
     (if ctx_done pe now then Some (PollFail ExitSignal)
      else if now > deadline then Some (PollFail ExitPairWallClockTimeout)
      else (let r = doJSON ul (pe_srv pe k) pollPerRequestTO ''GET'' pollURL ua None; now1 = now + pe_dur pe k in
        case poll_verdict (pe_decode pe) r fails of
          Finish x \<Rightarrow> Some x
        | Retry f d \<Rightarrow> (case sleepCtx pe now1 d of
            None \<Rightarrow> Some (PollFail ExitSignal)
          | Some now2 \<Rightarrow> poll_loop fuel ul pe pollURL ua deadline now2 f (Suc k))))"

definition pollFuel :: nat where "pollFuel = 302"

definition pairPoll :: "url_lib \<Rightarrow> build \<Rightarrow> poll_env \<Rightarrow> pairOptions \<Rightarrow> string \<Rightarrow> nat \<Rightarrow> poll_result option" where
  "pairPoll ul b pe opts code start =
     (case joinURL ul (po_ArenaBaseURL opts) ''/api/byoc2/pair/poll'' of
        Inl _ \<Rightarrow> Some (PollFail ExitFatalRuntime)
      | Inr endpoint \<Rightarrow> poll_loop pollFuel ul pe (endpoint @ ''?code='' @ ul_escape ul code)
          (userAgent b (po_ClientVer opts)) (start + pollWallClockMax) start 0 0)"

definition claimByToken :: "url_lib \<Rightarrow> build \<Rightarrow> service \<Rightarrow> (string \<Rightarrow> pairClaimedResponse option) \<Rightarrow> pairOptions \<Rightarrow> string
    \<Rightarrow> poll_result" where
  "claimByToken ul b srv decode opts token =
     (case joinURL ul (po_ArenaBaseURL opts) ''/api/byoc2/pair/claim'' of
        Inl _ \<Rightarrow> PollFail ExitFatalRuntime
      | Inr endpoint \<Rightarrow>
        (case doJSON ul srv httpClientTimeout ''GET'' (endpoint @ ''?token='' @ ul_escape ul token)
                (userAgent b (po_ClientVer opts)) None of
           Inl _ \<Rightarrow> PollFail ExitNetworkBudgetExceeded
         | Inr (st, bd) \<Rightarrow>
             if st = 200 then (case decode bd of None \<Rightarrow> PollFail ExitFatalRuntime | Some out \<Rightarrow> Claimed out)
             else if st = 404 then PollFail ExitExpiredOrNotFound
             else PollFail ExitFatalRuntime))"

section \<open>Opening the browser\<close>

record host_env =
  he_getenv :: "string \<Rightarrow> string"
  he_lookpath :: "string \<Rightarrow> string option"

datatype browse_error = SSHSession | NoDisplay | NoWslBrowser | UnsupportedOS string | SpawnFailed

definition spawnDetached :: "faults \<Rightarrow> cmd \<Rightarrow> os \<Rightarrow> browse_error option \<times> os" where
  "spawnDetached flt c w = (case run_cmd flt c w of (True, w') \<Rightarrow> (None, w') | (False, w') \<Rightarrow> (Some SpawnFailed, w'))"

definition isWSL :: "faults \<Rightarrow> os \<Rightarrow> bool \<times> os" where
  "isWSL flt w = (case os_ReadFile flt ''/proc/sys/kernel/osrelease'' w of
     (Inl _, w') \<Rightarrow> (False, w') | (Inr raw, w') \<Rightarrow> (contains_str (to_lower raw) ''microsoft'', w'))"

definition openBrowserWSL :: "faults \<Rightarrow> host_env \<Rightarrow> string \<Rightarrow> os \<Rightarrow> browse_error option \<times> os" where
  "openBrowserWSL flt he rawurl w = (case he_lookpath he ''wslview'' of
     Some p \<Rightarrow> spawnDetached flt [p, rawurl] w
   | None \<Rightarrow> (case he_lookpath he ''cmd.exe'' of
       Some p \<Rightarrow> spawnDetached flt [p, ''/c'', ''start'', [], rawurl] w
     | None \<Rightarrow> (Some NoWslBrowser, w)))"

definition openBrowser :: "faults \<Rightarrow> host_env \<Rightarrow> string \<Rightarrow> string \<Rightarrow> os \<Rightarrow> browse_error option \<times> os" where
  "openBrowser flt he goos rawurl w =
     (if he_getenv he ''SSH_CONNECTION'' \<noteq> [] \<or> he_getenv he ''SSH_CLIENT'' \<noteq> [] then (Some SSHSession, w)
      else if goos \<in> {''linux'', ''freebsd'', ''openbsd'', ''netbsd''} then
        (if goos = ''linux'' then
           (case isWSL flt w of
              (True, w1) \<Rightarrow> openBrowserWSL flt he rawurl w1
            | (False, w1) \<Rightarrow>
                if he_getenv he ''DISPLAY'' = [] \<and> he_getenv he ''WAYLAND_DISPLAY'' = [] then (Some NoDisplay, w1)
                else spawnDetached flt [''xdg-open'', rawurl] w1)
         else spawnDetached flt [''xdg-open'', rawurl] w)
      else if goos = ''darwin'' then spawnDetached flt [''open'', rawurl] w
      else if goos = ''windows'' then spawnDetached flt [''cmd'', ''/c'', ''start'', [], rawurl] w
      else (Some (UnsupportedOS goos), w))"

section \<open>The whole flow\<close>

record pair_world =
  pw_ul :: url_lib
  pw_resolve :: "go_url \<Rightarrow> go_url \<Rightarrow> go_url"
  pw_build :: build
  pw_hostname :: string
  pw_init :: service
  pw_marshal_init :: "pairInitRequest \<Rightarrow> string option"
  pw_decode_init :: "string \<Rightarrow> pairInitResponse option"
  pw_poll :: poll_env
  pw_start :: nat
  pw_paths :: path_lib
  pw_marshal :: "Config \<Rightarrow> string option"
  pw_host :: host_env
  pw_pairedAt :: string

definition auth_url :: "pair_world \<Rightarrow> pairOptions \<Rightarrow> string \<Rightarrow> pairInitResponse \<Rightarrow> string" where
  "auth_url pw opts code res =
     (let ul = pw_ul pw;
          u1 = (if pr_ClaimURL res \<noteq> [] then
                  (case (ul_parse ul (po_ArenaBaseURL opts), ul_parse ul (pr_ClaimURL res)) of
                     (Some base, Some ref) \<Rightarrow> ul_string ul (pw_resolve pw base ref) | _ \<Rightarrow> [])
                else [])
      in if u1 \<noteq> [] then u1
         else (case joinURL ul (po_ArenaBaseURL opts) ''/byoc2/connect'' of
           Inl _ \<Rightarrow> [] | Inr u \<Rightarrow> u @ ''?code='' @ ul_escape ul code))"

definition claimed_config :: "pairClaimedResponse \<Rightarrow> string \<Rightarrow> string \<Rightarrow> Config" where
  "claimed_config c pairedAt base = \<lparr>cVersion = ConfigSchemaVersion, TunnelIP = pc_TunnelIP c, PrivateKey = pc_PrivateKey c,
     ServerPubKey = pc_ServerPubKey c, ServerHost = pc_ServerHost c, UserEmail = pc_UserEmail c,
     PairedAt = pairedAt, ArenaBaseURL = base, DeviceID = pc_DeviceID c, RevocationToken = pc_RevocationToken c\<rparr>"

text \<open>\<open>PairAndPersist\<close>: the exit code on failure, the new configuration otherwise. \<open>None\<close>
  would be a poll that never returns; \<open>pairPoll_returns\<close> below excludes it.\<close>

definition PairAndPersist :: "faults \<Rightarrow> pair_world \<Rightarrow> pairOptions \<Rightarrow> os \<Rightarrow> ((nat + Config) \<times> os) option" where
  "PairAndPersist flt pw opts w =
     (case pairInit (pw_ul pw) (pw_build pw) (pw_init pw) (pw_hostname pw) (pw_marshal_init pw) (pw_decode_init pw) opts of
        Inl _ \<Rightarrow> Some (Inl ExitPairInitFailed, w)
      | Inr (code, res) \<Rightarrow>
        (let w1 = (if po_NoBrowser opts then w
                   else snd (openBrowser flt (pw_host pw) (b_goos (pw_build pw)) (auth_url pw opts code res) w)) in
         case pairPoll (pw_ul pw) (pw_build pw) (pw_poll pw) opts code (pw_start pw) of
           None \<Rightarrow> None
         | Some (PollFail x) \<Rightarrow> Some (Inl x, w1)
         | Some (Claimed c) \<Rightarrow>
             (let cfg = claimed_config c (pw_pairedAt pw) (po_ArenaBaseURL opts) in
              case SaveConfig flt (pw_paths pw) (pw_marshal pw) (po_ConfigPath opts) (Some cfg) w1 of
                (_, _, w2) \<Rightarrow> Some (Inr cfg, w2))))"

section \<open>Backoff\<close>

text \<open>
  The backoff after the n-th consecutive failure is two seconds doubled n-1 times,
  capped at thirty seconds, for every n (the clamp of the shift never shows), and any
  other count is treated as one.
\<close>

lemma backoffFor_spec:
  "backoffFor n = (if n \<le> 1 then 2000 else min (2000 * 2 ^ nat (n - 1)) 30000)"
proof (cases "n \<le> 7")
  case True
  then show ?thesis by (auto simp: backoffFor_def Let_def pollIntervalDefault_def pollNetMaxBackoff_def)
next
  case False
  then have "(2::nat) ^ 6 \<le> 2 ^ nat (n - 1)" by (intro power_increasing) auto
  then have "30000 \<le> 2000 * (2::nat) ^ nat (n - 1)" by simp
  moreover from False have "backoffFor n = 30000"
    by (simp add: backoffFor_def Let_def pollIntervalDefault_def pollNetMaxBackoff_def)
  ultimately show ?thesis using False by (simp add: min_def)
qed

lemma backoffFor_bounds: "2000 \<le> backoffFor n \<and> backoffFor n \<le> 30000"
proof -
  have "(2000::nat) \<le> 2000 * 2 ^ nat (n - 1)" by simp
  then show ?thesis unfolding backoffFor_spec by (auto simp: min_def)
qed

section \<open>The poll ends\<close>

lemma retry_sleeps: "poll_verdict dcd r f = Retry f' d \<Longrightarrow> 2000 \<le> d"
  using backoffFor_bounds
  by (auto simp: poll_verdict_def pollIntervalDefault_def split: sum.splits if_splits option.splits)

lemma sleepCtx_wakes: "sleepCtx pe now d = Some t \<Longrightarrow> t = now + d"
  by (auto simp: sleepCtx_def split: option.splits if_splits)

lemma poll_loop_returns:
  "deadline < now + 2000 * n \<Longrightarrow> poll_loop (Suc n) ul pe u ua deadline now f k \<noteq> None"
proof (induction n arbitrary: now f k)
  case (Suc n)
  let ?v = "poll_verdict (pe_decode pe) (doJSON ul (pe_srv pe k) pollPerRequestTO ''GET'' u ua None) f"
  show ?case
  proof (cases ?v)
    case (Retry f' d)
    have "2000 \<le> d" using retry_sleeps [OF Retry] .
    then have "poll_loop (Suc n) ul pe u ua deadline (now + pe_dur pe k + d) f' (Suc k) \<noteq> None"
      using Suc by simp
    moreover have "sleepCtx pe (now + pe_dur pe k) d \<in> {None, Some (now + pe_dur pe k + d)}"
      by (auto simp: sleepCtx_def split: option.splits)
    ultimately show ?thesis
      using Retry by (auto simp only: poll_loop.simps(2) [of "Suc n"] Let_def split: if_splits option.splits verdict.splits)
  qed (simp del: poll_loop.simps(2) add: poll_loop.simps(2) [of "Suc n"] Let_def)
qed (simp split: verdict.splits option.splits)

lemma pairPoll_total: "\<exists>r. pairPoll ul b pe opts code start = Some r"
proof (cases "joinURL ul (po_ArenaBaseURL opts) ''/api/byoc2/pair/poll''")
  case (Inr endpoint)
  have "poll_loop (Suc 301) ul pe (endpoint @ ''?code='' @ ul_escape ul code) (userAgent b (po_ClientVer opts))
      (start + pollWallClockMax) start 0 0 \<noteq> None"
    by (rule poll_loop_returns) (simp add: pollWallClockMax_def)
  then have "poll_loop pollFuel ul pe (endpoint @ ''?code='' @ ul_escape ul code) (userAgent b (po_ClientVer opts))
      (start + pollWallClockMax) start 0 0 \<noteq> None"
    by (simp only: pollFuel_def) simp
  with Inr show ?thesis by (simp add: pairPoll_def del: poll_loop.simps)
qed (simp add: pairPoll_def)

text \<open>
  \<open>pairPoll\<close> always returns: 302 rounds are enough whatever the control plane answers
  and however long each request takes, since every further round sleeps at least two
  seconds and the wall clock ends the loop after ten minutes.
\<close>

lemma pairPoll_returns: "\<exists>r. pairPoll ul b pe opts code start = Some r"
  by (rule pairPoll_total)

section \<open>Outcomes of the poll\<close>

definition request :: "url_lib \<Rightarrow> poll_env \<Rightarrow> string \<Rightarrow> string \<Rightarrow> nat \<Rightarrow> go_err + (nat \<times> string)" where
  "request ul pe u ua k = doJSON ul (pe_srv pe k) pollPerRequestTO ''GET'' u ua None"

definition failing :: "go_err + (nat \<times> string) \<Rightarrow> bool" where
  "failing r = (case r of Inl e \<Rightarrow> isTransientNetErr (Some e) | Inr (st, _) \<Rightarrow> st \<ge> 500 \<and> st < 600)"

lemma verdict_budget:
  "poll_verdict dcd r f = Finish (PollFail 5) \<Longrightarrow> failing r \<and> 29 \<le> f"
  by (auto simp: poll_verdict_def failing_def exit_defs pollNetMaxFailures_def
      split: sum.splits if_splits option.splits)

lemma verdict_retry:
  "poll_verdict dcd r f = Retry f' d \<Longrightarrow> f' = 0 \<or> (f' = Suc f \<and> failing r)"
  by (auto simp: poll_verdict_def failing_def split: sum.splits if_splits option.splits)

lemma verdict_claimed:
  "poll_verdict dcd r f = Finish (Claimed c) \<Longrightarrow> \<exists>bd. r = Inr (200, bd) \<and> dcd bd = Some c"
  by (auto simp: poll_verdict_def split: sum.splits if_splits option.splits)

lemma verdict_codes:
  "poll_verdict dcd r f = Finish (PollFail x) \<Longrightarrow> x \<in> {1, 3, 4, 5}"
  by (auto simp: poll_verdict_def exit_defs split: sum.splits if_splits option.splits)

text \<open>The last \<open>f\<close> of the first \<open>k\<close> requests failed: what the counter of the loop stands for.\<close>

definition failed_run :: "(nat \<Rightarrow> go_err + (nat \<times> string)) \<Rightarrow> nat \<Rightarrow> nat \<Rightarrow> bool" where
  "failed_run rq f k \<longleftrightarrow> f \<le> k \<and> (\<forall>j. k - f \<le> j \<and> j < k \<longrightarrow> failing (rq j))"

lemma failed_run_start: "failed_run rq 0 0"
  by (simp add: failed_run_def)

lemma failed_run_retry:
  assumes "poll_verdict decode (rq k) f = Retry f' d" "failed_run rq f k"
  shows "failed_run rq f' (Suc k)"
  using verdict_retry [OF assms(1)] assms(2) by (auto simp: failed_run_def less_Suc_eq)

lemma failed_run_budget:
  assumes "poll_verdict decode (rq k) f = Finish (PollFail 5)" "failed_run rq f k"
  shows "\<exists>j. \<forall>i < 30. failing (rq (j + i))"
proof (intro exI allI impI)
  fix i :: nat assume i: "i < 30"
  have v: "failing (rq k)" "29 \<le> f" using verdict_budget [OF assms(1)] by simp_all
  have "k - f \<le> k - 29 + i \<and> k - 29 + i < k" if "i \<noteq> 29"
    using i v(2) that assms(2) unfolding failed_run_def by linarith
  then show "failing (rq (k - 29 + i))" using v assms(2) by (cases "i = 29") (auto simp: failed_run_def)
qed

lemma poll_loop_step:
  assumes "poll_loop (Suc n) ul pe u ua deadline now f k = Some r"
  obtains (stop) "r \<in> {PollFail ExitSignal, PollFail ExitPairWallClockTimeout}"
    | (finish) "poll_verdict (pe_decode pe) (request ul pe u ua k) f = Finish r"
    | (retry) f' d t where "poll_verdict (pe_decode pe) (request ul pe u ua k) f = Retry f' d"
        "poll_loop n ul pe u ua deadline t f' (Suc k) = Some r"
  using assms
  by (cases "poll_verdict (pe_decode pe) (request ul pe u ua k) f")
    (auto simp: request_def Let_def split: if_splits option.splits)

lemma poll_loop_outcome:
  assumes "poll_loop n ul pe u ua deadline now f k = Some r" "failed_run (request ul pe u ua) f k"
  shows "(case r of Claimed c \<Rightarrow> \<exists>j bd. request ul pe u ua j = Inr (200, bd) \<and> pe_decode pe bd = Some c
     | PollFail x \<Rightarrow> x \<in> {1, 3, 4, 5, 6, 130} \<and>
         (x = 5 \<longrightarrow> (\<exists>j. \<forall>i < 30. failing (request ul pe u ua (j + i)))))"
  using assms
proof (induction n arbitrary: now f k)
  case (Suc n)
  from Suc.prems(1) show ?case
  proof (cases rule: poll_loop_step)
    case stop
    then show ?thesis by (auto simp: exit_defs)
  next
    case finish
    show ?thesis
    proof (cases r)
      case (Claimed c)
      with verdict_claimed [of "pe_decode pe" "request ul pe u ua k" f c] finish show ?thesis by auto
    next
      case (PollFail e)
      have "e \<in> {1, 3, 4, 5}" using verdict_codes finish PollFail by simp
      moreover have "e = 5 \<longrightarrow> (\<exists>j. \<forall>i < 30. failing (request ul pe u ua (j + i)))"
        using failed_run_budget [OF _ Suc.prems(2)] finish PollFail by blast
      ultimately show ?thesis unfolding PollFail by (simp only: poll_result.case) blast
    qed
  next
    case (retry f' d t)
    from Suc.IH [OF retry(2) failed_run_retry [OF retry(1) Suc.prems(2)]] show ?thesis .
  qed
qed simp

lemma pairPoll_result:
  assumes "pairPoll ul b pe opts code start = Some r"
  shows "case r of
     Claimed c \<Rightarrow> \<exists>u ua j bd. request ul pe u ua j = Inr (200, bd) \<and> pe_decode pe bd = Some c
   | PollFail x \<Rightarrow> x \<in> {ExitFatalRuntime, ExitUserCancelled, ExitExpiredOrNotFound, ExitNetworkBudgetExceeded,
         ExitPairWallClockTimeout, ExitSignal}
       \<and> (x = ExitNetworkBudgetExceeded \<longrightarrow> (\<exists>u ua j. \<forall>i < 30. failing (request ul pe u ua (j + i))))"
proof (cases "joinURL ul (po_ArenaBaseURL opts) ''/api/byoc2/pair/poll''")
  case (Inl e)
  with assms show ?thesis by (auto simp: pairPoll_def exit_defs)
next
  case (Inr endpoint)
  with assms have "poll_loop pollFuel ul pe (endpoint @ ''?code='' @ ul_escape ul code) (userAgent b (po_ClientVer opts))
      (start + pollWallClockMax) start 0 0 = Some r"
    by (simp add: pairPoll_def del: poll_loop.simps)
  note O = poll_loop_outcome [OF this failed_run_start, simplified]
  show ?thesis
  proof (cases r)
    case (Claimed c)
    with O show ?thesis by auto
  next
    case (PollFail x)
    with O show ?thesis unfolding exit_defs by auto
  qed
qed

lemma pairPoll_codes:
  "pairPoll ul b pe opts code start = Some (PollFail x) \<Longrightarrow> x \<noteq> ExitOK"
  by (drule pairPoll_result) (auto simp: exit_defs)

text \<open>
  (C20) What a poll can end in: credentials come only from a 200 answer that decoded to
  them; a failure has one of the six documented exit codes; and the network budget (5) is
  reported only after thirty failures in a row with no answer in between.
\<close>

theorem pairPoll_outcome:
  assumes "pairPoll ul b pe opts code start = Some r"
  shows "case r of
     Claimed c \<Rightarrow> \<exists>u ua j bd. request ul pe u ua j = Inr (200, bd) \<and> pe_decode pe bd = Some c
   | PollFail x \<Rightarrow> x \<in> {ExitFatalRuntime, ExitUserCancelled, ExitExpiredOrNotFound, ExitNetworkBudgetExceeded,
         ExitPairWallClockTimeout, ExitSignal}
       \<and> (x = ExitNetworkBudgetExceeded \<longrightarrow> (\<exists>u ua j. \<forall>i < 30. failing (request ul pe u ua (j + i))))"
  using pairPoll_result [OF assms] .

lemma poll_loop_delivers:
  assumes "\<forall>j < m. \<exists>bd. request ul pe u ua (k + j) = Inr (202, bd)"
    and "request ul pe u ua (k + m) = Inr (200, bd)" "pe_decode pe bd = Some c"
    and "pe_cancel pe = None" "\<forall>j. pe_dur pe j \<le> D" "now + m * (2000 + D) \<le> deadline" "m < n"
  shows "poll_loop n ul pe u ua deadline now f k = Some (Claimed c)"
  using assms
proof (induction m arbitrary: n now f k)
  case 0
  then obtain n' where n: "n = Suc n'" by (cases n) auto
  have "poll_verdict (pe_decode pe) (request ul pe u ua k) f = Finish (Claimed c)"
    using 0 by (simp add: poll_verdict_def)
  with 0 n show ?case by (simp add: request_def [symmetric] ctx_done_def Let_def)
next
  case (Suc m)
  then obtain n' where n: "n = Suc n'" by (cases n) auto
  from Suc.prems(1) obtain bd' where "request ul pe u ua k = Inr (202, bd')" by (metis add_0_right zero_less_Suc)
  then have v: "poll_verdict (pe_decode pe) (request ul pe u ua k) f = Retry 0 2000"
    by (simp add: poll_verdict_def pollIntervalDefault_def)
  have rec: "poll_loop n' ul pe u ua deadline (now + pe_dur pe k + 2000) 0 (Suc k) = Some (Claimed c)"
  proof (rule Suc.IH)
    show "\<forall>j < m. \<exists>bd. request ul pe u ua (Suc k + j) = Inr (202, bd)"
    proof (intro allI impI)
      fix j assume "j < m"
      with Suc.prems(1) have "\<exists>bd. request ul pe u ua (k + Suc j) = Inr (202, bd)" by blast
      then show "\<exists>bd. request ul pe u ua (Suc k + j) = Inr (202, bd)" by simp
    qed
    show "now + pe_dur pe k + 2000 + m * (2000 + D) \<le> deadline"
      using Suc.prems(5,6) by (simp add: order_trans [rotated, OF Suc.prems(6)])
  qed (use Suc.prems n in auto)
  have "now \<le> deadline" using Suc.prems(6) by simp
  with rec v n Suc.prems(4) show ?case
    by (simp add: request_def [symmetric] ctx_done_def sleepCtx_def Let_def)
qed

lemma pairPoll_claimed:
  assumes "joinURL ul (po_ArenaBaseURL opts) ''/api/byoc2/pair/poll'' = Inr endpoint"
    and "u = endpoint @ ''?code='' @ ul_escape ul code" "ua = userAgent b (po_ClientVer opts)"
    and "\<forall>j < m. \<exists>bd. request ul pe u ua j = Inr (202, bd)"
    and "request ul pe u ua m = Inr (200, bd)" "pe_decode pe bd = Some c"
    and "pe_cancel pe = None" "\<forall>j. pe_dur pe j \<le> D" "m * (2000 + D) \<le> 600000"
  shows "pairPoll ul b pe opts code start = Some (Claimed c)"
proof -
  have "m * 2000 \<le> 600000" using assms(9) by (simp add: algebra_simps)
  then have "m < 302" by simp
  then have "poll_loop pollFuel ul pe u ua (start + pollWallClockMax) start 0 0 = Some (Claimed c)"
    using assms(4-9) by (intro poll_loop_delivers [where m = m and D = D]) (simp_all add: pollFuel_def pollWallClockMax_def)
  with assms(1-3) show ?thesis by (simp add: pairPoll_def del: poll_loop.simps)
qed

text \<open>
  (C21) The flow delivers: if the context is not cancelled, the control plane answers
  "pending" n times and then hands out credentials, and the time this takes fits in the ten
  minutes, \<open>pairPoll\<close> returns exactly those credentials.
\<close>

theorem pairPoll_delivers:
  assumes "joinURL ul (po_ArenaBaseURL opts) ''/api/byoc2/pair/poll'' = Inr endpoint"
    and "u = endpoint @ ''?code='' @ ul_escape ul code" "ua = userAgent b (po_ClientVer opts)"
    and "\<forall>j < m. \<exists>bd. request ul pe u ua j = Inr (202, bd)"
    and "request ul pe u ua m = Inr (200, bd)" "pe_decode pe bd = Some c"
    and "pe_cancel pe = None" "\<forall>j. pe_dur pe j \<le> D" "m * (2000 + D) \<le> 600000"
  shows "pairPoll ul b pe opts code start = Some (Claimed c)"
  using assms by (rule pairPoll_claimed)

section \<open>Pairing codes and the flow\<close>

text \<open>
  A generated code has the requested length and only characters of the alphabet, none
  of them a look-alike (0, 1, I, L, O); the alphabet has 31 characters.
\<close>

lemma generatePairingCode_shape:
  "length pairingAlphabet = 31 \<and> distinct pairingAlphabet \<and> set pairingAlphabet \<inter> set ''01ILO'' = {}
   \<and> (\<exists>s. generatePairingCode (\<lambda>_. Some buf) n = Some s \<and> length s = length buf \<and> set s \<subseteq> set pairingAlphabet)"
proof -
  have len: "length pairingAlphabet = 31" by (simp add: pairingAlphabet_def)
  have "pairingAlphabet ! (byte x mod length pairingAlphabet) \<in> set pairingAlphabet" for x
    by (rule nth_mem) (simp add: len)
  then show ?thesis
    by (auto simp: generatePairingCode_def len) (simp_all add: pairingAlphabet_def)
qed

lemma spawn_files: "os_files (snd (spawnDetached flt c w)) = os_files w"
proof (cases "run_cmd flt c w")
  case (Pair ok v)
  with run_cmd_files [OF Pair] show ?thesis by (cases ok) (simp_all add: spawnDetached_def)
qed

lemma isWSL_files: "os_files (snd (isWSL flt w)) = os_files w"
  by (auto simp: isWSL_def os_call_defs split: option.splits)

lemma browse_files:
  "os_files (snd (openBrowser flt he g u w)) = os_files w"
proof -
  obtain x v where x: "isWSL flt w = (x, v)" by (cases "isWSL flt w")
  have v: "os_files v = os_files w" using isWSL_files [of flt w] x by simp
  show ?thesis
    by (cases x; cases "he_lookpath he ''wslview''"; cases "he_lookpath he ''cmd.exe''")
      (simp_all add: openBrowser_def openBrowserWSL_def x v spawn_files)
qed


section \<open>A concrete flow\<close>

definition sample_claim :: pairClaimedResponse where
  "sample_claim = \<lparr>pc_TunnelIP = ''10.201.0.5'', pc_PrivateKey = ''k'', pc_ServerPubKey = ''s'', pc_ServerHost = ''h'',
     pc_UserEmail = ''u'', pc_DeviceID = [], pc_RevocationToken = ''r''\<rparr>"

definition sample_opts :: pairOptions where
  "sample_opts = \<lparr>po_ArenaBaseURL = ''a'', po_ConfigPath = ''c'', po_ClientVer = [], po_NoBrowser = True\<rparr>"

text \<open>Two pending answers, then the credentials.\<close>

definition sample_poll :: poll_env where
  "sample_poll = \<lparr>pe_srv = (\<lambda>k _. if k < 2 then HttpReply 202 [] else HttpReply 200 ''b''), pe_dur = (\<lambda>_. 100),
     pe_cancel = None, pe_decode = (\<lambda>_. Some sample_claim)\<rparr>"

lemma sample_request:
  "request sample_urls sample_poll u ua k = Inr (if k < 2 then (202, []) else (200, ''b''))"
  by (simp add: request_def doJSON_def new_request_def sample_urls_def sample_poll_def Let_def)

lemma sample_delivered: "pairPoll sample_urls sample_build sample_poll sample_opts ''C'' 0 = Some (Claimed sample_claim)"
  by (rule pairPoll_claimed [where m = 2 and D = 100 and bd = "''b''" and endpoint = "''a/api/byoc2/pair/poll''", OF _ refl refl])
    (simp_all add: sample_request, simp_all add: sample_poll_def joinURL_def sample_opts_def sample_urls_def
      joined_path_def trim_left_def trim_right_def)

theorem pairPoll_delivers_witness:
  "pairPoll sample_urls sample_build sample_poll sample_opts ''C'' 0 = Some (Claimed sample_claim)"
  by (rule pairPoll_delivers [where m = 2 and D = 100 and bd = "''b''" and endpoint = "''a/api/byoc2/pair/poll''", OF _ refl refl])
    (simp_all add: sample_request, simp_all add: sample_poll_def joinURL_def sample_opts_def sample_urls_def
      joined_path_def trim_left_def trim_right_def)

theorem pairPoll_outcome_witness:
  "\<exists>u ua j bd. request sample_urls sample_poll u ua j = Inr (200, bd) \<and> pe_decode sample_poll bd = Some sample_claim"
  using pairPoll_outcome [OF sample_delivered] by simp

definition sample_world :: pair_world where
  "sample_world = \<lparr>pw_ul = sample_urls, pw_resolve = (\<lambda>b r. r), pw_build = sample_build, pw_hostname = ''h'',
     pw_init = (\<lambda>_. HttpReply 201 ''i''), pw_marshal_init = (\<lambda>_. Some ''j''),
     pw_decode_init = (\<lambda>_. Some \<lparr>pr_Code = ''C'', pr_ClaimURL = [], pr_ExpiresAt = []\<rparr>), pw_poll = sample_poll,
     pw_start = 0, pw_paths = \<lparr>pl_join = concat, pl_dir = (\<lambda>_. [])\<rparr>, pw_marshal = (\<lambda>c. Some (PrivateKey c)),
     pw_host = \<lparr>he_getenv = (\<lambda>_. []), he_lookpath = (\<lambda>_. None)\<rparr>, pw_pairedAt = ''t''\<rparr>"

definition sample_paired :: Config where
  "sample_paired = claimed_config sample_claim ''t'' ''a''"

lemma sample_init:
  "pairInit sample_urls sample_build (\<lambda>_. HttpReply 201 ''i'') hn (\<lambda>_. Some ''j'')
     (\<lambda>_. Some \<lparr>pr_Code = ''C'', pr_ClaimURL = [], pr_ExpiresAt = []\<rparr>) sample_opts
   = Inr (''C'', \<lparr>pr_Code = ''C'', pr_ClaimURL = [], pr_ExpiresAt = []\<rparr>)"
  by (simp add: pairInit_def joinURL_def sample_opts_def sample_urls_def doJSON_def new_request_def Let_def)

lemma sample_readable:
  "readable (\<lambda>c. Some (PrivateKey c)) (\<lambda>s. if s = [CHR ''k'', CHR 0x0A] then Some sample_paired else None) sample_paired"
  by (simp add: readable_def sample_paired_def claimed_config_def sample_claim_def)


end
