(* ===== verification/Client_Args.thy ===== *)
theory Client_Args
  imports Pairing
begin

text \<open>
  \<open>parseArgs\<close> of \<open>client/main.go\<close>: the command line, with the rules of Go's \<open>flag\<close> package
  for the flags the client declares. The result is the parsed \<open>rootFlags\<close>, or the status the
  process exits with.
\<close>

section \<open>The flags\<close>

record rootFlags =
  rf_subcommand :: string
  rf_arena :: string
  rf_configPath :: path
  rf_noBrowser :: bool
  rf_forcePair :: bool
  rf_keepServer :: bool
  rf_token :: string
  rf_priv :: string
  rf_pub :: string
  rf_ip :: string
  rf_host :: string
  rf_verbose :: bool
  rf_killSwitch :: bool
  rf_portable :: bool

datatype flag_var = BoolVar "bool \<Rightarrow> rootFlags \<Rightarrow> rootFlags" | StringVar "string \<Rightarrow> rootFlags \<Rightarrow> rootFlags"

definition defaultArenaBaseURL :: string where
  "defaultArenaBaseURL = ''https://arena.adversario.cl''"

text \<open>The flag set: every flag with the field it sets.\<close>

definition flag_set :: "(string \<times> flag_var) list" where
  "flag_set =
    [(''arena'', StringVar (\<lambda>v rf. rf\<lparr>rf_arena := v\<rparr>)),
     (''config'', StringVar (\<lambda>v rf. rf\<lparr>rf_configPath := v\<rparr>)),
     (''no-browser'', BoolVar (\<lambda>v rf. rf\<lparr>rf_noBrowser := v\<rparr>)),
     (''force-pair'', BoolVar (\<lambda>v rf. rf\<lparr>rf_forcePair := v\<rparr>)),
     (''keep-server'', BoolVar (\<lambda>v rf. rf\<lparr>rf_keepServer := v\<rparr>)),
     (''token'', StringVar (\<lambda>v rf. rf\<lparr>rf_token := v\<rparr>)),
     (''priv'', StringVar (\<lambda>v rf. rf\<lparr>rf_priv := v\<rparr>)),
     (''pub'', StringVar (\<lambda>v rf. rf\<lparr>rf_pub := v\<rparr>)),
     (''ip'', StringVar (\<lambda>v rf. rf\<lparr>rf_ip := v\<rparr>)),
     (''host'', StringVar (\<lambda>v rf. rf\<lparr>rf_host := v\<rparr>)),
     (''v'', BoolVar (\<lambda>v rf. rf\<lparr>rf_verbose := v\<rparr>)),
     (''kill-switch'', BoolVar (\<lambda>v rf. rf\<lparr>rf_killSwitch := v\<rparr>)),
     (''portable'', BoolVar (\<lambda>v rf. rf\<lparr>rf_portable := v\<rparr>))]"

definition default_flags :: "string \<Rightarrow> rootFlags" where
  "default_flags goos = \<lparr>rf_subcommand = [], rf_arena = [], rf_configPath = [], rf_noBrowser = False, rf_forcePair = False,
     rf_keepServer = False, rf_token = [], rf_priv = [], rf_pub = [], rf_ip = [], rf_host = [], rf_verbose = False,
     rf_killSwitch = (goos \<noteq> ''windows''), rf_portable = False\<rparr>"

section \<open>The \<open>flag\<close> package\<close>

text \<open>\<open>strconv.ParseBool\<close>\<close>

definition parseBool :: "string \<Rightarrow> bool option" where
  "parseBool s = (if s \<in> {''1'', ''t'', ''T'', ''TRUE'', ''true'', ''True''} then Some True
     else if s \<in> {''0'', ''f'', ''F'', ''FALSE'', ''false'', ''False''} then Some False else None)"

text \<open>A flag's name and, after the first equals sign past the first character, its value.\<close>

definition cut_value :: "string \<Rightarrow> string \<times> string option" where
  "cut_value s = (case s of [] \<Rightarrow> ([], None)
     | c # cs \<Rightarrow> (let nm = takeWhile (\<lambda>d. d \<noteq> CHR ''='') cs; rest = dropWhile (\<lambda>d. d \<noteq> CHR ''='') cs in
        (c # nm, case rest of [] \<Rightarrow> None | _ # v \<Rightarrow> Some v)))"

definition flag_name :: "string \<Rightarrow> string" where
  "flag_name s = (if s ! 1 = CHR ''-'' then drop 2 s else drop 1 s)"

text \<open>
  One argument, as \<open>FlagSet.parseOne\<close> takes it: parsing stops at the first argument that is
  not a flag, a bad flag ends the process with status 2 (\<open>ExitOnError\<close>), a request for help
  with 0.
\<close>

datatype parse_step = StopParsing | ExitWith nat | NextArgs rootFlags "string list"

definition set_flag :: "flag_var \<Rightarrow> string option \<Rightarrow> string list \<Rightarrow> rootFlags \<Rightarrow> parse_step" where
  "set_flag fv val args rf = (case fv of
     BoolVar put \<Rightarrow> (case val of None \<Rightarrow> NextArgs (put True rf) args
       | Some v \<Rightarrow> (case parseBool v of None \<Rightarrow> ExitWith 2 | Some b \<Rightarrow> NextArgs (put b rf) args))
   | StringVar put \<Rightarrow> (case val of Some v \<Rightarrow> NextArgs (put v rf) args
       | None \<Rightarrow> (case args of [] \<Rightarrow> ExitWith 2 | v # rest \<Rightarrow> NextArgs (put v rf) rest)))"

definition parseOne :: "string \<Rightarrow> string list \<Rightarrow> rootFlags \<Rightarrow> parse_step" where
  "parseOne s args rf =
     (if length s < 2 \<or> hd s \<noteq> CHR ''-'' then StopParsing
      else if s = ''--'' then StopParsing
      else if flag_name s = [] \<or> hd (flag_name s) = CHR ''-'' \<or> hd (flag_name s) = CHR ''='' then ExitWith 2
      else (case cut_value (flag_name s) of (nm, val) \<Rightarrow>
        (case map_of flag_set nm of
           None \<Rightarrow> ExitWith (if nm = ''help'' \<or> nm = ''h'' then 0 else 2)
         | Some fv \<Rightarrow> set_flag fv val args rf)))"

lemma set_flag_shorter: "set_flag fv val args rf = NextArgs rf' args' \<Longrightarrow> length args' \<le> length args"
  by (auto simp: set_flag_def split: flag_var.splits option.splits list.splits)

lemma parseOne_next:
  assumes "parseOne s args rf = NextArgs rf' args'"
  obtains nm val fv where "map_of flag_set nm = Some fv" "set_flag fv val args rf = NextArgs rf' args'"
proof -
  obtain nm val where c: "cut_value (flag_name s) = (nm, val)" by (cases "cut_value (flag_name s)")
  with assms that show ?thesis
    by (cases "map_of flag_set nm") (auto simp: parseOne_def split: if_splits)
qed

lemma parseOne_shorter: "parseOne s args rf = NextArgs rf' args' \<Longrightarrow> length args' \<le> length args"
  by (elim parseOne_next) (rule set_flag_shorter)

function parse_flags :: "string list \<Rightarrow> rootFlags \<Rightarrow> nat + rootFlags" where
  "parse_flags [] rf = Inr rf"
| "parse_flags (s # args) rf = (case parseOne s args rf of
     StopParsing \<Rightarrow> Inr rf | ExitWith x \<Rightarrow> Inl x | NextArgs rf' args' \<Rightarrow> parse_flags args' rf')"
  by pat_completeness auto
termination
  by (relation "measure (\<lambda>(args, rf). length args)") (simp_all add: less_Suc_eq_le parseOne_shorter)

section \<open>\<open>parseArgs\<close>\<close>

definition isFlagLike :: "string \<Rightarrow> bool" where
  "isFlagLike s \<longleftrightarrow> length s > 0 \<and> s ! 0 = CHR ''-''"

definition subcommands :: "string list" where
  "subcommands = [''logout'', ''status'', ''pair'', ''version'', ''help'']"

definition take_subcommand :: "string list \<Rightarrow> rootFlags \<Rightarrow> nat + (rootFlags \<times> string list)" where
  "take_subcommand args rf = (case args of [] \<Rightarrow> Inr (rf, args)
     | a # rest \<Rightarrow> if isFlagLike a then Inr (rf, args)
         else if a \<in> set subcommands then Inr (rf\<lparr>rf_subcommand := a\<rparr>, rest)
         else if a \<in> {''--help'', ''-h''} then Inl ExitOK
         else Inr (rf, args))"

definition settle_flags :: "(string \<Rightarrow> string) \<Rightarrow> rootFlags \<Rightarrow> rootFlags" where
  "settle_flags getenv rf =
     (let rf1 = (if rf_arena rf = [] then rf\<lparr>rf_arena := (if getenv ''ARENA_BYOC_URL'' \<noteq> [] then getenv ''ARENA_BYOC_URL''
                   else defaultArenaBaseURL)\<rparr> else rf);
          rf2 = (if \<not> rf_portable rf1 \<and> getenv ''ARENA_PORTABLE'' = ''1'' then rf1\<lparr>rf_portable := True\<rparr> else rf1)
      in if rf_portable rf2 \<and> rf_killSwitch rf2 then rf2\<lparr>rf_killSwitch := False\<rparr> else rf2)"

definition parseArgs :: "string \<Rightarrow> (string \<Rightarrow> string) \<Rightarrow> string list \<Rightarrow> nat + rootFlags" where
  "parseArgs goos getenv argv = (case take_subcommand (drop 1 argv) (default_flags goos) of
     Inl x \<Rightarrow> Inl x
   | Inr (rf, args) \<Rightarrow> (case parse_flags args rf of Inl x \<Rightarrow> Inl x | Inr rf \<Rightarrow> Inr (settle_flags getenv rf)))"

section \<open>What parsing keeps\<close>

lemma flag_set_keeps:
  "map_of flag_set nm = Some (BoolVar f) \<Longrightarrow> rf_subcommand (f b rf) = rf_subcommand rf"
  "map_of flag_set nm = Some (StringVar g) \<Longrightarrow> rf_subcommand (g v rf) = rf_subcommand rf"
  by (auto simp: flag_set_def split: if_splits)

lemma set_flag_subcommand:
  assumes "map_of flag_set nm = Some fv" "set_flag fv val args rf = NextArgs rf' args'"
  shows "rf_subcommand rf' = rf_subcommand rf"
proof (cases fv)
  case (BoolVar put)
  with assms flag_set_keeps(1) [of nm put] show ?thesis by (auto simp: set_flag_def split: option.splits)
next
  case (StringVar put)
  with assms flag_set_keeps(2) [of nm put] show ?thesis by (auto simp: set_flag_def split: option.splits list.splits)
qed

lemma parse_flags_subcommand: "parse_flags args rf = Inr rf' \<Longrightarrow> rf_subcommand rf' = rf_subcommand rf"
proof (induction args rf rule: parse_flags.induct)
  case (2 s args rf)
  show ?case
  proof (cases "parseOne s args rf")
    case (NextArgs rf1 args1)
    with "2.IH" [OF NextArgs] "2.prems" have "rf_subcommand rf' = rf_subcommand rf1" by simp
    with NextArgs show ?thesis by (elim parseOne_next) (simp add: set_flag_subcommand)
  qed (use "2.prems" in simp_all)
qed simp

section \<open>Flags written out\<close>

text \<open>A command line that spells out every flag.\<close>

definition show_bool :: "bool \<Rightarrow> string" where
  "show_bool b = (if b then ''true'' else ''false'')"

definition flag_text :: "string \<Rightarrow> string \<Rightarrow> string" where
  "flag_text nm v = ''-'' @ nm @ ''='' @ v"

definition render_flags :: "rootFlags \<Rightarrow> string list" where
  "render_flags rf =
    [flag_text ''arena'' (rf_arena rf), flag_text ''config'' (rf_configPath rf),
     flag_text ''no-browser'' (show_bool (rf_noBrowser rf)), flag_text ''force-pair'' (show_bool (rf_forcePair rf)),
     flag_text ''keep-server'' (show_bool (rf_keepServer rf)), flag_text ''token'' (rf_token rf),
     flag_text ''priv'' (rf_priv rf), flag_text ''pub'' (rf_pub rf), flag_text ''ip'' (rf_ip rf), flag_text ''host'' (rf_host rf),
     flag_text ''v'' (show_bool (rf_verbose rf)), flag_text ''kill-switch'' (show_bool (rf_killSwitch rf)),
     flag_text ''portable'' (show_bool (rf_portable rf))]"

lemma parse_show_bool [simp]: "parseBool (show_bool b) = Some b"
  by (simp add: parseBool_def show_bool_def)

lemma cut_flag: "nm \<noteq> [] \<Longrightarrow> CHR ''='' \<notin> set nm \<Longrightarrow> cut_value (nm @ ''='' @ v) = (nm, Some v)"
proof (cases nm)
  case (Cons c cs)
  assume "CHR ''='' \<notin> set nm"
  then have "\<And>d. d \<in> set cs \<Longrightarrow> d \<noteq> CHR ''=''" using Cons by auto
  then show ?thesis by (simp add: cut_value_def Cons Let_def takeWhile_append2 dropWhile_append2)
qed simp

lemma parse_flag_text:
  assumes "nm \<noteq> []" "hd nm \<noteq> CHR ''-''" "CHR ''='' \<notin> set nm"
  shows "map_of flag_set nm = Some (StringVar put) \<Longrightarrow> parse_flags (flag_text nm v # args) rf = parse_flags args (put v rf)"
    "map_of flag_set nm = Some (BoolVar bput) \<Longrightarrow> parse_flags (flag_text nm (show_bool b) # args) rf = parse_flags args (bput b rf)"
proof -
  have n: "flag_name (flag_text nm u) = nm @ ''='' @ u" for u
    using assms(1,2) by (cases nm) (simp_all add: flag_name_def flag_text_def)
  have h: "hd nm \<noteq> CHR ''=''" using assms(1,3) by (cases nm) auto
  have c: "cut_value (nm @ ''='' @ u) = (nm, Some u)" for u using cut_flag [OF assms(1,3)] .
  have s: "\<not> length (flag_text nm u) < 2" "hd (flag_text nm u) = CHR ''-''" "flag_text nm u \<noteq> ''--''" for u
    using assms(1,2) by (cases nm; simp add: flag_text_def)+
  show "map_of flag_set nm = Some (StringVar put) \<Longrightarrow> parse_flags (flag_text nm v # args) rf = parse_flags args (put v rf)"
    using s [of v] c [of v] h assms(1,2) by (simp add: n parseOne_def set_flag_def)
  show "map_of flag_set nm = Some (BoolVar bput) \<Longrightarrow> parse_flags (flag_text nm (show_bool b) # args) rf = parse_flags args (bput b rf)"
    using s [of "show_bool b"] c [of "show_bool b"] h assms(1,2) by (simp add: n parseOne_def set_flag_def)
qed

lemma parse_render: "parse_flags (render_flags rf) rf0 = Inr (rf\<lparr>rf_subcommand := rf_subcommand rf0\<rparr>)"
  unfolding render_flags_def
  by (simp add: parse_flag_text flag_set_def del: parse_flags.simps(2))

section \<open>Properties\<close>

text \<open>
  A portable run never arms the kill switch: whatever the command line and the
  environment, parsed flags with \<open>-portable\<close> or \<open>ARENA_PORTABLE=1\<close> have the kill switch off;
  the base URL is never empty; and the subcommand is one of the five or none.
\<close>

lemma parseArgs_sound:
  assumes "parseArgs goos getenv argv = Inr rf"
  shows "(rf_portable rf \<longrightarrow> \<not> rf_killSwitch rf) \<and> (getenv ''ARENA_PORTABLE'' = ''1'' \<longrightarrow> rf_portable rf)
    \<and> rf_arena rf \<noteq> [] \<and> rf_subcommand rf \<in> insert [] (set subcommands)"
proof -
  from assms obtain rf0 args rf1 where r: "take_subcommand (drop 1 argv) (default_flags goos) = Inr (rf0, args)"
    "parse_flags args rf0 = Inr rf1" "rf = settle_flags getenv rf1"
    by (auto simp: parseArgs_def split: sum.splits prod.splits)
  from r(1) have "rf_subcommand rf0 \<in> insert [] (set subcommands)"
    by (auto simp: take_subcommand_def default_flags_def split: list.splits if_splits)
  then have "rf_subcommand rf1 \<in> insert [] (set subcommands)" using parse_flags_subcommand [OF r(2)] by simp
  then show ?thesis by (auto simp: r(3) settle_flags_def Let_def defaultArenaBaseURL_def)
qed

lemma parseArgs_sound_witness:
  "\<exists>rf. parseArgs ''linux'' (\<lambda>_. []) [''arena-tunnel'', ''-kill-switch'', ''-portable=T''] = Inr rf \<and> \<not> rf_killSwitch rf"
proof -
  let ?rf = "settle_flags (\<lambda>_. []) ((default_flags ''linux'')\<lparr>rf_killSwitch := True, rf_portable := True\<rparr>)"
  have p: "parseArgs ''linux'' (\<lambda>_. []) [''arena-tunnel'', ''-kill-switch'', ''-portable=T''] = Inr ?rf"
    by (simp add: parseArgs_def take_subcommand_def isFlagLike_def parseOne_def set_flag_def flag_name_def cut_value_def flag_set_def parseBool_def)
  have "rf_portable ?rf" by (simp add: settle_flags_def default_flags_def Let_def)
  with parseArgs_sound [OF p] p show ?thesis by blast
qed

text \<open>
  (C35) Every combination of flags can be given: a command line that spells out each flag of a
  setting as \<open>-name=value\<close>, whatever the values contain, is parsed back to exactly that setting.
\<close>

theorem parse_flags_roundtrip:
  "parse_flags (render_flags rf) (default_flags goos) = Inr (rf\<lparr>rf_subcommand := []\<rparr>)"
  by (simp add: parse_render default_flags_def)

text \<open>
  The documented \<open>arena-tunnel pair --force\<close> is rejected: there is no such flag, and the
  process ends with status 2 before anything else happens.
\<close>

lemma pair_force_rejected:
  "parseArgs goos getenv [prog, ''pair'', ''--force''] = Inl 2"
  by (simp add: parseArgs_def take_subcommand_def isFlagLike_def subcommands_def parseOne_def flag_name_def cut_value_def flag_set_def)

end
