(* ===== verification/Client_Connect.thy ===== *)
theory Client_Connect
  imports Platform Client_Shovel Client_Args
begin

text \<open>
  \<open>runConnect\<close> of \<open>client/main.go\<close> with its helpers: the whole bring-up of a tunnel, the wait
  for the first connection, the polling loop and every way out, over any \<open>platform\<close>. Calls
  into wireguard-go and the sockets are entries of the command log that may fail. The banner it
  prints is in theory \<open>Banner\<close>.
\<close>

section \<open>Helpers\<close>

definition pick :: "string \<Rightarrow> string \<Rightarrow> string" where
  "pick override baked = (if override \<noteq> [] then override else baked)"

text \<open>\<open>hostname\<close> and \<open>port\<close> are \<open>url.URL\<close>'s, of a URL with the given host; \<open>isIP\<close> is
  \<open>net.ParseIP\<close>; \<open>lookup\<close> the resolver within its eight seconds.\<close>

datatype resolve_error = InvalidHost | LookupFailed string | NoIPv4 string

definition joinHostPort :: "string \<Rightarrow> string \<Rightarrow> string" where
  "joinHostPort h p = (if CHR '':'' \<in> set h then ''['' @ h @ '']:'' @ p else h @ '':'' @ p)"

definition resolveWSSDialAddress :: "(string \<Rightarrow> string) \<Rightarrow> (string \<Rightarrow> string) \<Rightarrow> (string \<Rightarrow> bool)
    \<Rightarrow> (string \<Rightarrow> net_ip list option) \<Rightarrow> string \<Rightarrow> resolve_error + string" where
  "resolveWSSDialAddress hostname port isIP lookup host =
     (let h = hostname host; p = (if port host = [] then ''443'' else port host) in
      if h = [] then Inl InvalidHost
      else if isIP h then Inr (joinHostPort h p)
      else (case lookup h of
          None \<Rightarrow> Inl (LookupFailed h)
        | Some ips \<Rightarrow> (case ip4s ips of [] \<Rightarrow> Inl (NoIPv4 h) | ip # _ \<Rightarrow> Inr (joinHostPort ip p))))"

definition allowedControlPlaneHosts :: "url_lib \<Rightarrow> (string \<Rightarrow> string) \<Rightarrow> (string set \<Rightarrow> string list) \<Rightarrow> string \<Rightarrow> Config \<Rightarrow> string
    \<Rightarrow> string list" where
  "allowedControlPlaneHosts ul hostname ord serverHost cfg arenaBaseURL =
     (let base = (if ServerHost cfg \<noteq> [] then {ServerHost cfg} else if serverHost \<noteq> [] then {serverHost} else {});
          named = (\<lambda>raw. if raw = [] then {} else (case ul_parse ul raw of None \<Rightarrow> {}
             | Some u \<Rightarrow> if u_host u \<noteq> [] then {hostname (u_host u)} else {}))
      in walk ord (base \<union> named (ArenaBaseURL cfg) \<union> named arenaBaseURL))"

definition ipc_config :: "string \<Rightarrow> string \<Rightarrow> nat \<Rightarrow> string" where
  "ipc_config privHex srvHex localPort =
     ''private_key='' @ privHex @ [CHR 0x0A] @ ''listen_port=0'' @ [CHR 0x0A] @ ''public_key='' @ srvHex @ [CHR 0x0A]
     @ ''endpoint=127.0.0.1:'' @ dec localPort @ [CHR 0x0A] @ ''allowed_ip=0.0.0.0/0'' @ [CHR 0x0A]
     @ ''persistent_keepalive_interval=25'' @ [CHR 0x0A]"

section \<open>The environment of a connection\<close>

text \<open>Which of the three cases of the first \<open>select\<close> comes.\<close>

datatype first_event = FirstConnected | FirstTimeout | FirstCancelled

text \<open>What a tick of the 60 s poll meets.\<close>

record tick =
  tk_cp :: cp_world
  tk_srv :: service

record connect_env =
  ce_ul :: url_lib
  ce_srv :: service
  ce_decode :: "string \<Rightarrow> networkProfile option option"
  ce_build :: build
  ce_x25519 :: "string \<Rightarrow> string option"
  ce_tunnelName :: string
  ce_serverHost :: string
  ce_localPort :: nat
  ce_hostname :: "string \<Rightarrow> string"
  ce_port :: "string \<Rightarrow> string"
  ce_isIP :: "string \<Rightarrow> bool"
  ce_lookup :: "string \<Rightarrow> net_ip list option"
  ce_wsURL :: "string \<Rightarrow> string"  \<comment> \<open>the \<open>wss\<close> URL of a host\<close>
  ce_ord :: "string set \<Rightarrow> string list"
  ce_first :: first_event
  ce_ticks :: "tick list"  \<comment> \<open>the ticks before a signal ends the run\<close>

record connect_result =
  cr_code :: nat
  cr_shovel :: "(string \<times> string \<times> string) option"  \<comment> \<open>URL, token and dial address of \<open>runShovel\<close>\<close>
  cr_heartbeat :: "(string \<times> string \<times> string \<times> bool) option"  \<comment> \<open>arguments of \<open>startHeartbeat\<close>\<close>

definition ended :: "nat \<Rightarrow> connect_result" where
  "ended code = \<lparr>cr_code = code, cr_shovel = None, cr_heartbeat = None\<rparr>"

section \<open>The steps of \<open>runConnect\<close>\<close>

abbreviation closing :: "string \<Rightarrow> cmd" where
  "closing what \<equiv> [what]"

text \<open>Device, socket and interface; on a failure everything opened so far is closed.\<close>

definition bring_up :: "faults \<Rightarrow> platform \<Rightarrow> connect_env \<Rightarrow> Config \<Rightarrow> networkProfile \<Rightarrow> string \<Rightarrow> string \<Rightarrow> os \<Rightarrow> bool \<times> os" where
  "bring_up flt pf ce cfg np privHex srvHex w =
     (case run_cmd flt [''tun.CreateTUN'', ce_tunnelName ce, ''1380''] w of
        (False, w1) \<Rightarrow> (False, w1)
      | (True, w1) \<Rightarrow>
        (let w2 = w1\<lparr>os_cmds := os_cmds w1 @ [([''device.NewDevice''], None)]\<rparr> in
         case run_cmd flt [''net.ListenUDP'', ''127.0.0.1:0''] w2 of
           (False, w3) \<Rightarrow> (False, run_cmds flt [[''dev.Close''], [''tdev.Close'']] w3)
         | (True, w3) \<Rightarrow>
           (let close_all = run_cmds flt [[''udpConn.Close''], [''dev.Close''], [''tdev.Close'']] in
            case run_cmd flt [''dev.IpcSet'', ipc_config privHex srvHex (ce_localPort ce)] w3 of
              (False, w4) \<Rightarrow> (False, close_all w4)
            | (True, w4) \<Rightarrow> (case run_cmd flt [''dev.Up''] w4 of
                (False, w5) \<Rightarrow> (False, close_all w5)
              | (True, w5) \<Rightarrow> (case pf_configureTUN pf (TunnelIP cfg) np w5 of
                  (Some _, w6) \<Rightarrow> (False, close_all w6)
                | (None, w6) \<Rightarrow> (True, w6))))))"

text \<open>The kill switch, when asked for; an install that fails is only logged.\<close>

definition arm :: "platform \<Rightarrow> connect_env \<Rightarrow> rootFlags \<Rightarrow> Config \<Rightarrow> os \<Rightarrow> bool \<times> os" where
  "arm pf ce rf cfg w =
     (if \<not> rf_killSwitch rf then (False, w)
      else (case pf_installKS pf (allowedControlPlaneHosts (ce_ul ce) (ce_hostname ce) (ce_ord ce) (ce_serverHost ce) cfg (rf_arena rf)) w of
        (Some _, w1) \<Rightarrow> (False, w1) | (None, w1) \<Rightarrow> (True, w1)))"

text \<open>
  The polling loop: one round per tick, with the profile in force. A revocation cancels the
  context; a failed fetch or reconcile keeps the profile. (\<open>reconcileTUN\<close> does not panic on
  the validated profiles it is given: see \<open>Tun_Config\<close>.) A round under way when the signal comes is
  taken to end before the teardown.
\<close>

fun poll_ticks :: "platform \<Rightarrow> build \<Rightarrow> url_lib \<Rightarrow> (string \<Rightarrow> networkProfile option option) \<Rightarrow> Config \<Rightarrow> tick list
    \<Rightarrow> networkProfile \<Rightarrow> os \<Rightarrow> networkProfile \<times> os" where
  "poll_ticks pf b ul decode cfg [] cur w = (cur, w)"
| "poll_ticks pf b ul decode cfg (tk # tks) cur w =
     (case pingC2State (tk_cp tk) (ArenaBaseURL cfg) (RevocationToken cfg) (PrivateKey cfg) of
        (_, _, Some _) \<Rightarrow> poll_ticks pf b ul decode cfg tks cur w
      | (revoked, _, None) \<Rightarrow>
        (let w1 = cleanupArenaTrustIfRevoked (pf_trust pf) revoked w in
         if revoked then (cur, w1)
         else (case fetchNetworkProfile ul (tk_srv tk) decode b cfg of
             Inl _ \<Rightarrow> poll_ticks pf b ul decode cfg tks cur w1
           | Inr nxt \<Rightarrow>
               if networkProfilesEqual (Some cur) (Some nxt) then poll_ticks pf b ul decode cfg tks cur w1
               else (case pf_reconcile pf cur nxt w1 of
                   (Some _, w2) \<Rightarrow> poll_ticks pf b ul decode cfg tks cur w2
                 | (None, w2) \<Rightarrow> poll_ticks pf b ul decode cfg tks nxt w2))))"

text \<open>The early ends after \<open>configureTUN\<close>.\<close>

definition abandon :: "faults \<Rightarrow> platform \<Rightarrow> networkProfile \<Rightarrow> os \<Rightarrow> os" where
  "abandon flt pf np w = run_cmds flt [[''udpConn.Close''], [''dev.Close''], [''tdev.Close'']] (pf_teardownTUN pf np w)"

text \<open>The run itself, from the first connection to the shutdown.\<close>

definition serve :: "faults \<Rightarrow> platform \<Rightarrow> connect_env \<Rightarrow> Config \<Rightarrow> networkProfile \<Rightarrow> os \<Rightarrow> os" where
  "serve flt pf ce cfg np w =
     (case (if ArenaBaseURL cfg \<noteq> [] then poll_ticks pf (ce_build ce) (ce_ul ce) (ce_decode ce) cfg (ce_ticks ce) np w else (np, w)) of
        (cur, w1) \<Rightarrow> run_cmds flt [[''dev.Close''], [''tdev.Close''], [''udpConn.Close'']] (pf_teardownTUN pf cur w1))"

definition heartbeat_args :: "connect_env \<Rightarrow> Config \<Rightarrow> bool \<Rightarrow> (string \<times> string \<times> string \<times> bool) option" where
  "heartbeat_args ce cfg armed =
     (if ArenaBaseURL cfg \<noteq> [] \<and> RevocationToken cfg \<noteq> [] then
        (case derivePubKey (ce_x25519 ce) (PrivateKey cfg) of None \<Rightarrow> None
         | Some peerID \<Rightarrow> Some (ArenaBaseURL cfg, peerID, RevocationToken cfg, armed))
      else None)"

definition connect_and_serve :: "faults \<Rightarrow> platform \<Rightarrow> connect_env \<Rightarrow> Config \<Rightarrow> networkProfile \<Rightarrow> string \<Rightarrow> bool \<Rightarrow> os \<Rightarrow> connect_result \<times> os" where
  "connect_and_serve flt pf ce cfg np host armed w =
     (case resolveWSSDialAddress (ce_hostname ce) (ce_port ce) (ce_isIP ce) (ce_lookup ce) host of
        Inl _ \<Rightarrow> (ended ExitFatalRuntime, abandon flt pf np w)
      | Inr dialAddress \<Rightarrow>
        (let sh = Some (ce_wsURL ce host, RevocationToken cfg, dialAddress) in
         case ce_first ce of
           FirstConnected \<Rightarrow> (case pf_configureDNS pf np w of
               (Some _, w1) \<Rightarrow> ((ended ExitFatalRuntime)\<lparr>cr_shovel := sh\<rparr>, abandon flt pf np w1)
             | (None, w1) \<Rightarrow> (\<lparr>cr_code = ExitOK, cr_shovel = sh, cr_heartbeat = heartbeat_args ce cfg armed\<rparr>, serve flt pf ce cfg np w1))
         | FirstTimeout \<Rightarrow> ((ended ExitFatalRuntime)\<lparr>cr_shovel := sh\<rparr>, abandon flt pf np w)
         | FirstCancelled \<Rightarrow> ((ended ExitOK)\<lparr>cr_shovel := sh\<rparr>, abandon flt pf np w)))"

text \<open>\<open>runConnect\<close>; the deferred teardown of the kill switch comes last.\<close>

definition runConnect :: "faults \<Rightarrow> platform \<Rightarrow> connect_env \<Rightarrow> rootFlags \<Rightarrow> Config \<Rightarrow> os \<Rightarrow> connect_result \<times> os" where
  "runConnect flt pf ce rf cfg w =
     (if PrivateKey cfg = [] \<or> ServerPubKey cfg = [] \<or> TunnelIP cfg = [] then (ended ExitFatalRuntime, w)
      else (case fetchNetworkProfile (ce_ul ce) (ce_srv ce) (ce_decode ce) (ce_build ce) cfg of
        Inl _ \<Rightarrow> (ended ExitFatalRuntime, w)
      | Inr np \<Rightarrow>
        (let host = (if ServerHost cfg = [] then ce_serverHost ce else ServerHost cfg) in
         case b64ToHex (PrivateKey cfg) of None \<Rightarrow> (ended ExitFatalRuntime, w)
         | Some privHex \<Rightarrow> (case b64ToHex (ServerPubKey cfg) of None \<Rightarrow> (ended ExitFatalRuntime, w)
           | Some srvHex \<Rightarrow> (case bring_up flt pf ce cfg np privHex srvHex w of
               (False, w1) \<Rightarrow> (ended ExitFatalRuntime, w1)
             | (True, w1) \<Rightarrow> (case arm pf ce rf cfg w1 of
                 (armed, w2) \<Rightarrow> (case connect_and_serve flt pf ce cfg np host armed w2 of
                   (res, w3) \<Rightarrow> (res, if armed then pf_teardownKS pf w3 else w3))))))))"

section \<open>Without a pairing there is no tunnel\<close>

lemma runConnect_unpaired:
  "RevocationToken cfg = [] \<or> ArenaBaseURL cfg = [] \<Longrightarrow> runConnect flt pf ce rf cfg w = (ended ExitFatalRuntime, w)"
  by (auto simp: runConnect_def fetchNetworkProfile_def)

section \<open>What is held\<close>

text \<open>The devices and sockets a log has opened and not closed.\<close>

definition effect :: "cmd \<Rightarrow> (bool \<times> string) option" where
  "effect c = (if c = [] then None else map_of
     [(''tun.CreateTUN'', (True, ''tun'')), (''device.NewDevice'', (True, ''dev'')), (''net.ListenUDP'', (True, ''udp'')),
      (''tdev.Close'', (False, ''tun'')), (''dev.Close'', (False, ''dev'')), (''udpConn.Close'', (False, ''udp''))] (hd c))"

definition held :: "string set \<Rightarrow> cmd \<times> oserr option \<Rightarrow> string set" where
  "held R e = (case effect (fst e) of None \<Rightarrow> R
     | Some (opening, x) \<Rightarrow> if \<not> opening then R - {x} else if snd e = None then insert x R else R)"

lemma effects:
  "effect (''tun.CreateTUN'' # a) = Some (True, ''tun'')" "effect (''device.NewDevice'' # a) = Some (True, ''dev'')"
  "effect (''net.ListenUDP'' # a) = Some (True, ''udp'')" "effect (''tdev.Close'' # a) = Some (False, ''tun'')"
  "effect (''dev.Close'' # a) = Some (False, ''dev'')" "effect (''udpConn.Close'' # a) = Some (False, ''udp'')"
  "effect (''dev.IpcSet'' # a) = None" "effect (''dev.Up'' # a) = None"
  by (simp_all add: effect_def)

lemma effect_quiet: "\<not> device_cmd c \<Longrightarrow> effect c = None"
  by (auto simp: effect_def device_cmd_def)

lemma held_simps:
  "held R (''tun.CreateTUN'' # a, r) = (if r = None then insert ''tun'' R else R)"
  "held R (''device.NewDevice'' # a, r) = (if r = None then insert ''dev'' R else R)"
  "held R (''net.ListenUDP'' # a, r) = (if r = None then insert ''udp'' R else R)"
  "held R (''tdev.Close'' # a, r) = R - {''tun''}" "held R (''dev.Close'' # a, r) = R - {''dev''}"
  "held R (''udpConn.Close'' # a, r) = R - {''udp''}"
  "held R (''dev.IpcSet'' # a, r) = R" "held R (''dev.Up'' # a, r) = R"
  by (simp_all add: held_def effects)

definition moves :: "string set \<Rightarrow> os \<Rightarrow> os \<Rightarrow> string set \<Rightarrow> bool" where
  "moves R w w' R' \<longleftrightarrow> (\<exists>l. os_cmds w' = os_cmds w @ l \<and> foldl held R l = R')"

lemma moves_refl [simp]: "moves R w w R"
  by (simp add: moves_def)

lemma moves_trans [trans]: "moves R w w1 R1 \<Longrightarrow> moves R1 w1 w2 R2 \<Longrightarrow> moves R w w2 R2"
  by (auto simp: moves_def)

lemma held_quiet: "list_all (\<lambda>e. \<not> device_cmd (fst e)) l \<Longrightarrow> foldl held R l = R"
  by (induction l) (simp_all add: held_def effect_quiet)

lemma moves_quiet: "logs (\<lambda>c. \<not> device_cmd c) w w' \<Longrightarrow> moves R w w' R"
  using held_quiet unfolding logs_def moves_def by blast

lemma moves_log: "os_cmds w' = os_cmds w @ [(c, r)] \<Longrightarrow> held R (c, r) = R' \<Longrightarrow> moves R w w' R'"
  by (simp add: moves_def)

lemma moves_cmd:
  assumes "run_cmd flt c w = (ok, w')" "\<And>r. held R (c, r) = (if r = None then A else B)"
  shows "moves R w w' (if ok then A else B)"
  using run_cmd_log [OF assms(1)] assms(2) by (auto intro: moves_log)

lemma moves_one:
  "moves R w (snd (run_cmd flt [''tdev.Close''] w)) (R - {''tun''})"
  "moves R w (snd (run_cmd flt [''dev.Close''] w)) (R - {''dev''})"
  "moves R w (snd (run_cmd flt [''udpConn.Close''] w)) (R - {''udp''})"
  by (rule moves_log, rule run_cmd_simps, rule held_simps)+

lemma moves_close:
  "moves R w (run_cmds flt [[''dev.Close''], [''tdev.Close'']] w) (R - {''dev''} - {''tun''})"
  "moves R w (run_cmds flt [[''udpConn.Close''], [''dev.Close''], [''tdev.Close'']] w) (R - {''udp''} - {''dev''} - {''tun''})"
  "moves R w (run_cmds flt [[''dev.Close''], [''tdev.Close''], [''udpConn.Close'']] w) (R - {''dev''} - {''tun''} - {''udp''})"
  unfolding run_cmds.simps
  by (rule moves_trans [OF moves_one(2) moves_one(1)],
      rule moves_trans [OF moves_trans [OF moves_one(3) moves_one(2)] moves_one(1)],
      rule moves_trans [OF moves_trans [OF moves_one(2) moves_one(1)] moves_one(3)])

definition open_all :: "string set" where
  "open_all = {''tun'', ''dev'', ''udp''}"

lemma open_all_closed: "open_all - {''udp''} - {''dev''} - {''tun''} = {}" "open_all - {''dev''} - {''tun''} - {''udp''} = {}"
  "{''dev'', ''tun''} - {''dev''} - {''tun''} = ({} :: string set)"
  by (auto simp: open_all_def)

lemma device_cmds [simp]:
  "device_cmd (''tun.CreateTUN'' # a)" "device_cmd (''device.NewDevice'' # a)" "device_cmd (''net.ListenUDP'' # a)"
  "device_cmd (''dev.IpcSet'' # a)" "device_cmd (''dev.Up'' # a)" "device_cmd (''dev.Close'' # a)" "device_cmd (''tdev.Close'' # a)"
  "device_cmd (''udpConn.Close'' # a)"
  by (simp_all add: device_cmd_def)

lemma fetched_authorised: "fetchNetworkProfile ul srv decode b cfg = Inr np \<Longrightarrow> authorised_profile np"
  by (auto simp: fetchNetworkProfile_def validate_authorised [symmetric] split: if_splits sum.splits prod.splits option.splits)

context platform_laws
begin

lemma bring_up_moves:
  assumes "authorised_profile np" "bring_up flt pf ce cfg np privHex srvHex w = (ok, w')"
  shows "moves {} w w' (if ok then open_all else {})"
proof -
  let ?c1 = "[''tun.CreateTUN'', ce_tunnelName ce, ''1380'']" and ?c3 = "[''net.ListenUDP'', ''127.0.0.1:0'']"
  let ?c4 = "[''dev.IpcSet'', ipc_config privHex srvHex (ce_localPort ce)]" and ?c5 = "[''dev.Up'']"
  obtain b1 w1 where 1: "run_cmd flt ?c1 w = (b1, w1)" by (cases "run_cmd flt ?c1 w")
  define w2 where "w2 = w1\<lparr>os_cmds := os_cmds w1 @ [([''device.NewDevice''], None)]\<rparr>"
  obtain b3 w3 where 3: "run_cmd flt ?c3 w2 = (b3, w3)" by (cases "run_cmd flt ?c3 w2")
  obtain b4 w4 where 4: "run_cmd flt ?c4 w3 = (b4, w4)" by (cases "run_cmd flt ?c4 w3")
  obtain b5 w5 where 5: "run_cmd flt ?c5 w4 = (b5, w5)" by (cases "run_cmd flt ?c5 w4")
  obtain e w6 where 6: "pf_configureTUN pf (TunnelIP cfg) np w5 = (e, w6)" by (cases "pf_configureTUN pf (TunnelIP cfg) np w5")
  have m1: "moves {} w w1 (if b1 then {''tun''} else {})" by (rule moves_cmd [OF 1]) (simp add: held_simps)
  have m2: "moves {''tun''} w1 w2 {''dev'', ''tun''}" 
    by (rule moves_log [of _ _ "[''device.NewDevice'']" None]) (simp_all add: w2_def held_simps)
  have m3: "moves {''dev'', ''tun''} w2 w3 (if b3 then open_all else {''dev'', ''tun''})"
    by (rule moves_cmd [OF 3]) (simp add: held_simps open_all_def insert_commute)
  have m4: "moves open_all w3 w4 open_all" using moves_cmd [OF 4, of open_all open_all open_all] by (simp add: held_simps)
  have m5: "moves open_all w4 w5 open_all" using moves_cmd [OF 5, of open_all open_all open_all] by (simp add: held_simps)
  have "logs (\<lambda>c. \<not> device_cmd c) w5 w6"
    using logs_mono [OF configure_log [OF assms(1), of w5 "TunnelIP cfg"], of "\<lambda>c. \<not> device_cmd c"] 6 by simp
  then have m6: "moves open_all w5 w6 open_all" by (rule moves_quiet)
  have c: "moves open_all v (run_cmds flt [[''udpConn.Close''], [''dev.Close''], [''tdev.Close'']] v) {}" for v
    using moves_close(2) [of open_all v flt] by (simp only: open_all_closed)
  have c2: "moves {''dev'', ''tun''} v (run_cmds flt [[''dev.Close''], [''tdev.Close'']] v) {}" for v
    using moves_close(1) [of "{''dev'', ''tun''}" v flt] by (simp only: open_all_closed)
  show ?thesis
  proof (cases b1)
    case True
    note m12 = moves_trans [OF m1 [simplified True if_True] m2]
    show ?thesis
    proof (cases b3)
      case b3: True
      note m13 = moves_trans [OF m12 m3 [simplified b3 if_True]]
      note m14 = moves_trans [OF m13 m4]
      note m15 = moves_trans [OF m14 m5]
      note m16 = moves_trans [OF m15 m6]
      from assms(2) 1 3 4 5 6 True b3 moves_trans [OF m14 c] moves_trans [OF m15 c] moves_trans [OF m16 c] m16
      show ?thesis
        by (cases b4; cases b5; cases e) (auto simp: bring_up_def w2_def [symmetric] Let_def simp del: run_cmds.simps)
    next
      case False
      from assms(2) 1 3 True False moves_trans [OF moves_trans [OF m12 m3 [simplified False if_False]] c2]
      show ?thesis by (auto simp: bring_up_def w2_def [symmetric] simp del: run_cmds.simps)
    qed
  next
    case False
    with assms(2) 1 m1 show ?thesis by (auto simp: bring_up_def)
  qed
qed

lemma bring_up_logs:
  assumes "authorised_profile np"
  shows "logs confined w (snd (bring_up flt pf ce cfg np privHex srvHex w))"
    "logs (\<lambda>c. \<not> sets_dns c) w (snd (bring_up flt pf ce cfg np privHex srvHex w))"
proof -
  have q: "logs P w (snd (bring_up flt pf ce cfg np privHex srvHex w))"
    if d: "\<And>c. device_cmd c \<Longrightarrow> P c" and p: "\<And>v. logs P v (snd (pf_configureTUN pf (TunnelIP cfg) np v))" for P
  proof -
    let ?c1 = "[''tun.CreateTUN'', ce_tunnelName ce, ''1380'']" and ?c3 = "[''net.ListenUDP'', ''127.0.0.1:0'']"
    let ?c4 = "[''dev.IpcSet'', ipc_config privHex srvHex (ce_localPort ce)]" and ?c5 = "[''dev.Up'']"
    obtain b1 w1 where 1: "run_cmd flt ?c1 w = (b1, w1)" by (cases "run_cmd flt ?c1 w")
    define w2 where "w2 = w1\<lparr>os_cmds := os_cmds w1 @ [([''device.NewDevice''], None)]\<rparr>"
    obtain b3 w3 where 3: "run_cmd flt ?c3 w2 = (b3, w3)" by (cases "run_cmd flt ?c3 w2")
    obtain b4 w4 where 4: "run_cmd flt ?c4 w3 = (b4, w4)" by (cases "run_cmd flt ?c4 w3")
    obtain b5 w5 where 5: "run_cmd flt ?c5 w4 = (b5, w5)" by (cases "run_cmd flt ?c5 w4")
    obtain e w6 where 6: "pf_configureTUN pf (TunnelIP cfg) np w5 = (e, w6)" by (cases "pf_configureTUN pf (TunnelIP cfg) np w5")
    have l1: "logs P w w1" by (rule logs_cmd [OF 1]) (rule d, simp)
    have "logs P w1 w2" by (rule logs_one [of _ _ "[''device.NewDevice'']" None]) (simp add: w2_def, rule d, simp)
    note l2 = logs_trans [OF l1 this]
    have "logs P w2 w3" by (rule logs_cmd [OF 3]) (rule d, simp)
    note l3 = logs_trans [OF l2 this]
    have "logs P w3 w4" by (rule logs_cmd [OF 4]) (rule d, simp)
    note l4 = logs_trans [OF l3 this]
    have "logs P w4 w5" by (rule logs_cmd [OF 5]) (rule d, simp)
    note l5 = logs_trans [OF l4 this]
    have "logs P w5 w6" using p [of w5] 6 by simp
    note l6 = logs_trans [OF l5 this]
    have c: "logs P v (run_cmds flt [[''udpConn.Close''], [''dev.Close''], [''tdev.Close'']] v)"
      "logs P v (run_cmds flt [[''dev.Close''], [''tdev.Close'']] v)" for v
      by (rule logs_cmds, simp add: d)+
    show ?thesis
      using l1 l6 1 3 4 5 6 logs_trans [OF l3 c(2)] logs_trans [OF l4 c(1)] logs_trans [OF l5 c(1)] logs_trans [OF l6 c(1)]
      by (cases b1; cases b3; cases b4; cases b5; cases e)
        (simp_all add: bring_up_def w2_def [symmetric] Let_def del: run_cmds.simps)
  qed
  have r: "logs (\<lambda>c. \<not> device_cmd c \<and> (\<forall>r. installs c = Some r \<longrightarrow> r \<in> networkRouteSet np)) v
      (snd (pf_configureTUN pf (TunnelIP cfg) np v))" for v
    by (rule logs_mono [OF configure_log [OF assms]]) simp
  show "logs confined w (snd (bring_up flt pf ce cfg np privHex srvHex w))"
    by (rule q) (simp add: confined_def device_quiet, rule logs_routes [OF r assms])
  show "logs (\<lambda>c. \<not> sets_dns c) w (snd (bring_up flt pf ce cfg np privHex srvHex w))"
    by (rule q) (simp add: device_quiet, rule logs_mono [OF configure_log [OF assms]], simp)
qed

lemma arm_logs: "logs (\<lambda>c. \<not> device_cmd c \<and> \<not> sets_dns c \<and> installs c = None) w (snd (arm pf ce rf cfg w))"
proof -
  let ?h = "allowedControlPlaneHosts (ce_ul ce) (ce_hostname ce) (ce_ord ce) (ce_serverHost ce) cfg (rf_arena rf)"
  obtain e w1 where "pf_installKS pf ?h w = (e, w1)" by (cases "pf_installKS pf ?h w")
  with installKS_log [of w ?h] show ?thesis by (cases e) (simp_all add: arm_def)
qed

lemma trust_logs: "logs (\<lambda>c. \<not> device_cmd c \<and> \<not> sets_dns c \<and> installs c = None) w (cleanupArenaTrustIfRevoked (pf_trust pf) r w)"
  using trust_log [of w] by (simp add: cleanupArenaTrustIfRevoked_def cleanupArenaTrust_def)

text \<open>A tick ends the poll, or the poll goes on with an authorised profile.\<close>

lemma tick_logs:
  assumes "authorised_profile cur" "poll_ticks pf b ul decode cfg (tk # tks) cur w = (cur', w')"
  obtains v where "logs confined w v" "logs (\<lambda>c. \<not> device_cmd c) w v"
    "w' = v \<or> (\<exists>c. authorised_profile c \<and> poll_ticks pf b ul decode cfg tks c v = (cur', w'))"
proof -
  obtain revoked ver e where p: "pingC2State (tk_cp tk) (ArenaBaseURL cfg) (RevocationToken cfg) (PrivateKey cfg) = (revoked, ver, e)"
    by (cases "pingC2State (tk_cp tk) (ArenaBaseURL cfg) (RevocationToken cfg) (PrivateKey cfg)")
  define w1 where "w1 = cleanupArenaTrustIfRevoked (pf_trust pf) revoked w"
  have l1: "logs confined w w1" "logs (\<lambda>c. \<not> device_cmd c) w w1"
    using logs_quiet [OF trust_logs [of w revoked]] by (simp_all add: w1_def)
  consider "e \<noteq> None" | "e = None" "revoked" | x where "e = None" "\<not> revoked" "fetchNetworkProfile ul (tk_srv tk) decode b cfg = Inl x"
    | nxt where "e = None" "\<not> revoked" "fetchNetworkProfile ul (tk_srv tk) decode b cfg = Inr nxt"
    by (cases "fetchNetworkProfile ul (tk_srv tk) decode b cfg") blast+
  then show thesis
  proof cases
    case 1
    with assms p have "poll_ticks pf b ul decode cfg tks cur w = (cur', w')" by auto
    with assms(1) that [of w] show thesis by auto
  next
    case 2
    with assms p l1 that [of w1] show thesis by (simp add: w1_def)
  next
    case 3
    with assms p have "poll_ticks pf b ul decode cfg tks cur w1 = (cur', w')" by (simp add: w1_def)
    with assms(1) l1 that [of w1] show thesis by blast
  next
    case (4 nxt)
    note a = fetched_authorised [OF 4(3)]
    obtain z w2 where rec: "pf_reconcile pf cur nxt w1 = (z, w2)" by (cases "pf_reconcile pf cur nxt w1")
    have l2: "logs confined w1 w2" "logs (\<lambda>c. \<not> device_cmd c) w1 w2"
      using logs_routes [OF reconcile_log [OF a, of w1 cur] a] rec by simp_all
    note l = l1 logs_trans [OF l1(1) l2(1)] logs_trans [OF l1(2) l2(2)]
    have w1: "cleanupArenaTrustIfRevoked (pf_trust pf) False w = w1" using 4 by (simp add: w1_def)
    show thesis
    proof (cases "networkProfilesEqual (Some cur) (Some nxt)")
      case True
      with assms p 4 have "poll_ticks pf b ul decode cfg tks cur w1 = (cur', w')" by (simp add: w1)
      with assms(1) l that [of w1] show thesis by blast
    next
      case False
      with assms p 4 rec a have "\<exists>c. authorised_profile c \<and> poll_ticks pf b ul decode cfg tks c w2 = (cur', w')"
        by (cases z) (auto simp: w1)
      with l that [of w2] show thesis by blast
    qed
  qed
qed

lemma poll_logs:
  "authorised_profile cur \<Longrightarrow> poll_ticks pf b ul decode cfg tks cur w = (cur', w') \<Longrightarrow>
   logs confined w w' \<and> logs (\<lambda>c. \<not> device_cmd c) w w'"
proof (induction tks arbitrary: cur w)
  case (Cons tk tks)
  from tick_logs [OF Cons.prems] obtain v where v: "logs confined w v" "logs (\<lambda>c. \<not> device_cmd c) w v"
    "w' = v \<or> (\<exists>c. authorised_profile c \<and> poll_ticks pf b ul decode cfg tks c v = (cur', w'))" by blast
  from v(3) show ?case
  proof
    assume "\<exists>c. authorised_profile c \<and> poll_ticks pf b ul decode cfg tks c v = (cur', w')"
    then have "logs confined v w' \<and> logs (\<lambda>c. \<not> device_cmd c) v w'" using Cons.IH by blast
    with v(1,2) show ?case by (blast intro: logs_trans)
  qed (use v in simp)
qed simp

lemma close_logs:
  assumes "\<And>c. device_cmd c \<Longrightarrow> P c"
  shows "logs P w (run_cmds flt [[''udpConn.Close''], [''dev.Close''], [''tdev.Close'']] w)"
    "logs P w (run_cmds flt [[''dev.Close''], [''tdev.Close''], [''udpConn.Close'']] w)"
  by (rule logs_cmds, simp add: assms)+

lemma device_confined: "device_cmd c \<Longrightarrow> confined c"
  by (simp add: confined_def device_quiet)

lemma device_no_dns: "device_cmd c \<Longrightarrow> \<not> sets_dns c"
  by (simp add: device_quiet)

lemma abandon_logs:
  "logs confined w (abandon flt pf np w)" "logs (\<lambda>c. \<not> sets_dns c) w (abandon flt pf np w)"
  "moves open_all w (abandon flt pf np w) {}"
proof -
  note t = logs_quiet [OF teardown_log [of w np]]
  show "logs confined w (abandon flt pf np w)"
    unfolding abandon_def by (rule logs_trans [OF t(1) close_logs(1)]) (rule device_confined)
  show "logs (\<lambda>c. \<not> sets_dns c) w (abandon flt pf np w)"
    unfolding abandon_def by (rule logs_trans [OF t(3) close_logs(1)]) (rule device_no_dns)
  have "moves open_all v (run_cmds flt [[''udpConn.Close''], [''dev.Close''], [''tdev.Close'']] v) {}" for v
    using moves_close(2) [of open_all v flt] by (simp only: open_all_closed)
  then show "moves open_all w (abandon flt pf np w) {}"
    unfolding abandon_def by (rule moves_trans [OF moves_quiet [OF t(2)]])
qed

lemma serve_logs:
  assumes "authorised_profile np"
  shows "logs confined w (serve flt pf ce cfg np w)" "moves open_all w (serve flt pf ce cfg np w) {}"
proof -
  obtain cur w1 where s: "(if ArenaBaseURL cfg \<noteq> [] then poll_ticks pf (ce_build ce) (ce_ul ce) (ce_decode ce) cfg (ce_ticks ce) np w
      else (np, w)) = (cur, w1)" by fastforce
  have p: "logs confined w w1 \<and> logs (\<lambda>c. \<not> device_cmd c) w w1"
  proof (cases "ArenaBaseURL cfg = []")
    case False
    with s have "poll_ticks pf (ce_build ce) (ce_ul ce) (ce_decode ce) cfg (ce_ticks ce) np w = (cur, w1)" by simp
    from poll_logs [OF assms this] show ?thesis .
  qed (use s in simp)
  note t = logs_quiet [OF teardown_log [of w1 cur]]
  have e: "serve flt pf ce cfg np w = run_cmds flt [[''dev.Close''], [''tdev.Close''], [''udpConn.Close'']] (pf_teardownTUN pf cur w1)"
    unfolding serve_def s by simp
  show "logs confined w (serve flt pf ce cfg np w)"
    unfolding e by (rule logs_trans [OF logs_trans [OF conjunct1 [OF p] t(1)] close_logs(2)]) (rule device_confined)
  have "moves open_all v (run_cmds flt [[''dev.Close''], [''tdev.Close''], [''udpConn.Close'']] v) {}" for v
    using moves_close(3) [of open_all v flt] by (simp only: open_all_closed)
  then show "moves open_all w (serve flt pf ce cfg np w) {}"
    unfolding e by (rule moves_trans [OF moves_quiet [OF logs_trans [OF conjunct2 [OF p] t(2)]]])
qed

lemma connect_and_serve_logs:
  assumes "authorised_profile np" "connect_and_serve flt pf ce cfg np host armed w = (res, w')"
  shows "logs confined w w'" "moves open_all w w' {}" "ce_first ce \<noteq> FirstConnected \<Longrightarrow> logs (\<lambda>c. \<not> sets_dns c) w w'"
proof -
  obtain e w1 where d: "pf_configureDNS pf np w = (e, w1)" by (cases "pf_configureDNS pf np w")
  have l: "logs confined w w1" "logs (\<lambda>c. \<not> device_cmd c) w w1"
    using logs_mono [OF dns_log [of w np]] d by (auto simp: confined_def)
  note m = moves_quiet [OF l(2), of open_all]
  have "w' \<in> {abandon flt pf np w, abandon flt pf np w1, serve flt pf ce cfg np w1}"
    using assms(2) d by (auto simp: connect_and_serve_def Let_def split: sum.splits first_event.splits option.splits)
  then show "logs confined w w'" "moves open_all w w' {}"
    using abandon_logs logs_trans [OF l(1) abandon_logs(1)] logs_trans [OF l(1) serve_logs(1)]
      moves_trans [OF m abandon_logs(3)] moves_trans [OF m serve_logs(2)] assms(1) by auto
  show "logs (\<lambda>c. \<not> sets_dns c) w w'" if "ce_first ce \<noteq> FirstConnected"
  proof -
    have "w' = abandon flt pf np w"
      using assms(2) that by (auto simp: connect_and_serve_def Let_def split: sum.splits first_event.splits)
    then show ?thesis by (simp add: abandon_logs)
  qed
qed

text \<open>The ways through \<open>runConnect\<close>: it ends before anything is opened, in the bring-up, or after the
  first wait.\<close>

lemma runConnect_ways:
  assumes "runConnect flt pf ce rf cfg w = (res, w')"
  obtains "res = ended ExitFatalRuntime" "w' = w"
  | np privHex srvHex where "authorised_profile np" "bring_up flt pf ce cfg np privHex srvHex w = (False, w')" "res = ended ExitFatalRuntime"
  | np privHex srvHex host armed w1 w2 w3 where "authorised_profile np" "bring_up flt pf ce cfg np privHex srvHex w = (True, w1)"
      "arm pf ce rf cfg w1 = (armed, w2)" "connect_and_serve flt pf ce cfg np host armed w2 = (res, w3)"
      "w' = (if armed then pf_teardownKS pf w3 else w3)"
proof (cases "PrivateKey cfg = [] \<or> ServerPubKey cfg = [] \<or> TunnelIP cfg = []")
  case True
  with assms that(1) show ?thesis by (auto simp: runConnect_def)
next
  case creds: False
  show ?thesis
  proof (cases "fetchNetworkProfile (ce_ul ce) (ce_srv ce) (ce_decode ce) (ce_build ce) cfg")
    case (Inl e)
    with assms creds that(1) show ?thesis by (auto simp: runConnect_def)
  next
    case (Inr np)
    note a = fetched_authorised [OF Inr]
    show ?thesis
    proof (cases "b64ToHex (PrivateKey cfg) = None \<or> b64ToHex (ServerPubKey cfg) = None")
      case True
      with assms creds Inr that(1) show ?thesis by (auto simp: runConnect_def split: option.splits)
    next
      case False
      then obtain privHex srvHex where h: "b64ToHex (PrivateKey cfg) = Some privHex" "b64ToHex (ServerPubKey cfg) = Some srvHex"
        by (cases "b64ToHex (PrivateKey cfg)"; cases "b64ToHex (ServerPubKey cfg)") auto
      obtain ok w1 where b: "bring_up flt pf ce cfg np privHex srvHex w = (ok, w1)" by (cases "bring_up flt pf ce cfg np privHex srvHex w")
      show ?thesis
      proof (cases ok)
        case False
        with assms creds Inr h b have "res = ended ExitFatalRuntime" "w' = w1" by (simp_all add: runConnect_def)
        with that(2) [OF a] b False show ?thesis by simp
      next
        case True
        obtain armed w2 where k: "arm pf ce rf cfg w1 = (armed, w2)" by (cases "arm pf ce rf cfg w1")
        obtain r w3 where c: "connect_and_serve flt pf ce cfg np (if ServerHost cfg = [] then ce_serverHost ce else ServerHost cfg) armed w2 = (r, w3)"
          by fastforce
        from assms creds Inr h b True k c have "res = r" "w' = (if armed then pf_teardownKS pf w3 else w3)"
          by (simp_all add: runConnect_def)
        with that(3) [OF a _ k] b True c show ?thesis by simp
      qed
    qed
  qed
qed

lemma runConnect_logs:
  assumes "runConnect flt pf ce rf cfg w = (res, w')"
  shows "logs confined w w'" "moves {} w w' {}" "ce_first ce \<noteq> FirstConnected \<Longrightarrow> logs (\<lambda>c. \<not> sets_dns c) w w'"
proof -
  have "logs confined w w' \<and> moves {} w w' {} \<and> (ce_first ce \<noteq> FirstConnected \<longrightarrow> logs (\<lambda>c. \<not> sets_dns c) w w')"
  using assms proof (cases rule: runConnect_ways)
    case 1
    then show ?thesis by simp
  next
    case (2 np privHex srvHex)
    with bring_up_moves [OF 2(1,2)] bring_up_logs [OF 2(1), of w flt ce cfg privHex srvHex] show ?thesis by simp
  next
    case (3 np privHex srvHex host armed w1 w2 w3)
    have b: "logs confined w w1" "logs (\<lambda>c. \<not> sets_dns c) w w1" "moves {} w w1 open_all"
      using bring_up_moves [OF 3(1,2)] bring_up_logs [OF 3(1), of w flt ce cfg privHex srvHex] 3(2) by simp_all
    have k: "logs confined w1 w2" "logs (\<lambda>c. \<not> device_cmd c) w1 w2" "logs (\<lambda>c. \<not> sets_dns c) w1 w2"
      using logs_quiet [OF arm_logs [of w1 ce rf cfg]] 3(3) by simp_all
    note c = connect_and_serve_logs [OF 3(1,4)]
    have t: "logs confined w3 w'" "logs (\<lambda>c. \<not> device_cmd c) w3 w'" "logs (\<lambda>c. \<not> sets_dns c) w3 w'"
      using logs_quiet [OF teardownKS_log [of w3]] 3(5) by (cases armed; simp)+
    have "logs confined w w'" by (rule logs_trans [OF logs_trans [OF logs_trans [OF b(1) k(1)] c(1)] t(1)])
    moreover have "moves {} w w' {}"
      by (rule moves_trans [OF moves_trans [OF moves_trans [OF b(3) moves_quiet [OF k(2)]] c(2)] moves_quiet [OF t(2)]])
    moreover have "logs (\<lambda>c. \<not> sets_dns c) w w'" if "ce_first ce \<noteq> FirstConnected"
      by (rule logs_trans [OF logs_trans [OF logs_trans [OF b(2) k(3)] c(3) [OF that]] t(3)])
    ultimately show ?thesis by blast
  qed
  then show "logs confined w w'" "moves {} w w' {}" "ce_first ce \<noteq> FirstConnected \<Longrightarrow> logs (\<lambda>c. \<not> sets_dns c) w w'" by blast+
qed

end

end
