(* ===== verification/Pid_Lock.thy ===== *)
theory Pid_Lock
  imports Go_Os
begin

text \<open>
  \<open>acquirePIDLock\<close> and \<open>releasePIDLock\<close> of \<open>client/main.go\<close> with \<open>processExists\<close> of
  \<open>client/pid_{unix,windows}.go\<close>: first as one process runs it on the operating-system
  state, then as the interleaved file operations of several processes. \<open>alive\<close> is
  \<open>kill(pid, 0)\<close> on Unix; \<open>scan\<close> is \<open>fmt.Sscan\<close> into an int, of which only the reading of
  what the program itself writes is used.
\<close>

section \<open>One process\<close>

definition processExists_unix :: "(nat \<Rightarrow> bool) \<Rightarrow> nat \<Rightarrow> bool" where
  "processExists_unix alive pid = alive pid"

definition processExists_windows :: "nat \<Rightarrow> bool" where
  "processExists_windows pid = False"

definition pidMaxAttempts :: nat where "pidMaxAttempts = 5"

definition pid_text :: "nat \<Rightarrow> string" where
  "pid_text pid = dec pid @ [CHR 0x0A]"

definition names_live :: "(nat \<Rightarrow> bool) \<Rightarrow> (string \<Rightarrow> int option) \<Rightarrow> string \<Rightarrow> bool" where
  "names_live exists scan raw \<longleftrightarrow> (case scan raw of None \<Rightarrow> False | Some k \<Rightarrow> k > 0 \<and> exists (nat k))"

fun acquire_from :: "nat \<Rightarrow> faults \<Rightarrow> (nat \<Rightarrow> bool) \<Rightarrow> (string \<Rightarrow> int option) \<Rightarrow> path \<Rightarrow> nat \<Rightarrow> os \<Rightarrow> bool \<times> os" where
  "acquire_from 0 flt exists scan p pid w = (False, w)"
| "acquire_from (Suc n) flt exists scan p pid w =
     (case os_CreateExcl flt p 420 w of
        (Inr _, w1) \<Rightarrow> (True, snd (os_Nop flt (snd (os_Write flt p 0 (pid_text pid) w1))))
      | (Inl e, w1) \<Rightarrow>
          if e \<noteq> Exist then (False, w1)
          else (case os_ReadFile flt p w1 of
            (Inl _, w2) \<Rightarrow> acquire_from n flt exists scan p pid (snd (os_Remove flt p w2))
          | (Inr raw, w2) \<Rightarrow>
              if names_live exists scan raw then (False, w2)
              else acquire_from n flt exists scan p pid (snd (os_Remove flt p w2))))"

definition acquirePIDLock :: "faults \<Rightarrow> (nat \<Rightarrow> bool) \<Rightarrow> (string \<Rightarrow> int option) \<Rightarrow> path \<Rightarrow> nat \<Rightarrow> os \<Rightarrow> bool \<times> os" where
  "acquirePIDLock flt exists scan p pid w = acquire_from pidMaxAttempts flt exists scan p pid w"

definition releasePIDLock :: "faults \<Rightarrow> path \<Rightarrow> os \<Rightarrow> os" where
  "releasePIDLock flt p w = snd (os_Remove flt p w)"

text \<open>What the code relies on of \<open>fmt.Sscan\<close>: it reads back a number it printed with a newline,
  and finds none in an empty file.\<close>

definition scan_reads :: "(string \<Rightarrow> int option) \<Rightarrow> bool" where
  "scan_reads scan \<longleftrightarrow> (\<forall>n. scan (pid_text n) = Some (int n)) \<and> scan [] = None"

lemma names_live_text: "scan_reads scan \<Longrightarrow> names_live exists scan (pid_text n) \<longleftrightarrow> 0 < n \<and> exists n"
  by (simp add: scan_reads_def names_live_def)

lemma names_live_empty: "scan_reads scan \<Longrightarrow> \<not> names_live exists scan []"
  by (simp add: scan_reads_def names_live_def)

text \<open>
  With no call failing and no other process interfering: the lock is refused exactly
  when the file names a live process, and then the file is left alone; in every other case
  (no file, unreadable text, dead process) it is taken, the file holding the own pid.
\<close>

lemma acquirePIDLock_alone:
  assumes "acquirePIDLock (\<lambda>_. None) exists scan p pid w = (ok, w')"
  shows "(case os_files w p of
       Some f \<Rightarrow> if names_live exists scan (f_data f) then \<not> ok \<and> os_files w' = os_files w
                 else ok \<and> os_files w' = (os_files w)(p \<mapsto> \<lparr>f_data = pid_text pid, f_mode = 420\<rparr>)
     | None \<Rightarrow> ok \<and> os_files w' = (os_files w)(p \<mapsto> \<lparr>f_data = pid_text pid, f_mode = 420\<rparr>))"
proof -
  have fresh: "acquire_from (Suc n) (\<lambda>_. None) exists scan p pid v = (ok', v') \<Longrightarrow> os_files v p = None \<Longrightarrow>
      ok' \<and> os_files v' = (os_files v)(p \<mapsto> \<lparr>f_data = pid_text pid, f_mode = 420\<rparr>)" for n v ok' v'
    by (auto simp: os_call_defs os_Write_def overwrite_def)
  show ?thesis
  proof (cases "os_files w p")
    case None
    with fresh [of 4 w ok w'] assms show ?thesis by (simp add: acquirePIDLock_def pidMaxAttempts_def numeral_eq_Suc)
  next
    case (Some f)
    define v where "v = w\<lparr>os_files := (os_files w)(p := None), os_tick := Suc (Suc (Suc (os_tick w)))\<rparr>"
    have step: "acquirePIDLock (\<lambda>_. None) exists scan p pid w =
       (if names_live exists scan (f_data f) then (False, w\<lparr>os_tick := Suc (Suc (os_tick w))\<rparr>)
        else acquire_from 4 (\<lambda>_. None) exists scan p pid v)"
      using Some
      by (simp add: acquirePIDLock_def pidMaxAttempts_def eval_nat_numeral os_call_defs v_def set_file_def)
    have "os_files v p = None" by (simp add: v_def)
    with fresh [of 3 v ok w'] step assms Some show ?thesis
      by (auto simp: v_def eval_nat_numeral split: if_splits)
  qed
qed

text \<open>On Windows no process counts as alive, so the lock refuses nobody.\<close>

lemma acquirePIDLock_windows:
  "fst (acquirePIDLock (\<lambda>_. None) processExists_windows scan p pid w)"
proof -
  have "\<not> names_live processExists_windows scan r" for r
    by (auto simp: names_live_def processExists_windows_def split: option.splits)
  with acquirePIDLock_alone [of processExists_windows scan p pid w, OF prod.collapse [symmetric]]
  show ?thesis by (auto split: option.splits)
qed

section \<open>Several processes\<close>

text \<open>
  Processes are named by their pids. The lock file is an inode with the process that
  created it: writing the pid goes to the creator's own inode, which is lost when another
  process has unlinked it meanwhile. \<open>Try n\<close> has \<open>n\<close> attempts left.
\<close>

datatype pc = Try nat | Seen nat | Judge nat string | Unlink nat | Filling | Holds | Refused

record lock_state =
  lk_file :: "(nat \<times> string) option"
  lk_pc :: "nat \<Rightarrow> pc"

inductive lock_step :: "(nat \<Rightarrow> bool) \<Rightarrow> (string \<Rightarrow> int option) \<Rightarrow> nat \<Rightarrow> lock_state \<Rightarrow> lock_state \<Rightarrow> bool"
  for exists scan where
  Create: "lk_pc s i = Try (Suc n) \<Longrightarrow> lk_file s = None \<Longrightarrow>
     lock_step exists scan i s (s\<lparr>lk_file := Some (i, []), lk_pc := (lk_pc s)(i := Filling)\<rparr>)"
| Clash: "lk_pc s i = Try (Suc n) \<Longrightarrow> lk_file s = Some f \<Longrightarrow>
     lock_step exists scan i s (s\<lparr>lk_pc := (lk_pc s)(i := Seen n)\<rparr>)"
| Exhausted: "lk_pc s i = Try 0 \<Longrightarrow> lock_step exists scan i s (s\<lparr>lk_pc := (lk_pc s)(i := Refused)\<rparr>)"
| Fill: "lk_pc s i = Filling \<Longrightarrow>
     lock_step exists scan i s (s\<lparr>lk_file := (case lk_file s of
         Some (j, c) \<Rightarrow> if j = i then Some (i, pid_text i) else Some (j, c) | None \<Rightarrow> None),
       lk_pc := (lk_pc s)(i := Holds)\<rparr>)"
| Read: "lk_pc s i = Seen n \<Longrightarrow> lk_file s = Some (j, c) \<Longrightarrow>
     lock_step exists scan i s (s\<lparr>lk_pc := (lk_pc s)(i := Judge n c)\<rparr>)"
| ReadGone: "lk_pc s i = Seen n \<Longrightarrow> lk_file s = None \<Longrightarrow>
     lock_step exists scan i s (s\<lparr>lk_pc := (lk_pc s)(i := Unlink n)\<rparr>)"
| Live: "lk_pc s i = Judge n c \<Longrightarrow> names_live exists scan c \<Longrightarrow>
     lock_step exists scan i s (s\<lparr>lk_pc := (lk_pc s)(i := Refused)\<rparr>)"
| Stale: "lk_pc s i = Judge n c \<Longrightarrow> \<not> names_live exists scan c \<Longrightarrow>
     lock_step exists scan i s (s\<lparr>lk_pc := (lk_pc s)(i := Unlink n)\<rparr>)"
| Remove: "lk_pc s i = Unlink n \<Longrightarrow>
     lock_step exists scan i s (s\<lparr>lk_file := None, lk_pc := (lk_pc s)(i := Try n)\<rparr>)"

inductive lock_reach :: "(nat \<Rightarrow> bool) \<Rightarrow> (string \<Rightarrow> int option) \<Rightarrow> lock_state \<Rightarrow> lock_state \<Rightarrow> bool"
  for exists scan where
  refl: "lock_reach exists scan s s"
| step: "lock_reach exists scan s t \<Longrightarrow> lock_step exists scan i t u \<Longrightarrow> lock_reach exists scan s u"

inductive_cases lock_stepE: "lock_step exists scan i s t"

definition lock_start :: lock_state where
  "lock_start = \<lparr>lk_file = None, lk_pc = (\<lambda>_. Try 5)\<rparr>"

text \<open>A process that never reached the unlinking of the file it saw.\<close>

definition harmless :: "nat \<Rightarrow> pc \<Rightarrow> bool" where
  "harmless i c = (case c of Try _ \<Rightarrow> True | Seen _ \<Rightarrow> True | Judge _ t \<Rightarrow> t = pid_text i | Refused \<Rightarrow> True | _ \<Rightarrow> False)"

definition recorded :: "nat \<Rightarrow> lock_state \<Rightarrow> bool" where
  "recorded i s \<longleftrightarrow> lk_file s = Some (i, pid_text i) \<and> lk_pc s i = Holds \<and> (\<forall>j. j \<noteq> i \<longrightarrow> harmless i (lk_pc s j))"

lemma recorded_step:
  assumes "lock_step exists scan j s t" "recorded i s" "scan_reads scan" "0 < i" "exists i"
  shows "recorded i t"
proof -
  have h: "lk_file s = Some (i, pid_text i)" "lk_pc s i = Holds" "\<And>k. k \<noteq> i \<Longrightarrow> harmless i (lk_pc s k)"
    using assms(2) by (simp_all add: recorded_def)
  have ji: "j \<noteq> i"
  proof
    assume "j = i"
    with h(2) have "lk_pc s j = Holds" by simp
    with assms(1) show False by (cases rule: lock_step.cases) simp_all
  qed
  have live: "names_live exists scan (pid_text i)" using names_live_text assms(3-5) by simp
  have frame: "recorded i (s\<lparr>lk_pc := (lk_pc s)(j := c)\<rparr>)" if "harmless i c" for c
    using h ji that by (simp add: recorded_def)
  note hj = h(3) [OF ji]
  from assms(1) show ?thesis
  proof (cases rule: lock_step.cases)
    case (Read n k c)
    with h(1) frame show ?thesis by (simp add: harmless_def)
  next
    case (Stale n c)
    with hj live show ?thesis by (simp add: harmless_def)
  qed (use h(1) hj frame in \<open>simp_all add: harmless_def\<close>)
qed


section \<open>The race\<close>

text \<open>The run in which the second process finds the file before the first has filled it.\<close>

definition race_end :: lock_state where
  "race_end = \<lparr>lk_file = Some (2, pid_text 2), lk_pc = (lk_pc lock_start)(1 := Holds, 2 := Holds)\<rparr>"

lemma reach_append: "lock_reach exists scan s t \<Longrightarrow> lock_step exists scan i t u \<Longrightarrow> u = v \<Longrightarrow> lock_reach exists scan s v"
  by (auto intro: lock_reach.step)

lemma race_run:
  assumes "scan_reads scan"
  shows "lock_reach exists scan lock_start race_end"
proof -
  let ?s1 = "\<lparr>lk_file = Some (1, []), lk_pc = (\<lambda>_. Try 5)(1 := Filling)\<rparr>"
  let ?s2 = "\<lparr>lk_file = Some (1, []), lk_pc = (\<lambda>_. Try 5)(1 := Filling, 2 := Seen 4)\<rparr>"
  let ?s3 = "\<lparr>lk_file = Some (1, []), lk_pc = (\<lambda>_. Try 5)(1 := Filling, 2 := Judge 4 [])\<rparr>"
  let ?s4 = "\<lparr>lk_file = Some (1, []), lk_pc = (\<lambda>_. Try 5)(1 := Filling, 2 := Unlink 4)\<rparr>"
  let ?s5 = "\<lparr>lk_file = None, lk_pc = (\<lambda>_. Try 5)(1 := Filling, 2 := Try 4)\<rparr>"
  let ?s6 = "\<lparr>lk_file = Some (2, []), lk_pc = (\<lambda>_. Try 5)(1 := Filling, 2 := Filling)\<rparr>"
  let ?s7 = "\<lparr>lk_file = Some (2, []), lk_pc = (\<lambda>_. Try 5)(1 := Holds, 2 := Filling)\<rparr>"
  have "lock_reach exists scan lock_start lock_start" by (rule lock_reach.refl)
  then have "lock_reach exists scan lock_start ?s1"
    by (rule reach_append [OF _ lock_step.Create [of _ 1 4]]) (simp_all add: lock_start_def)
  then have "lock_reach exists scan lock_start ?s2"
    by (rule reach_append [OF _ lock_step.Clash [of _ 2 4]]) simp_all
  then have "lock_reach exists scan lock_start ?s3"
    by (rule reach_append [OF _ lock_step.Read [of _ 2 4]]) (simp_all add: fun_upd_twist)
  then have "lock_reach exists scan lock_start ?s4"
    by (rule reach_append [OF _ lock_step.Stale [of _ 2 4 "[]"]]) (simp_all add: names_live_empty [OF assms])
  then have "lock_reach exists scan lock_start ?s5"
    by (rule reach_append [OF _ lock_step.Remove [of _ 2 4]]) simp_all
  then have "lock_reach exists scan lock_start ?s6"
    by (rule reach_append [OF _ lock_step.Create [of _ 2 3]]) simp_all
  then have "lock_reach exists scan lock_start ?s7"
    by (rule reach_append [OF _ lock_step.Fill [of _ 1]]) (simp_all add: fun_upd_twist)
  then show ?thesis
    by (rule reach_append [OF _ lock_step.Fill [of _ 2]]) (simp_all add: race_end_def lock_start_def)
qed

text \<open>
  The lock does not exclude two processes that start together, even if both are alive:
  the file exists before the pid is in it, so the second one reads an empty file, takes it
  for stale, unlinks it, and both end up holding the lock.
\<close>

lemma pid_lock_race:
  assumes "scan_reads scan"
  shows "\<exists>t. lock_reach exists scan lock_start t \<and> lk_pc t 1 = Holds \<and> lk_pc t 2 = Holds"
  using race_run [OF assms] by (intro exI [of _ race_end]) (simp add: race_end_def)

section \<open>Witnesses\<close>

definition sample_scan :: "string \<Rightarrow> int option" where
  "sample_scan s = (let ds = takeWhile is_digit s in if ds = [] then None else Some (int (undec ds)))"

lemma sample_scan_reads: "scan_reads sample_scan"
proof -
  have "takeWhile is_digit (pid_text n) = dec n" for n
    using dec_digits by (simp add: pid_text_def takeWhile_append is_digit_def)
  then show ?thesis by (simp add: scan_reads_def sample_scan_def)
qed

lemma acquirePIDLock_alone_witness:
  "fst (acquirePIDLock (\<lambda>_. None) (\<lambda>_. True) sample_scan ''p'' 7 \<lparr>os_files = (\<lambda>_. None), os_dirs = (\<lambda>_. None), os_cmds = [], os_tick = 0\<rparr>)"
  using acquirePIDLock_alone [of "\<lambda>_. True" sample_scan "''p''" 7
      "\<lparr>os_files = (\<lambda>_. None), os_dirs = (\<lambda>_. None), os_cmds = [], os_tick = 0\<rparr>", OF prod.collapse [symmetric]]
  by simp


lemma pid_lock_race_witness:
  "\<exists>t. lock_reach (\<lambda>_. True) sample_scan lock_start t \<and> lk_pc t 1 = Holds \<and> lk_pc t 2 = Holds"
  by (rule pid_lock_race [OF sample_scan_reads])

end
