(* ===== verification/Log_Sink.thy ===== *)
theory Log_Sink
  imports Config_Store
begin

text \<open>
  \<open>client/logsink.go\<close> and its two platform files: the durable log that rotates by size. As
  in the source, renaming and removing are parameters (\<open>osRename\<close>, \<open>osRemove\<close>), because
  Windows refuses to rename onto an existing file; the sink is the only writer of its file,
  and its lock makes a run of it a sequence of writes.
\<close>

section \<open>Where the log lives\<close>

definition durableLogPath :: "path_lib \<Rightarrow> (string \<Rightarrow> string) \<Rightarrow> string option \<Rightarrow> goos \<Rightarrow> path option" where
  "durableLogPath pl getenv home os =
     (if os = Windows then
        (if getenv ''LOCALAPPDATA'' = [] then None
         else Some (pl_join pl [getenv ''LOCALAPPDATA'', ''arena-tunnel'', ''arena-tunnel-task.log'']))
      else if getenv ''XDG_STATE_HOME'' = [] then
        (case home of None \<Rightarrow> None
         | Some h \<Rightarrow> Some (pl_join pl [pl_join pl [h, ''.local'', ''state''], ''arena-tunnel'', ''arena-tunnel-task.log'']))
      else Some (pl_join pl [getenv ''XDG_STATE_HOME'', ''arena-tunnel'', ''arena-tunnel-task.log'']))"

section \<open>The sink\<close>

definition logMaxBytes :: nat where "logMaxBytes = 5 * 2 ^ 20"
definition logKeep :: nat where "logKeep = 3"

record rotatingSink =
  sk_path :: path
  sk_max :: nat
  sk_keep :: nat
  sk_n :: nat
  sk_open :: bool

type_synonym mover = "path \<Rightarrow> path \<Rightarrow> os \<Rightarrow> oserr option \<times> os"
type_synonym remover = "path \<Rightarrow> os \<Rightarrow> oserr option \<times> os"

definition os_OpenLog :: "faults \<Rightarrow> bool \<Rightarrow> path \<Rightarrow> nat \<Rightarrow> unit sys" where
  "os_OpenLog flt trunc p mode = syscall flt (\<lambda>w. (Inr (), case os_files w p of
     None \<Rightarrow> set_file p (Some \<lparr>f_data = [], f_mode = mode\<rparr>) w
   | Some f \<Rightarrow> if trunc then set_file p (Some (f\<lparr>f_data := []\<rparr>)) w else w))"

definition file_size :: "path \<Rightarrow> os \<Rightarrow> nat" where
  "file_size p w = (case os_files w p of None \<Rightarrow> 0 | Some f \<Rightarrow> length (f_data f))"

definition open_sink :: "faults \<Rightarrow> bool \<Rightarrow> rotatingSink \<Rightarrow> os \<Rightarrow> oserr option \<times> rotatingSink \<times> os" where
  "open_sink flt trunc s w = (case os_OpenLog flt trunc (sk_path s) mode_0600 w of
     (Inl e, w1) \<Rightarrow> (Some e, s, w1)
   | (Inr _, w1) \<Rightarrow> (case os_Nop flt w1 of
       (Inl e, w2) \<Rightarrow> (Some e, s, snd (os_Nop flt w2))
     | (Inr _, w2) \<Rightarrow> (None, s\<lparr>sk_n := file_size (sk_path s) w2, sk_open := True\<rparr>, w2)))"

definition archive :: "path \<Rightarrow> nat \<Rightarrow> path" where
  "archive p i = p @ ''.'' @ dec i"

datatype rot_error = RemoveOldest oserr | Shift path oserr | ArchiveLive oserr

fun shift_archives :: "mover \<Rightarrow> path \<Rightarrow> nat \<Rightarrow> os \<Rightarrow> rot_error option \<times> os" where
  "shift_archives rename p 0 w = (None, w)"
| "shift_archives rename p (Suc i) w = (case rename (archive p (Suc i)) (archive p (Suc i + 1)) w of
     (r, w1) \<Rightarrow> if r \<noteq> None \<and> r \<noteq> Some NotExist then (Some (Shift (archive p (Suc i)) (the r)), w1)
                else shift_archives rename p i w1)"

definition rotate :: "mover \<Rightarrow> remover \<Rightarrow> rotatingSink \<Rightarrow> os \<Rightarrow> rot_error option \<times> os" where
  "rotate rename remove s w = (case remove (archive (sk_path s) (sk_keep s)) w of
     (r, w1) \<Rightarrow> if r \<noteq> None \<and> r \<noteq> Some NotExist then (Some (RemoveOldest (the r)), w1)
       else (case shift_archives rename (sk_path s) (sk_keep s - 1) w1 of
         (Some e, w2) \<Rightarrow> (Some e, w2)
       | (None, w2) \<Rightarrow> (case rename (sk_path s) (archive (sk_path s) 1) w2 of
           (Some e, w3) \<Rightarrow> (Some (ArchiveLive e), w3) | (None, w3) \<Rightarrow> (None, w3))))"

text \<open>\<open>f.Write\<close> on the sink's file; a closed file refuses.\<close>

definition write_file :: "faults \<Rightarrow> string \<Rightarrow> rotatingSink \<Rightarrow> os \<Rightarrow> nat \<times> oserr option \<times> os" where
  "write_file flt p s w =
     (if \<not> sk_open s then (0, Some OtherErr, w)
      else (case flt (os_tick w) of
        Some x \<Rightarrow> (min (fault_written x) (length p), Some (fault_err x),
          (write_at (sk_path s) (sk_n s) (take (fault_written x) p) w)\<lparr>os_tick := Suc (os_tick w)\<rparr>)
      | None \<Rightarrow> (length p, None, (write_at (sk_path s) (sk_n s) p w)\<lparr>os_tick := Suc (os_tick w)\<rparr>)))"

definition reopen :: "faults \<Rightarrow> mover \<Rightarrow> remover \<Rightarrow> rotatingSink \<Rightarrow> os \<Rightarrow> oserr option \<times> rotatingSink \<times> os" where
  "reopen flt rename remove s w =
     (let w1 = snd (os_Nop flt w); s1 = s\<lparr>sk_open := False\<rparr> in
      case rotate rename remove s1 w1 of
        (Some _, w2) \<Rightarrow> open_sink flt True s1 w2
      | (None, w2) \<Rightarrow> open_sink flt False s1 w2)"

definition Write :: "faults \<Rightarrow> mover \<Rightarrow> remover \<Rightarrow> string \<Rightarrow> rotatingSink \<Rightarrow> os
    \<Rightarrow> nat \<times> oserr option \<times> rotatingSink \<times> os" where
  "Write flt rename remove p s w =
     (case (if sk_n s + length p > sk_max s then reopen flt rename remove s w else (None, s, w)) of
        (Some e, s1, w1) \<Rightarrow> (0, Some e, s1, w1)
      | (None, s1, w1) \<Rightarrow> (case write_file flt p s1 w1 of
          (n, e, w2) \<Rightarrow> (n, e, s1\<lparr>sk_n := sk_n s1 + n\<rparr>, w2)))"

definition Close :: "faults \<Rightarrow> rotatingSink \<Rightarrow> os \<Rightarrow> oserr option \<times> rotatingSink \<times> os" where
  "Close flt s w = (case os_Nop flt w of (r, w') \<Rightarrow>
     (case r of Inl e \<Rightarrow> Some e | Inr _ \<Rightarrow> None, s\<lparr>sk_open := False\<rparr>, w'))"

text \<open>\<open>restrictToOwner\<close> sets an owner-only ACL on Windows and does nothing elsewhere.\<close>

definition restrictToOwner_other :: remover where
  "restrictToOwner_other p w = (None, w)"

definition restrictToOwner_windows :: "faults \<Rightarrow> remover" where
  "restrictToOwner_windows flt p w =
     (case run_call flt [''SecurityDescriptorFromString'', ''D:P(A;;FA;;;OW)''] w of
        (Some e, w1) \<Rightarrow> (Some e, w1)
      | (None, w1) \<Rightarrow> (case run_call flt [''DACL''] w1 of
          (Some e, w2) \<Rightarrow> (Some e, w2)
        | (None, w2) \<Rightarrow> run_call flt [''SetNamedSecurityInfo'', p] w2))"

datatype sink_error = SinkMkdir oserr | SinkDirACL oserr | SinkOpen oserr | SinkFileACL oserr

definition newRotatingSink :: "faults \<Rightarrow> path_lib \<Rightarrow> remover \<Rightarrow> path \<Rightarrow> nat \<Rightarrow> nat \<Rightarrow> os
    \<Rightarrow> (sink_error + rotatingSink) \<times> os" where
  "newRotatingSink flt pl restrict p maxSize keep w =
     (let dir = pl_dir pl p in
      case os_MkdirAll flt dir mode_0700 w of
        (Inl e, w1) \<Rightarrow> (Inl (SinkMkdir e), w1)
      | (Inr _, w1) \<Rightarrow> (case restrict dir w1 of
          (Some e, w2) \<Rightarrow> (Inl (SinkDirACL e), w2)
        | (None, w2) \<Rightarrow> (case os_Stat flt p w2 of
            (st, w3) \<Rightarrow>
              (let createdByUs = (st = Inl NotExist);
                   s = \<lparr>sk_path = p, sk_max = maxSize, sk_keep = keep, sk_n = 0, sk_open = False\<rparr> in
               case open_sink flt False s w3 of
                 (Some e, _, w4) \<Rightarrow> (Inl (SinkOpen e), w4)
               | (None, s1, w4) \<Rightarrow> (case restrict p w4 of
                   (Some e, w5) \<Rightarrow> (let w6 = snd (snd (Close flt s1 w5)) in
                      (Inl (SinkFileACL e), if createdByUs then snd (os_Remove flt p w6) else w6))
                 | (None, w5) \<Rightarrow> (Inr s1, w5))))))"

definition installDurableLog :: "faults \<Rightarrow> path_lib \<Rightarrow> remover \<Rightarrow> path option \<Rightarrow> os \<Rightarrow> rotatingSink option \<times> os" where
  "installDurableLog flt pl restrict lp w = (case lp of None \<Rightarrow> (None, w)
     | Some p \<Rightarrow> (case newRotatingSink flt pl restrict p logMaxBytes logKeep w of
         (Inl _, w') \<Rightarrow> (None, w') | (Inr s, w') \<Rightarrow> (Some s, w')))"

section \<open>Rename semantics\<close>

lemma archive_inject [simp]: "archive p i = archive p j \<longleftrightarrow> i = j"
  by (simp add: archive_def)

lemma archive_neq [simp]: "archive p i \<noteq> p" "p \<noteq> archive p i"
  by (simp_all add: archive_def)

text \<open>
  What the sink needs of the two operations, in a world whose calls are \<open>reliable\<close> or not.
  Both POSIX and Windows give it; Windows only because every destination is freed first.
\<close>

locale file_moves =
  fixes rename :: mover and remove :: remover and reliable :: bool
  assumes remove_ok: "remove p w = (None, w') \<Longrightarrow> os_files w' = (os_files w)(p := None)"
    and remove_err: "remove p w = (Some e, w') \<Longrightarrow> os_files w' = os_files w"
    and remove_missing: "remove p w = (Some NotExist, w') \<Longrightarrow> os_files w p = None"
    and rename_ok: "rename a b w = (None, w') \<Longrightarrow> a \<noteq> b \<Longrightarrow>
       os_files w' = (os_files w)(a := None, b := os_files w a)"
    and rename_err: "rename a b w = (Some e, w') \<Longrightarrow> os_files w' = os_files w"
    and rename_missing: "rename a b w = (Some NotExist, w') \<Longrightarrow> os_files w a = None"
    and remove_reliable: "reliable \<Longrightarrow> fst (remove p w) \<in> {None, Some NotExist}"
    and rename_reliable: "reliable \<Longrightarrow> os_files w b = None \<Longrightarrow>
       fst (rename a b w) = (if os_files w a = None then Some NotExist else None)"
begin

text \<open>Shifting with the top slot free moves every archive up by one and frees the first.\<close>

lemma shift_ok:
  "shift_archives rename p i w = (None, w') \<Longrightarrow> os_files w (archive p (Suc i)) = None \<Longrightarrow>
   (\<forall>j. 1 \<le> j \<and> j \<le> i \<longrightarrow> os_files w' (archive p (Suc j)) = os_files w (archive p j))
   \<and> os_files w' (archive p 1) = None
   \<and> (\<forall>q. (\<forall>j. 1 \<le> j \<and> j \<le> Suc i \<longrightarrow> q \<noteq> archive p j) \<longrightarrow> os_files w' q = os_files w q)"
proof (induction i arbitrary: w)
  case (Suc i)
  obtain r w1 where r: "rename (archive p (Suc i)) (archive p (Suc i + 1)) w = (r, w1)"
    by (cases "rename (archive p (Suc i)) (archive p (Suc i + 1)) w")
  with Suc.prems have rest: "shift_archives rename p i w1 = (None, w')" and ok: "r = None \<or> r = Some NotExist"
    by (auto split: if_splits)
  have w1: "os_files w1 = (os_files w)(archive p (Suc i) := None, archive p (Suc (Suc i)) := os_files w (archive p (Suc i)))"
    using ok r Suc.prems(2) rename_ok [of "archive p (Suc i)" "archive p (Suc i + 1)" w w1]
      rename_err [of "archive p (Suc i)" "archive p (Suc i + 1)" w NotExist w1]
      rename_missing [of "archive p (Suc i)" "archive p (Suc i + 1)" w w1]
    by (auto simp: fun_eq_iff)
  then have "os_files w1 (archive p (Suc i)) = None" by simp
  note IH = Suc.IH [OF rest this]
  show ?case
  proof (intro conjI allI impI)
    fix j assume j: "1 \<le> j \<and> j \<le> Suc i"
    show "os_files w' (archive p (Suc j)) = os_files w (archive p j)"
    proof (cases "j = Suc i")
      case True
      have "os_files w' (archive p (Suc (Suc i))) = os_files w1 (archive p (Suc (Suc i)))" using IH by auto
      with True w1 show ?thesis by simp
    next
      case False
      with j IH w1 show ?thesis by simp
    qed
  next
    show "os_files w' (archive p 1) = None" using IH by blast
  next
    fix q assume "\<forall>j. 1 \<le> j \<and> j \<le> Suc (Suc i) \<longrightarrow> q \<noteq> archive p j"
    with IH w1 show "os_files w' q = os_files w q" by auto
  qed
qed simp

lemma shift_frame:
  "shift_archives rename p i w = (r, w') \<Longrightarrow> (\<forall>j. 1 \<le> j \<and> j \<le> Suc i \<longrightarrow> q \<noteq> archive p j) \<Longrightarrow>
   os_files w' q = os_files w q"
proof (induction i arbitrary: w)
  case (Suc i)
  obtain x w1 where x: "rename (archive p (Suc i)) (archive p (Suc i + 1)) w = (x, w1)"
    by (cases "rename (archive p (Suc i)) (archive p (Suc i + 1)) w")
  have q1: "os_files w1 q = os_files w q"
    using x Suc.prems(2) rename_ok [of "archive p (Suc i)" "archive p (Suc i + 1)" w w1] rename_err
    by (cases x) auto
  show ?case
  proof (cases "x \<noteq> None \<and> x \<noteq> Some NotExist")
    case True
    with Suc.prems x q1 show ?thesis by simp
  next
    case False
    with Suc.prems x have "shift_archives rename p i w1 = (r, w')" by (auto split: if_splits)
    with Suc.IH [of w1] Suc.prems(2) q1 show ?thesis by auto
  qed
qed simp

lemma shift_reliable:
  "reliable \<Longrightarrow> os_files w (archive p (Suc i)) = None \<Longrightarrow> fst (shift_archives rename p i w) = None"
proof (induction i arbitrary: w)
  case (Suc i)
  obtain x w1 where x: "rename (archive p (Suc i)) (archive p (Suc i + 1)) w = (x, w1)"
    by (cases "rename (archive p (Suc i)) (archive p (Suc i + 1)) w")
  have rx: "x = (if os_files w (archive p (Suc i)) = None then Some NotExist else None)"
    using rename_reliable [OF Suc.prems(1), of w "archive p (Suc i + 1)" "archive p (Suc i)"] Suc.prems(2) x by simp
  have "os_files w1 (archive p (Suc i)) = None"
    using x rx rename_ok [of "archive p (Suc i)" "archive p (Suc i + 1)" w w1]
      rename_err [of "archive p (Suc i)" "archive p (Suc i + 1)" w NotExist w1]
    by (auto split: if_splits)
  from Suc.IH [OF Suc.prems(1) this] x rx show ?case by auto
qed simp

lemma rotate_ok:
  assumes "rotate rename remove s w = (None, w')" "1 \<le> sk_keep s"
  shows "os_files w' (archive (sk_path s) 1) = os_files w (sk_path s)"
    and "os_files w' (sk_path s) = None"
    and "1 \<le> j \<Longrightarrow> j < sk_keep s \<Longrightarrow> os_files w' (archive (sk_path s) (Suc j)) = os_files w (archive (sk_path s) j)"
    and "q \<noteq> sk_path s \<Longrightarrow> (\<And>j. 1 \<le> j \<Longrightarrow> j \<le> sk_keep s \<Longrightarrow> q \<noteq> archive (sk_path s) j) \<Longrightarrow> os_files w' q = os_files w q"
proof -
  let ?p = "sk_path s"
  obtain k where k: "sk_keep s = Suc k" using assms(2) by (cases "sk_keep s") auto
  obtain r w1 where r: "remove (archive ?p (Suc k)) w = (r, w1)" by (cases "remove (archive ?p (Suc k)) w")
  obtain y w2 where y: "shift_archives rename ?p k w1 = (y, w2)" by (cases "shift_archives rename ?p k w1")
  obtain z w3 where z: "rename ?p (archive ?p 1) w2 = (z, w3)" by (cases "rename ?p (archive ?p 1) w2")
  have ok: "r = None \<or> r = Some NotExist" "y = None" "z = None" "w' = w3"
    using assms(1) r y z k by (auto simp: rotate_def split: if_splits option.splits)
  have w1: "os_files w1 = (os_files w)(archive ?p (Suc k) := None)"
    using ok(1) r remove_ok [of "archive ?p (Suc k)" w w1] remove_err [of "archive ?p (Suc k)" w NotExist w1]
      remove_missing [of "archive ?p (Suc k)" w w1] by (auto simp: fun_eq_iff)
  note S = shift_ok [of ?p k w1 w2, OF y [unfolded ok(2)]]
  have w3: "os_files w3 = (os_files w2)(?p := None, archive ?p 1 := os_files w2 ?p)"
    using rename_ok [OF z [unfolded ok(3)]] by simp
  have p2: "os_files w2 ?p = os_files w ?p" using S w1 by simp
  show "os_files w' (archive ?p 1) = os_files w ?p" "os_files w' ?p = None"
    using w3 p2 ok(4) by simp_all
  show "os_files w' (archive ?p (Suc j)) = os_files w (archive ?p j)" if "1 \<le> j" "j < sk_keep s"
    using that w3 S w1 ok(4) k by simp
  show "os_files w' q = os_files w q"
    if "q \<noteq> ?p" "\<And>j. 1 \<le> j \<Longrightarrow> j \<le> sk_keep s \<Longrightarrow> q \<noteq> archive ?p j"
  proof -
    have far: "\<forall>j. 1 \<le> j \<and> j \<le> Suc k \<longrightarrow> q \<noteq> archive ?p j" using that(2) k by simp
    then have "q \<noteq> archive ?p 1" "q \<noteq> archive ?p (Suc k)" by simp_all
    moreover have "os_files w2 q = os_files w1 q" using S w1 far by simp
    ultimately show ?thesis using that(1) w3 w1 ok(4) by simp
  qed
qed

lemma rotate_reliable:
  assumes "reliable" "os_files w (sk_path s) \<noteq> None" "1 \<le> sk_keep s"
  shows "fst (rotate rename remove s w) = None"
proof -
  let ?p = "sk_path s"
  obtain k where k: "sk_keep s = Suc k" using assms(3) by (cases "sk_keep s") auto
  obtain r w1 where r: "remove (archive ?p (Suc k)) w = (r, w1)" by (cases "remove (archive ?p (Suc k)) w")
  have rr: "r = None \<or> r = Some NotExist" using remove_reliable [OF assms(1), of "archive ?p (Suc k)" w] r by auto
  have w1: "os_files w1 = (os_files w)(archive ?p (Suc k) := None)"
    using rr r remove_ok [of "archive ?p (Suc k)" w w1] remove_err [of "archive ?p (Suc k)" w NotExist w1]
      remove_missing [of "archive ?p (Suc k)" w w1] by (auto simp: fun_eq_iff)
  obtain y w2 where y: "shift_archives rename ?p k w1 = (y, w2)" by (cases "shift_archives rename ?p k w1")
  have yN: "y = None" using shift_reliable [OF assms(1), of w1 ?p k] w1 y by simp
  note S = shift_ok [of ?p k w1 w2, OF y [unfolded yN]]
  have "os_files w2 ?p \<noteq> None" "os_files w2 (archive ?p 1) = None" using S w1 assms(2) by simp_all
  then have "fst (rename ?p (archive ?p 1) w2) = None"
    using rename_reliable [OF assms(1), of w2 "archive ?p 1" ?p] by simp
  with r rr y yN k show ?thesis by (auto simp: rotate_def split: prod.splits option.splits)
qed

lemma rotate_live:
  assumes "rotate rename remove s w = (r, w')"
  shows "os_files w' (sk_path s) = (if r = None then None else os_files w (sk_path s))"
proof -
  let ?p = "sk_path s"
  obtain x w1 where x: "remove (archive ?p (sk_keep s)) w = (x, w1)" by (cases "remove (archive ?p (sk_keep s)) w")
  obtain y w2 where y: "shift_archives rename ?p (sk_keep s - 1) w1 = (y, w2)" by (cases "shift_archives rename ?p (sk_keep s - 1) w1")
  obtain z w3 where z: "rename ?p (archive ?p 1) w2 = (z, w3)" by (cases "rename ?p (archive ?p 1) w2")
  have 1: "os_files w1 ?p = os_files w ?p"
    using x remove_ok [of "archive ?p (sk_keep s)" w w1] remove_err [of "archive ?p (sk_keep s)" w _ w1]
    by (cases x) auto
  have 2: "os_files w2 ?p = os_files w1 ?p" using shift_frame [OF y, of ?p] by simp
  have 3: "os_files w3 ?p = (if z = None then None else os_files w2 ?p)"
    using z rename_ok [of ?p "archive ?p 1" w2 w3] rename_err [of ?p "archive ?p 1" w2 _ w3] by (cases z) auto
  show ?thesis
    using assms x y z 1 2 3 by (auto simp: rotate_def split: if_splits option.splits)
qed

end

lemma open_sink_ok:
  "open_sink flt trunc s w = (None, s', w') \<Longrightarrow>
   s' = s\<lparr>sk_n := file_size (sk_path s) w', sk_open := True\<rparr> \<and> os_files w' (sk_path s) \<noteq> None
   \<and> file_size (sk_path s) w' = (if trunc then 0 else file_size (sk_path s) w)"
  by (auto simp: open_sink_def os_OpenLog_def file_size_def os_call_defs split: option.splits prod.splits sum.splits if_splits)

lemma open_sink_err:
  "open_sink flt trunc s w = (Some e, s', w') \<Longrightarrow>
   s' = s \<and> file_size (sk_path s) w' \<le> file_size (sk_path s) w"
  by (auto simp: open_sink_def os_OpenLog_def file_size_def os_call_defs split: option.splits prod.splits sum.splits if_splits)

text \<open>The invariant of a sink: an open one knows its file's length, and no more than \<open>B\<close>
  bytes are in the live file.\<close>

definition sink_inv :: "nat \<Rightarrow> rotatingSink \<Rightarrow> os \<Rightarrow> bool" where
  "sink_inv B s w \<longleftrightarrow> (sk_open s \<longrightarrow> os_files w (sk_path s) \<noteq> None \<and> file_size (sk_path s) w = sk_n s)
     \<and> file_size (sk_path s) w \<le> B"

lemma write_file_inv:
  assumes "write_file flt p s w = (n, e, w')" "sink_inv B s w" "sk_open s \<Longrightarrow> sk_n s + length p \<le> B"
  shows "sink_inv B (s\<lparr>sk_n := sk_n s + n\<rparr>) w'"
proof (cases "sk_open s")
  case False
  with assms show ?thesis by (simp add: write_file_def sink_inv_def)
next
  case True
  with assms(2) obtain f where f: "os_files w (sk_path s) = Some f" "length (f_data f) = sk_n s"
    by (auto simp: sink_inv_def file_size_def)
  have ov: "overwrite (sk_n s) d (f_data f) = f_data f @ d" for d using f(2) overwrite_append by metis
  have n: "file_size (sk_path s) w' = sk_n s + n \<and> os_files w' (sk_path s) \<noteq> None \<and> n \<le> length p"
    using assms(1) True f
    by (auto simp: write_file_def file_size_def ov min_def split: option.splits)
  with assms(3) True show ?thesis by (simp add: sink_inv_def)
qed

context file_moves
begin

lemma reopen_inv:
  assumes "reopen flt rename remove s w = (e, s', w')" "sink_inv B s w"
  shows "sink_inv B s' w' \<and> (e = None \<longrightarrow> sk_open s' \<and> sk_n s' = 0) \<and> (e \<noteq> None \<longrightarrow> \<not> sk_open s')
     \<and> sk_path s' = sk_path s \<and> sk_max s' = sk_max s \<and> sk_keep s' = sk_keep s"
proof -
  let ?w1 = "snd (os_Nop flt w)" and ?s1 = "s\<lparr>sk_open := False\<rparr>"
  obtain r w2 where r: "rotate rename remove ?s1 ?w1 = (r, w2)" by (cases "rotate rename remove ?s1 ?w1")
  have live: "os_files w2 (sk_path s) = (if r = None then None else os_files w (sk_path s))"
    using rotate_live [OF r] by simp
  have o: "open_sink flt (r \<noteq> None) ?s1 w2 = (e, s', w')"
    using assms(1) r by (cases r) (simp_all add: reopen_def)
  have sz: "file_size (sk_path s) w2 \<le> B" using live assms(2) by (auto simp: file_size_def sink_inv_def)
  show ?thesis
  proof (cases e)
    case None
    with open_sink_ok o have "s' = ?s1\<lparr>sk_n := file_size (sk_path s) w', sk_open := True\<rparr>"
      "os_files w' (sk_path s) \<noteq> None"
      "file_size (sk_path s) w' = (if r \<noteq> None then 0 else file_size (sk_path s) w2)"
      by force+
    with None live show ?thesis by (auto simp: sink_inv_def file_size_def)
  next
    case (Some x)
    with open_sink_err o sz have "s' = ?s1" "file_size (sk_path s) w' \<le> B" by force+
    with Some show ?thesis by (simp add: sink_inv_def)
  qed
qed

lemma Write_inv:
  assumes "Write flt rename remove p s w = (n, e, s', w')" "sink_inv B s w" "sk_max s \<le> B" "length p \<le> B"
  shows "sink_inv B s' w' \<and> sk_path s' = sk_path s \<and> sk_max s' = sk_max s \<and> sk_keep s' = sk_keep s"
proof (cases "sk_n s + length p > sk_max s")
  case False
  obtain m x w1 where m: "write_file flt p s w = (m, x, w1)" by (cases "write_file flt p s w")
  have "sink_inv B (s\<lparr>sk_n := sk_n s + m\<rparr>) w1" using write_file_inv [OF m assms(2)] False assms(3) by simp
  with assms(1) False m show ?thesis by (auto simp: Write_def)
next
  case True
  obtain y s1 w1 where y: "reopen flt rename remove s w = (y, s1, w1)" by (cases "reopen flt rename remove s w")
  note I = reopen_inv [OF y assms(2)]
  show ?thesis
  proof (cases y)
    case None
    obtain m x w2 where m: "write_file flt p s1 w1 = (m, x, w2)" by (cases "write_file flt p s1 w1")
    have "sink_inv B (s1\<lparr>sk_n := sk_n s1 + m\<rparr>) w2" using write_file_inv [OF m] I None assms(4) by simp
    with assms(1) True y None m I show ?thesis by (auto simp: Write_def)
  next
    case (Some z)
    with assms(1) True y I show ?thesis by (auto simp: Write_def)
  qed
qed

text \<open>A run of writes, the sink and the files threaded through.\<close>

lemma Writes_inv:
  "sink_inv B s w \<Longrightarrow> sk_max s \<le> B \<Longrightarrow> \<forall>p \<in> set ps. length p \<le> B \<Longrightarrow>
   foldl (\<lambda>(s, w) p. snd (snd (Write flt rename remove p s w))) (s, w) ps = (s', w') \<Longrightarrow>
   sink_inv B s' w' \<and> sk_path s' = sk_path s"
proof (induction ps arbitrary: s w)
  case (Cons p ps)
  obtain n e s1 w1 where p: "Write flt rename remove p s w = (n, e, s1, w1)"
    by (cases "Write flt rename remove p s w")
  note W = Write_inv [OF p Cons.prems(1,2)]
  have "sink_inv B s' w' \<and> sk_path s' = sk_path s1"
    using W Cons.prems p by (intro Cons.IH [of s1 w1]) simp_all
  with W Cons.prems(3) show ?case by simp
qed simp

end

section \<open>The two platforms\<close>

definition result_of :: "oserr + 'a \<Rightarrow> oserr option" where
  "result_of r = (case r of Inl e \<Rightarrow> Some e | Inr _ \<Rightarrow> None)"

definition osRemove :: "faults \<Rightarrow> remover" where
  "osRemove flt p w = (case os_Remove flt p w of (r, w') \<Rightarrow> (result_of r, w'))"

definition osRename_posix :: "faults \<Rightarrow> mover" where
  "osRename_posix flt a b w = (case os_Rename flt a b w of (r, w') \<Rightarrow> (result_of r, w'))"

text \<open>The rename of the source's Windows test: it fails when the destination exists.\<close>

definition osRename_windows :: "faults \<Rightarrow> mover" where
  "osRename_windows flt a b w =
     (if os_files w b \<noteq> None then (Some Exist, w) else osRename_posix flt a b w)"

lemmas mover_defs = osRemove_def osRename_posix_def osRename_windows_def result_of_def os_call_defs honest_def

interpretation posix: file_moves "osRename_posix (honest flt)" "osRemove (honest flt)" "flt = (\<lambda>_. None)" for flt
  by unfold_locales
    (auto simp: mover_defs fun_eq_iff split: option.splits prod.splits sum.splits if_splits)

interpretation win: file_moves "osRename_windows (honest flt)" "osRemove (honest flt)" "flt = (\<lambda>_. None)" for flt
  by unfold_locales
    (auto simp: mover_defs fun_eq_iff split: option.splits prod.splits sum.splits if_splits)

section \<open>Properties\<close>

text \<open>
  (C30) The durable log stays bounded: after any run of writes, with any calls failing at any
  point (partial writes included) and on either rename semantics, the live file holds at
  most \<open>maxSize\<close> bytes, or the longest single entry if that is longer.
\<close>

theorem log_stays_bounded:
  assumes "sink_inv (sk_max s) s w" "mv = osRename_posix (honest flt) \<or> mv = osRename_windows (honest flt)"
    and "foldl (\<lambda>(s, w) p. snd (snd (Write flt mv (osRemove (honest flt)) p s w))) (s, w) ps = (s', w')"
  shows "file_size (sk_path s) w' \<le> Max (insert (sk_max s) (length ` set ps))"
proof -
  let ?B = "Max (insert (sk_max s) (length ` set ps))"
  have B: "sk_max s \<le> ?B" "\<forall>p \<in> set ps. length p \<le> ?B" by simp_all
  have "sink_inv ?B s w" using assms(1) B(1) unfolding sink_inv_def by linarith
  then have "sink_inv ?B s' w' \<and> sk_path s' = sk_path s"
    using assms(2,3) posix.Writes_inv [OF _ B] win.Writes_inv [OF _ B] by blast
  then show ?thesis unfolding sink_inv_def by metis
qed

text \<open>
  A rotation that succeeds loses nothing but the oldest archive: the live file becomes
  \<open>.1\<close>, each archive moves up by one, no other file changes. When no call fails it always
  succeeds, also under the Windows rule that a rename must not replace a file.
\<close>

lemma rotation_shifts:
  assumes "1 \<le> sk_keep s" "mv = osRename_posix (honest flt) \<or> mv = osRename_windows (honest flt)"
    and "os_files w (sk_path s) \<noteq> None" "rotate mv (osRemove (honest flt)) s w = (r, w')"
  shows "(r = None \<longrightarrow> os_files w' (archive (sk_path s) 1) = os_files w (sk_path s)
      \<and> (\<forall>j. 1 \<le> j \<and> j < sk_keep s \<longrightarrow> os_files w' (archive (sk_path s) (Suc j)) = os_files w (archive (sk_path s) j))
      \<and> (\<forall>q. q \<noteq> sk_path s \<and> (\<forall>j. 1 \<le> j \<and> j \<le> sk_keep s \<longrightarrow> q \<noteq> archive (sk_path s) j) \<longrightarrow> os_files w' q = os_files w q))
    \<and> (flt = (\<lambda>_. None) \<longrightarrow> r = None)"
  using assms(2)
proof
  assume mv: "mv = osRename_posix (honest flt)"
  show ?thesis
    using posix.rotate_ok [of flt s w w'] posix.rotate_reliable [of flt w s] assms mv by auto
next
  assume mv: "mv = osRename_windows (honest flt)"
  show ?thesis
    using win.rotate_ok [of flt s w w'] win.rotate_reliable [of flt w s] assms mv by auto
qed

text \<open>
  \<open>newRotatingSink\<close> fails closed on the access control: if the owner-only rule cannot be
  set, no sink is returned, and a log file this attempt created is removed again, so no
  unprotected log is left behind (when no other call fails).
\<close>

lemma newRotatingSink_fail_closed:
  assumes "newRotatingSink (\<lambda>_. None) pl restrict p m k w = (r, w')"
    and "\<And>q v. os_files (snd (restrict q v)) = os_files v"
    and "os_files w p = None"
  shows "(\<exists>e. r = Inl e) \<and> os_files w' = os_files w
     \<or> (\<exists>s. r = Inr s \<and> (\<exists>v. fst (restrict (pl_dir pl p) v) = None) \<and> (\<exists>v. fst (restrict p v) = None)
          \<and> os_files w' p = Some \<lparr>f_data = [], f_mode = mode_0600\<rparr> \<and> sink_inv m s w')"
proof -
  let ?f = "\<lambda>_::nat. None :: fault option"
  define w1 where "w1 = snd (os_MkdirAll ?f (pl_dir pl p) mode_0700 w)"
  have m: "os_MkdirAll ?f (pl_dir pl p) mode_0700 w = (Inr (), w1)" "os_files w1 = os_files w"
    by (auto simp: w1_def os_call_defs split: option.splits)
  obtain x w2 where x: "restrict (pl_dir pl p) w1 = (x, w2)" by (cases "restrict (pl_dir pl p) w1")
  have w2: "os_files w2 = os_files w" using assms(2) [of "pl_dir pl p" w1] x m by simp
  define w3 where "w3 = snd (os_Stat ?f p w2)"
  have st: "os_Stat ?f p w2 = (Inl NotExist, w3)" "os_files w3 = os_files w"
    using w2 assms(3) by (auto simp: w3_def os_call_defs)
  let ?s = "\<lparr>sk_path = p, sk_max = m, sk_keep = k, sk_n = 0, sk_open = False\<rparr>"
  define w4 where "w4 = snd (snd (open_sink ?f False ?s w3))"
  have o: "open_sink ?f False ?s w3 = (None, ?s\<lparr>sk_open := True\<rparr>, w4)"
    "os_files w4 = (os_files w)(p \<mapsto> \<lparr>f_data = [], f_mode = mode_0600\<rparr>)"
    using st(2) assms(3)
    by (auto simp: w4_def open_sink_def os_OpenLog_def os_call_defs file_size_def)
  obtain y w5 where y: "restrict p w4 = (y, w5)" by (cases "restrict p w4")
  have w5: "os_files w5 = os_files w4" using assms(2) [of p w4] y by simp
  show ?thesis
  proof (cases x)
    case (Some e)
    with assms(1) m x w2 show ?thesis by (auto simp: newRotatingSink_def Let_def)
  next
    case xN: None
    show ?thesis
    proof (cases y)
      case None
      with assms(1) m x xN st o y have "r = Inr (?s\<lparr>sk_open := True\<rparr>)" "w' = w5"
        by (auto simp: newRotatingSink_def Let_def)
      moreover have "fst (restrict (pl_dir pl p) w1) = None" "fst (restrict p w4) = None" using x xN y None by simp_all
      ultimately show ?thesis using w5 o(2) by (auto simp: sink_inv_def file_size_def)
    next
      case (Some e)
      have "os_files (snd (os_Remove ?f p (snd (snd (Close ?f (?s\<lparr>sk_open := True\<rparr>) w5))))) = os_files w"
        using w5 o(2) assms(3) by (auto simp: Close_def os_call_defs fun_eq_iff split: prod.splits)
      with Some assms(1) m x xN st o y show ?thesis by (auto simp: newRotatingSink_def Let_def)
    qed
  qed
qed

section \<open>Witnesses\<close>

definition sample_log_os :: os where
  "sample_log_os = \<lparr>os_files = (\<lambda>q. if q = ''L'' then Some \<lparr>f_data = ''ab'', f_mode = 384\<rparr> else None),
     os_dirs = (\<lambda>_. None), os_cmds = [], os_tick = 0\<rparr>"

definition sample_sink :: rotatingSink where
  "sample_sink = \<lparr>sk_path = ''L'', sk_max = 3, sk_keep = 2, sk_n = 2, sk_open = True\<rparr>"

lemma sample_sink_inv: "sink_inv (sk_max sample_sink) sample_sink sample_log_os"
  by (simp add: sink_inv_def sample_sink_def sample_log_os_def file_size_def)

theorem log_stays_bounded_witness:
  "file_size ''L'' (snd (foldl (\<lambda>(s, w) p. snd (snd (Write (\<lambda>_. None) (osRename_windows (honest (\<lambda>_. None)))
     (osRemove (honest (\<lambda>_. None))) p s w))) (sample_sink, sample_log_os) [''cd'', ''e''])) \<le> 3"
  using log_stays_bounded [OF sample_sink_inv, of "osRename_windows (honest (\<lambda>_. None))" "\<lambda>_. None" "[''cd'', ''e'']",
      OF _ prod.collapse [symmetric]]
  by (simp add: sample_sink_def)

lemma rotation_shifts_witness:
  "fst (rotate (osRename_windows (honest (\<lambda>_. None))) (osRemove (honest (\<lambda>_. None))) sample_sink sample_log_os) = None"
  using rotation_shifts [of sample_sink "osRename_windows (honest (\<lambda>_. None))" "\<lambda>_. None" sample_log_os,
      OF _ _ _ prod.collapse [symmetric]]
  by (simp add: sample_sink_def sample_log_os_def)

lemma newRotatingSink_fail_closed_witness:
  "\<exists>r w'. newRotatingSink (\<lambda>_. None) \<lparr>pl_join = concat, pl_dir = (\<lambda>_. ''d'')\<rparr>
       (\<lambda>q w. (if q = ''N'' then Some Permission else None, w)) ''N'' 3 2 sample_log_os = (r, w')
     \<and> os_files w' ''N'' = None"
proof -
  let ?run = "newRotatingSink (\<lambda>_. None) \<lparr>pl_join = concat, pl_dir = (\<lambda>_. ''d'')\<rparr>
       (\<lambda>q w. (if q = ''N'' then Some Permission else None, w)) ''N'' 3 2 sample_log_os"
  from newRotatingSink_fail_closed [of _ "(\<lambda>q w. (if q = ''N'' then Some Permission else None, w))" "''N''" 3 2
      sample_log_os "fst ?run" "snd ?run", OF prod.collapse [symmetric]]
  show ?thesis by (intro exI [of _ "fst ?run"] exI [of _ "snd ?run"]) (auto simp: sample_log_os_def)
qed

end
