(* ===== verification/Client_Main.thy ===== *)
theory Client_Main
  imports Client_Connect Pid_Lock Log_Sink
begin

text \<open>
  The entry points of \<open>client/main.go\<close>: \<open>main\<close>, \<open>dispatchSubcommand\<close>, \<open>runDefault\<close>, \<open>runLogout\<close>,
  \<open>runStatus\<close> and \<open>teardownInstallLeftovers\<close>, over the components they call. Of the output only
  what \<open>status\<close> prints is modelled; the log lines, the banner (theory \<open>Banner\<close>) and the fixed texts
  of \<open>version\<close> and \<open>help\<close> are not.
\<close>

section \<open>The world of one invocation\<close>

record baked =
  privKeyB64 :: string
  serverPubKeyB64 :: string
  tunnelIP :: string
  serverHost :: string

record main_world =
  mw_os :: goos
  mw_paths :: path_lib
  mw_getenv :: "string \<Rightarrow> string"
  mw_home :: "string option"
  mw_marshal :: "Config \<Rightarrow> string option"
  mw_unmarshal :: "string \<Rightarrow> Config option"
  mw_exists :: "nat \<Rightarrow> bool"
  mw_scan :: "string \<Rightarrow> int option"
  mw_lock :: path
  mw_pid :: nat
  mw_log :: "path option"
  mw_restrict :: remover
  mw_baked :: baked
  mw_claim :: service
  mw_decode_claim :: "string \<Rightarrow> pairClaimedResponse option"
  mw_now :: string
  mw_pair :: pair_world  \<comment> \<open>a pairing asked for by the user or for want of a configuration\<close>
  mw_repair :: pair_world  \<comment> \<open>the pairing after a revocation\<close>
  mw_cp :: cp_world
  mw_pf :: platform
  mw_ce :: connect_env
  mw_recover :: "os \<Rightarrow> os"  \<comment> \<open>\<open>recoverKillSwitchIfLeftArmed\<close>\<close>

definition mw_version :: "main_world \<Rightarrow> string" where
  "mw_version mw = b_version (cp_build (mw_cp mw))"

definition config_path :: "main_world \<Rightarrow> rootFlags \<Rightarrow> path" where
  "config_path mw rf = ResolveConfigPath (mw_paths mw) (mw_getenv mw) (mw_home mw) (mw_os mw) (rf_configPath rf)"

definition pair_options :: "main_world \<Rightarrow> rootFlags \<Rightarrow> string \<Rightarrow> pairOptions" where
  "pair_options mw rf base = \<lparr>po_ArenaBaseURL = base, po_ConfigPath = config_path mw rf, po_ClientVer = mw_version mw,
     po_NoBrowser = rf_noBrowser rf\<rparr>"

section \<open>Where the configuration comes from\<close>

text \<open>The configuration of the legacy flags and of baked-in credentials.\<close>

definition bare_config :: "string \<Rightarrow> string \<Rightarrow> string \<Rightarrow> string \<Rightarrow> Config" where
  "bare_config priv pub ip host = \<lparr>cVersion = ConfigSchemaVersion, TunnelIP = ip, PrivateKey = priv, ServerPubKey = pub,
     ServerHost = host, UserEmail = [], PairedAt = [], ArenaBaseURL = [], DeviceID = [], RevocationToken = []\<rparr>"

definition legacy :: "rootFlags \<Rightarrow> bool" where
  "legacy rf \<longleftrightarrow> rf_priv rf \<noteq> [] \<or> rf_pub rf \<noteq> [] \<or> rf_ip rf \<noteq> [] \<or> rf_host rf \<noteq> []"

definition baked_in :: "baked \<Rightarrow> bool" where
  "baked_in b \<longleftrightarrow> privKeyB64 b \<noteq> [] \<and> serverPubKeyB64 b \<noteq> [] \<and> tunnelIP b \<noteq> []"

text \<open>\<open>--token\<close>: claim from the server; a failed save is only logged.\<close>

definition token_config :: "faults \<Rightarrow> main_world \<Rightarrow> rootFlags \<Rightarrow> os \<Rightarrow> (nat + Config) \<times> os" where
  "token_config flt mw rf w =
     (case claimByToken (cp_ul (mw_cp mw)) (cp_build (mw_cp mw)) (mw_claim mw) (mw_decode_claim mw)
             (pair_options mw (rf\<lparr>rf_noBrowser := False\<rparr>) (rf_arena rf)) (rf_token rf) of
        PollFail x \<Rightarrow> (Inl x, w)
      | Claimed c \<Rightarrow>
          (let cfg = claimed_config c (mw_now mw) (rf_arena rf) in
           case SaveConfig flt (mw_paths mw) (mw_marshal mw) (config_path mw rf) (Some cfg) w of
             (_, _, w1) \<Rightarrow> (Inr cfg, w1)))"

text \<open>The normal path: load, pair when there is nothing complete or the user asks for it.\<close>

definition stored_config :: "faults \<Rightarrow> main_world \<Rightarrow> rootFlags \<Rightarrow> os \<Rightarrow> ((nat + Config) \<times> os) option" where
  "stored_config flt mw rf w =
     (case LoadConfig flt (mw_unmarshal mw) (config_path mw rf) w of
        (Inl e, w1) \<Rightarrow> Some (Inl (if e = Permission then ExitConfigPermDenied else ExitFatalRuntime), w1)
      | (Inr cfg, w1) \<Rightarrow>
          if rf_forcePair rf \<or> cfg = None \<or> \<not> Complete cfg
          then PairAndPersist flt (mw_pair mw) (pair_options mw rf (rf_arena rf)) w1
          else Some (Inr (the cfg), w1))"

text \<open>The pre-flight check: a revoked peer is wiped and paired again; a check that fails is no
  reason to stop.\<close>

definition preflight :: "faults \<Rightarrow> main_world \<Rightarrow> rootFlags \<Rightarrow> Config \<Rightarrow> os \<Rightarrow> ((nat + Config) \<times> os) option" where
  "preflight flt mw rf cfg w =
     (if ArenaBaseURL cfg = [] then Some (Inr cfg, w)
      else (case pingC2State (mw_cp mw) (ArenaBaseURL cfg) (RevocationToken cfg) (PrivateKey cfg) of
        (_, _, Some _) \<Rightarrow> Some (Inr cfg, w)
      | (revoked, _, None) \<Rightarrow>
          (let w1 = cleanupArenaTrustIfRevoked (pf_trust (mw_pf mw)) revoked w in
           if revoked then PairAndPersist flt (mw_repair mw) (pair_options mw rf (ArenaBaseURL cfg))
                             (snd (WipeConfig flt (config_path mw rf) w1))
           else Some (Inr cfg, w1))))"

definition choose_config :: "faults \<Rightarrow> main_world \<Rightarrow> rootFlags \<Rightarrow> os \<Rightarrow> ((nat + Config) \<times> os) option" where
  "choose_config flt mw rf w =
     (let b = mw_baked mw in
      if legacy rf then Some (Inr (bare_config (pick (rf_priv rf) (privKeyB64 b)) (pick (rf_pub rf) (serverPubKeyB64 b))
          (pick (rf_ip rf) (tunnelIP b)) (pick (rf_host rf) (serverHost b))), w)
      else if baked_in b then Some (Inr (bare_config (privKeyB64 b) (serverPubKeyB64 b) (tunnelIP b) (serverHost b)), w)
      else if rf_token rf \<noteq> [] then Some (token_config flt mw rf w)
      else (case stored_config flt mw rf w of
          None \<Rightarrow> None
        | Some (Inl x, w1) \<Rightarrow> Some (Inl x, w1)
        | Some (Inr cfg, w1) \<Rightarrow> preflight flt mw rf cfg w1))"

section \<open>\<open>runDefault\<close>\<close>

text \<open>The deferred calls run last to first: the lock is released, then the log closed.\<close>

definition close_log :: "faults \<Rightarrow> rotatingSink option \<Rightarrow> os \<Rightarrow> os" where
  "close_log flt sink w = (case sink of None \<Rightarrow> w | Some s \<Rightarrow> (case Close flt s w of (_, _, w1) \<Rightarrow> w1))"

definition runDefault :: "faults \<Rightarrow> main_world \<Rightarrow> rootFlags \<Rightarrow> os \<Rightarrow> (connect_result \<times> os) option" where
  "runDefault flt mw rf w =
     (case installDurableLog flt (mw_paths mw) (mw_restrict mw) (mw_log mw) w of
        (sink, w1) \<Rightarrow> (case acquirePIDLock flt (mw_exists mw) (mw_scan mw) (mw_lock mw) (mw_pid mw) w1 of
          (False, w2) \<Rightarrow> Some (ended ExitFatalRuntime, close_log flt sink w2)
        | (True, w2) \<Rightarrow> (case choose_config flt mw rf w2 of
            None \<Rightarrow> None
          | Some (Inl x, w3) \<Rightarrow> Some (ended x, close_log flt sink (releasePIDLock flt (mw_lock mw) w3))
          | Some (Inr cfg, w3) \<Rightarrow> (case runConnect flt (mw_pf mw) (mw_ce mw) rf cfg w3 of
              (res, w4) \<Rightarrow> Some (res, close_log flt sink (releasePIDLock flt (mw_lock mw) w4))))))"

section \<open>\<open>runLogout\<close>\<close>

definition installUnit :: path where
  "installUnit = ''/etc/systemd/system/arena-tunnel.service''"

definition systemctl :: "string list \<Rightarrow> cmd" where
  "systemctl args = ''systemctl'' # args"

definition teardownInstallLeftovers :: "faults \<Rightarrow> main_world \<Rightarrow> os \<Rightarrow> os" where
  "teardownInstallLeftovers flt mw w =
     (if mw_os mw \<noteq> Linux then w
      else (case os_Stat flt installUnit w of
          (Inl _, w1) \<Rightarrow> pf_teardownKS (mw_pf mw) w1
        | (Inr _, w1) \<Rightarrow>
            (let w2 = run_cmds flt [systemctl [''stop'', ''arena-tunnel.service''], systemctl [''disable'', ''arena-tunnel.service'']] w1;
                 w3 = snd (os_Remove flt installUnit w2);
                 w4 = run_cmds flt [systemctl [''daemon-reload'']] w3
             in pf_teardownKS (mw_pf mw) w4)))"

text \<open>The second component is the answer to the revocation, when it is asked for.\<close>

definition runLogout :: "faults \<Rightarrow> main_world \<Rightarrow> rootFlags \<Rightarrow> os \<Rightarrow> nat \<times> go_err option option \<times> os" where
  "runLogout flt mw rf w =
     (case LoadConfig flt (mw_unmarshal mw) (config_path mw rf) w of
        (Inl _, w1) \<Rightarrow> (ExitOK, None, cleanupArenaTrust (pf_trust (mw_pf mw)) w1)
      | (Inr None, w1) \<Rightarrow> (ExitOK, None, cleanupArenaTrust (pf_trust (mw_pf mw)) w1)
      | (Inr (Some cfg), w1) \<Rightarrow>
          (let asked = (if rf_keepServer rf then None
                 else Some (bestEffortRevoke (mw_cp mw) (if ArenaBaseURL cfg = [] then rf_arena rf else ArenaBaseURL cfg) (PrivateKey cfg)))
           in case WipeConfig flt (config_path mw rf) w1 of
             (Some _, w2) \<Rightarrow> (ExitConfigUnlinkFailed, asked, w2)
           | (None, w2) \<Rightarrow> (ExitOK, asked,
               teardownInstallLeftovers flt mw (cleanupArenaTrust (pf_trust (mw_pf mw)) w2))))"

section \<open>\<open>runStatus\<close>\<close>

definition status_lines :: "path \<Rightarrow> Config \<Rightarrow> string list" where
  "status_lines p cfg = [''config:       '' @ p, ''identity:     '' @ UserEmail cfg, ''tunnel ip:    '' @ TunnelIP cfg,
     ''server host:  '' @ ServerHost cfg, ''paired at:    '' @ PairedAt cfg]
     @ (if DeviceID cfg \<noteq> [] then [''device id:    '' @ DeviceID cfg] else [])"

text \<open>The exit status, the lines of the stored identity, and the arena state or why it is unknown.\<close>

definition runStatus :: "faults \<Rightarrow> main_world \<Rightarrow> rootFlags \<Rightarrow> os \<Rightarrow> (nat \<times> string list \<times> (go_err + string) option) \<times> os" where
  "runStatus flt mw rf w =
     (case LoadConfig flt (mw_unmarshal mw) (config_path mw rf) w of
        (Inl _, w1) \<Rightarrow> ((ExitFatalRuntime, [], None), w1)
      | (Inr None, w1) \<Rightarrow> ((ExitFatalRuntime, [''Not paired. Run `arena-tunnel` to pair.''], None), w1)
      | (Inr (Some cfg), w1) \<Rightarrow>
          (let arena = (if ArenaBaseURL cfg = [] then rf_arena rf else ArenaBaseURL cfg);
               state = fetchPeerStatus (mw_cp mw) arena (PrivateKey cfg)
           in ((if state = Inr ''revoked'' then ExitPairInitFailed else ExitOK,
                status_lines (config_path mw rf) cfg, Some state), w1)))"

section \<open>\<open>dispatchSubcommand\<close> and \<open>main\<close>\<close>

definition dispatchSubcommand :: "faults \<Rightarrow> main_world \<Rightarrow> rootFlags \<Rightarrow> os \<Rightarrow> (connect_result \<times> os) option" where
  "dispatchSubcommand flt mw rf w =
     (if rf_subcommand rf = ''version'' then Some (ended ExitOK, w)
      else if rf_subcommand rf = ''help'' then Some (ended ExitOK, w)
      else if rf_subcommand rf = ''logout'' then (case runLogout flt mw rf w of (x, _, w1) \<Rightarrow> Some (ended x, w1))
      else if rf_subcommand rf = ''status'' then (case runStatus flt mw rf w of ((x, _, _), w1) \<Rightarrow> Some (ended x, w1))
      else if rf_subcommand rf = ''pair'' then runDefault flt mw (rf\<lparr>rf_forcePair := True\<rparr>) w
      else runDefault flt mw rf w)"

text \<open>\<open>main\<close>; a command line that does not parse ends the process inside \<open>parseArgs\<close>.\<close>

definition main :: "faults \<Rightarrow> main_world \<Rightarrow> string list \<Rightarrow> os \<Rightarrow> (connect_result \<times> os) option" where
  "main flt mw argv w =
     (case parseArgs (b_goos (cp_build (mw_cp mw))) (mw_getenv mw) argv of
        Inl x \<Rightarrow> Some (ended x, w)
      | Inr rf \<Rightarrow> dispatchSubcommand flt mw rf (mw_recover mw w))"

end
