(* ===== verification/Connect_Safety.thy ===== *)
theory Connect_Safety
  imports Client_Connect
begin

text \<open>
  What a whole run of \<open>runConnect\<close> guarantees on Linux and Windows, from the laws of
  \<open>platform_laws\<close> and their interpretations.
\<close>

section \<open>A concrete run\<close>

definition sample_key :: string where
  "sample_key = ''AAAAAAAAAAAAAAAAAAAAAAAAAAAAAAAAAAAAAAAAAAA=''"

definition sample_creds :: Config where
  "sample_creds = sample_config\<lparr>PrivateKey := sample_key, ServerPubKey := sample_key\<rparr>"

definition sample_env :: connect_env where
  "sample_env = \<lparr>ce_ul = sample_urls, ce_srv = (\<lambda>_. HttpReply 200 ''{}''), ce_decode = (\<lambda>_. Some (Some sample_profile)),
     ce_build = sample_build, ce_x25519 = Some, ce_tunnelName = ''arena0'', ce_serverHost = ''wg'', ce_localPort = 51820,
     ce_hostname = (\<lambda>s. s), ce_port = (\<lambda>_. []), ce_isIP = (\<lambda>_. False), ce_lookup = (\<lambda>_. Some [IPv4 (ip4 192 0 2 7)]),
     ce_wsURL = (\<lambda>h. ''wss://'' @ h), ce_ord = (\<lambda>_. []), ce_first = FirstConnected, ce_ticks = []\<rparr>"

definition sample_linux :: platform where
  "sample_linux = linux_platform (\<lambda>_. None) sample_paths ''m'' ''arena0'' (\<lambda>_. [])"

lemma sample_hex: "b64ToHex sample_key \<noteq> None"
  by code_simp

lemma sample_derive: "derivePubKey Some sample_key \<noteq> None"
  by code_simp

lemma no_faults: "run_call (\<lambda>_. None) c w = (None, w\<lparr>os_cmds := os_cmds w @ [(c, None)], os_tick := Suc (os_tick w)\<rparr>)"
  "run_cmd (\<lambda>_. None) c w = (True, w\<lparr>os_cmds := os_cmds w @ [(c, None)], os_tick := Suc (os_tick w)\<rparr>)"
  "cmd_op (\<lambda>_. None) c w = (OpOk, w\<lparr>os_cmds := os_cmds w @ [(c, None)], os_tick := Suc (os_tick w)\<rparr>)"
  by (simp_all add: run_cmd_def run_call_def cmd_op_def Let_def)

lemma sample_connect_run:
  assumes "rf_killSwitch rf"
  shows "\<exists>res w' u p d. runConnect (\<lambda>_. None) sample_linux sample_env rf sample_creds w = (res, w')
     \<and> cr_code res = ExitOK \<and> cr_shovel res = Some (u, ''r'', d) \<and> cr_heartbeat res = Some (''a'', p, ''r'', True)"
proof -
  from sample_hex obtain h where h: "b64ToHex sample_key = Some h" by blast
  from sample_derive obtain p where p: "derivePubKey Some sample_key = Some p" by blast
  have c: "PrivateKey sample_creds = sample_key" "ServerPubKey sample_creds = sample_key" "TunnelIP sample_creds \<noteq> []"
    "RevocationToken sample_creds = ''r''" "ArenaBaseURL sample_creds = ''a''" "ServerHost sample_creds = ''h''" "sample_key \<noteq> []"
    by (simp_all add: sample_creds_def sample_config_def sample_key_def)
  have e: "ce_ul sample_env = sample_urls" "ce_srv sample_env = (\<lambda>_. HttpReply 200 ''{}'')" "ce_decode sample_env = (\<lambda>_. Some (Some sample_profile))"
    "ce_build sample_env = sample_build" "ce_x25519 sample_env = Some" "ce_first sample_env = FirstConnected"
    by (simp_all add: sample_env_def)
  have f: "fetchNetworkProfile sample_urls (\<lambda>_. HttpReply 200 ''{}'') (\<lambda>_. Some (Some sample_profile)) sample_build sample_creds = Inr sample_profile"
    using sample_authorised validate_authorised [of sample_profile]
    by (simp add: fetchNetworkProfile_def sample_creds_def sample_config_def sample_urls_def joinURL_def bearer_get_def
        new_request_def Let_def)
  have i: "fst (install_routes (linux_add (\<lambda>_. None) t) {} rs w) = None" for t rs w
    by (induction rs arbitrary: w) (simp_all add: linux_add_def no_faults)
  define w1 where "w1 = snd (bring_up (\<lambda>_. None) sample_linux sample_env sample_creds sample_profile h h w)"
  have b: "bring_up (\<lambda>_. None) sample_linux sample_env sample_creds sample_profile h h w = (True, w1)"
    using i by (simp add: w1_def bring_up_def no_faults sample_linux_def linux_platform_def configureTUN_linux_def split_beta split: option.splits)
  define w2 where "w2 = snd (arm sample_linux sample_env rf sample_creds w1)"
  have a: "arm sample_linux sample_env rf sample_creds w1 = (True, w2)"
    by (simp add: w2_def arm_def assms sample_linux_def linux_platform_def installKillSwitch_linux_def ks_rules_def no_faults Let_def)
  have d: "fst (pf_configureDNS sample_linux sample_profile w2) = None"
    by (simp add: sample_linux_def linux_platform_def configureTunnelDNS_linux_def configureLinuxDNS_def no_faults os_Nop_def syscall_def)
  have r: "\<exists>x. resolveWSSDialAddress (ce_hostname sample_env) (ce_port sample_env) (ce_isIP sample_env) (ce_lookup sample_env) ''h'' = Inr x"
    by (simp add: resolveWSSDialAddress_def sample_env_def Let_def)
  then obtain x where r: "resolveWSSDialAddress (ce_hostname sample_env) (ce_port sample_env) (ce_isIP sample_env) (ce_lookup sample_env) ''h'' = Inr x" ..
  obtain w3 where s: "connect_and_serve (\<lambda>_. None) sample_linux sample_env sample_creds sample_profile ''h'' True w2
      = (\<lparr>cr_code = ExitOK, cr_shovel = Some (ce_wsURL sample_env ''h'', ''r'', x), cr_heartbeat = Some (''a'', p, ''r'', True)\<rparr>, w3)"
    using d by (simp add: connect_and_serve_def r e c heartbeat_args_def p Let_def split_beta split: option.splits)
  show ?thesis
    by (simp add: runConnect_def c e f h b a s)
qed

section \<open>Whatever fails, a run stays within its bounds\<close>

lemma route_authorised:
  "authorised_profile np \<Longrightarrow> x \<in> networkRouteSet np \<Longrightarrow>
   \<exists>p. parsePrefix4 x = Some p \<and> p = masked p \<and> {a. pfx_contains p a} \<subseteq> approved_addrs"
  using authorised_addrs [of np] authorised_CIDRs(4) [of np x]
  by (fastforce simp: routed_addrs_def networkRouteSet_def networkProfileRouteCIDRs_def)

text \<open>
  Whatever the control plane answers, whichever commands fail and whenever the run ends,
  \<open>runConnect\<close> on Linux never installs a route that leads an address outside the scenario and
  TeamServer ranges into the tunnel: neither at the bring-up nor at any round of the poll.
\<close>

lemma runConnect_routes_confined:
  assumes "runConnect flt (linux_platform flt pl m tun ord) ce rf cfg w = (res, w')"
  shows "\<exists>l. os_cmds w' = os_cmds w @ l \<and> (\<forall>(c, r) \<in> set l. \<forall>x. c = ip_route ''replace'' tun x \<longrightarrow>
     (\<exists>p. parsePrefix4 x = Some p \<and> {a. pfx_contains p a} \<subseteq> approved_addrs))"
proof -
  from lp.runConnect_logs(1) [OF assms] obtain l where l: "os_cmds w' = os_cmds w @ l" "\<forall>e \<in> set l. platform_laws.confined (linux_installs tun) (fst e)"
    by (auto simp: logs_def list_all_iff)
  have "\<exists>p. parsePrefix4 x = Some p \<and> {a. pfx_contains p a} \<subseteq> approved_addrs" if "(ip_route ''replace'' tun x, r) \<in> set l" for x r
    using l(2) that route_authorised [of _ x] by (fastforce simp: lp.confined_def)
  with l(1) show ?thesis by blast
qed

text \<open>
  (C8) Everything \<open>runConnect\<close> opens it closes: on every path out - a refused device, a failed
  IPC, a route or DNS step that fails, a timeout, a signal, a revocation - the TUN device, the
  WireGuard device and the UDP socket that were opened have been closed when it returns.
\<close>

theorem runConnect_releases:
  assumes "pf = linux_platform flt pl m tun ord \<or> pf = windows_platform flt pl m tun ord native parses lookup ifaces answer"
    and "runConnect flt pf ce rf cfg w = (res, w')"
  shows "\<exists>l. os_cmds w' = os_cmds w @ l \<and> foldl held {} l = {}"
  using assms(1)
proof
  assume "pf = linux_platform flt pl m tun ord"
  with assms(2) lp.runConnect_logs(2) show ?thesis unfolding moves_def by blast
next
  assume "pf = windows_platform flt pl m tun ord native parses lookup ifaces answer"
  with assms(2) wp.runConnect_logs(2) show ?thesis unfolding moves_def by blast
qed


text \<open>
  (C17) The kill-switch state reported with every heartbeat is the truth: \<open>armed\<close> is reported
  only when the user asked for the kill switch and the command that splices the chain into
  \<open>OUTPUT\<close> succeeded, and such a run ends with the commands that take it out again.
\<close>

theorem heartbeat_honest:
  assumes "runConnect flt (linux_platform flt pl m tun ord) ce rf cfg w = (res, w')"
    and "cr_heartbeat res = Some (u, p, t, True)"
  shows "rf_killSwitch rf \<and> (\<exists>l k. os_cmds w' = os_cmds w @ l @ k
     \<and> (iptables [''-I'', ''OUTPUT'', ''1'', ''-j'', killSwitchChain], None) \<in> set l
     \<and> map fst k = [iptables [''-D'', ''OUTPUT'', ''-j'', killSwitchChain], iptables [''-F'', killSwitchChain],
         iptables [''-X'', killSwitchChain]])"
  using assms(1)
proof (cases rule: lp.runConnect_ways)
  case (3 np privHex srvHex host armed w1 w2 w3)
  have armed: armed using 3(4) assms(2)
    by (auto simp: connect_and_serve_def ended_def heartbeat_args_def Let_def
        split: sum.splits first_event.splits prod.splits option.splits if_splits)
  obtain hosts where k: "rf_killSwitch rf" "installKillSwitch_linux flt pl m tun hosts w1 = (None, w2)"
    using 3(3) armed by (auto simp: arm_def linux_platform_def split: if_splits prod.splits option.splits)
  obtain a where a: "os_cmds w1 = os_cmds w @ a"
  proof -
    have "logs (platform_laws.confined (linux_installs tun)) w
        (snd (bring_up flt (linux_platform flt pl m tun ord) ce cfg np privHex srvHex w))"
      by (rule lp.bring_up_logs(1) [OF 3(1)])
    with 3(2) that show ?thesis by (auto simp: logs_def)
  qed
  obtain b where b: "os_cmds w2 = os_cmds w1 @ b" "(iptables [''-I'', ''OUTPUT'', ''1'', ''-j'', killSwitchChain], None) \<in> set b"
    using installKillSwitch_linux_ok [OF k(2)] by auto
  obtain c where c: "os_cmds w3 = os_cmds w2 @ c"
    using lp.connect_and_serve_logs(1) [OF 3(1,4)] by (auto simp: logs_def)
  obtain d where d: "os_cmds w' = os_cmds w3 @ d"
    using logs_mono [OF linux_teardownKS_logs [where tun = tun and w = w3 and flt = flt and m = m], of "\<lambda>_. True"] armed 3(5) by (auto simp: logs_def linux_platform_def)
  have "map fst d = [iptables [''-D'', ''OUTPUT'', ''-j'', killSwitchChain], iptables [''-F'', killSwitchChain], iptables [''-X'', killSwitchChain]]"
    using teardown_linux_log [of flt m w3] armed 3(5) d by (simp add: linux_platform_def)
  with k(1) a b c d show ?thesis by (intro conjI exI [of _ "a @ b @ c"] exI [of _ d]) simp_all
qed (use assms(2) in \<open>simp_all add: ended_def\<close>)

lemma install_linux_logged:
  "install_routes (linux_add flt tun) present rs w = (None, w') \<Longrightarrow> x \<in> set rs - present \<Longrightarrow>
     (ip_route ''replace'' tun x, None) \<in> set (os_cmds w')"
proof (induction rs arbitrary: w)
  case (Cons r rs)
  obtain o1 w1 where o: "linux_add flt tun r w = (o1, w1)" by (cases "linux_add flt tun r w")
  show ?case
  proof (cases "r \<in> present")
    case False
    with Cons.prems(1) o have i: "install_routes (linux_add flt tun) present rs w1 = (None, w')" and k: "o1 = OpOk"
      by (auto split: opres.splits)
    have l: "(ip_route ''replace'' tun r, None) \<in> set (os_cmds w1)"
      using o k by (auto simp: linux_add_def cmd_op_def run_call_def Let_def split: option.splits)
    have "logs (\<lambda>_. True) w1 (snd (install_routes (linux_add flt tun) present rs w1))"
      by (rule logs_install) (auto simp: linux_add_def cmd_op_def run_call_def logs_def Let_def split: option.splits)
    with i l have "(ip_route ''replace'' tun r, None) \<in> set (os_cmds w')" by (auto simp: logs_def)
    with Cons.IH [OF i] Cons.prems(2) show ?thesis by auto
  qed (use Cons in auto)
qed simp

lemma bring_up_configured:
  "bring_up flt pf ce cfg np privHex srvHex w = (True, w') \<Longrightarrow> \<exists>v. pf_configureTUN pf (TunnelIP cfg) np v = (None, w')"
  by (auto simp: bring_up_def Let_def split: prod.splits bool.splits option.splits)

lemma configured_linux_logged:
  assumes "configureTUN_linux flt tun ip np v = (None, w')" "x \<in> set (networkProfileRouteCIDRs np)"
  shows "(ip_route ''replace'' tun x, None) \<in> set (os_cmds w')"
proof -
  from assms(1) obtain u where "install_routes (linux_add flt tun) {} (networkProfileRouteCIDRs np) u = (None, w')"
    by (auto simp: configureTUN_linux_def split: prod.splits bool.splits)
  from install_linux_logged [OF this] assms(2) show ?thesis by simp
qed

lemma session_routes:
  assumes "runConnect flt (linux_platform flt pl m tun ord) ce rf cfg w = (res, w')" "cr_heartbeat res = Some h"
  shows "\<exists>x. (ip_route ''replace'' tun x, None) \<in> set (os_cmds w')"
  using assms(1)
proof (cases rule: lp.runConnect_ways)
  case (3 np privHex srvHex host armed w1 w2 w3)
  let ?pf = "linux_platform flt pl m tun ord"
  from 3(1) have "networkProfileRouteCIDRs np \<noteq> []" by (auto simp: authorised_profile_def networkProfileRouteCIDRs_def dest: arg_cong [where f = set])
  then obtain x where x: "x \<in> set (networkProfileRouteCIDRs np)" by (cases "networkProfileRouteCIDRs np") auto
  from bring_up_configured [OF 3(2)] obtain v where "configureTUN_linux flt tun (TunnelIP cfg) np v = (None, w1)"
    by (auto simp: linux_platform_def)
  from configured_linux_logged [OF this x] have "(ip_route ''replace'' tun x, None) \<in> set (os_cmds w1)" .
  moreover have "logs (\<lambda>_. True) w1 w2"
  proof (cases "rf_killSwitch rf")
    case True
    then have "w2 = snd (installKillSwitch_linux flt pl m tun (allowedControlPlaneHosts (ce_ul ce) (ce_hostname ce) (ce_ord ce) (ce_serverHost ce) cfg (rf_arena rf)) w1)"
      using 3(3) by (simp add: arm_def linux_platform_def split_beta split: option.splits)
    with logs_mono [OF linux_installKS_logs, where Q = "\<lambda>_. True"] show ?thesis by blast
  qed (use 3(3) in \<open>simp add: arm_def\<close>)
  moreover have "logs (\<lambda>_. True) w2 w3"
    using logs_mono [OF lp.connect_and_serve_logs(1) [OF 3(1,4)]] by simp
  moreover have "logs (\<lambda>_. True) w3 w'"
    using 3(5) logs_mono [OF linux_teardownKS_logs [where tun = tun and w = w3 and flt = flt and m = m], of "\<lambda>_. True"] by (simp add: linux_platform_def)
  ultimately show ?thesis by (auto simp: logs_def)
qed (use assms(2) in \<open>simp_all add: ended_def\<close>)

lemma runConnect_routes_confined_witness:
  "\<exists>x p. (ip_route ''replace'' ''arena0'' x, None) \<in> set (os_cmds (snd (runConnect (\<lambda>_. None) sample_linux sample_env (default_flags ''linux'') sample_creds sample_os)))
     \<and> parsePrefix4 x = Some p \<and> {a. pfx_contains p a} \<subseteq> approved_addrs"
proof -
  from sample_connect_run [of "default_flags ''linux''" sample_os] obtain res w' h
    where r: "runConnect (\<lambda>_. None) sample_linux sample_env (default_flags ''linux'') sample_creds sample_os = (res, w')"
      and h: "cr_heartbeat res = Some h" by (auto simp: default_flags_def)
  from session_routes [OF r [unfolded sample_linux_def] h] obtain x where "(ip_route ''replace'' ''arena0'' x, None) \<in> set (os_cmds w')" by blast
  moreover obtain l where "os_cmds w' = os_cmds sample_os @ l" "\<forall>(c, r) \<in> set l. \<forall>x. c = ip_route ''replace'' ''arena0'' x \<longrightarrow>
      (\<exists>p. parsePrefix4 x = Some p \<and> {a. pfx_contains p a} \<subseteq> approved_addrs)"
    using runConnect_routes_confined [OF r [unfolded sample_linux_def]] by (elim exE conjE)
  ultimately show ?thesis using r by (fastforce simp: sample_os_def)
qed

theorem runConnect_releases_witness:
  "foldl held {} (os_cmds (snd (runConnect (\<lambda>_. None) sample_linux sample_env (default_flags ''linux'') sample_creds sample_os))) = {}"
proof -
  obtain res w' where r: "runConnect (\<lambda>_. None) sample_linux sample_env (default_flags ''linux'') sample_creds sample_os = (res, w')"
    by fastforce
  from runConnect_releases [OF disjI1 [OF sample_linux_def] r] r show ?thesis by auto
qed


theorem heartbeat_honest_witness:
  "(iptables [''-I'', ''OUTPUT'', ''1'', ''-j'', killSwitchChain], None) \<in>
     set (os_cmds (snd (runConnect (\<lambda>_. None) sample_linux sample_env (default_flags ''linux'') sample_creds sample_os)))"
proof -
  from sample_connect_run [of "default_flags ''linux''" sample_os] obtain res w' u p d where r: "runConnect (\<lambda>_. None) sample_linux sample_env (default_flags ''linux'') sample_creds sample_os = (res, w')"
    and h: "cr_heartbeat res = Some (''a'', p, ''r'', True)" by (auto simp: default_flags_def)
  from heartbeat_honest [OF r [unfolded sample_linux_def] h] r show ?thesis by auto
qed

end
