(* ===== verification/Main_Safety.thy ===== *)
theory Main_Safety
  imports Client_Main Connect_Safety
begin

text \<open>
  What an invocation of the client guarantees as a whole: the subcommands' effects, the credentials
  a session may be opened with, the single-instance lock, termination.
\<close>

section \<open>What each subcommand may do\<close>

lemma LoadConfig_frame:
  "os_files (snd (LoadConfig flt u p w)) = os_files w" "os_cmds (snd (LoadConfig flt u p w)) = os_cmds w"
  by (auto simp: LoadConfig_def os_call_defs split: option.splits prod.splits sum.splits)

lemma runStatus_frame: "os_files (snd (runStatus flt mw rf w)) = os_files w" "os_cmds (snd (runStatus flt mw rf w)) = os_cmds w"
proof -
  obtain r w1 where l: "LoadConfig flt (mw_unmarshal mw) (config_path mw rf) w = (r, w1)" by (cases "LoadConfig flt (mw_unmarshal mw) (config_path mw rf) w")
  have "snd (runStatus flt mw rf w) = w1"
    by (cases r; cases "projr r") (auto simp: runStatus_def l Let_def split: option.splits)
  then show "os_files (snd (runStatus flt mw rf w)) = os_files w" "os_cmds (snd (runStatus flt mw rf w)) = os_cmds w"
    using LoadConfig_frame [of flt "mw_unmarshal mw" "config_path mw rf" w] l by simp_all
qed

text \<open>
  \<open>arena-tunnel status\<close> is read-only and its exit status is the documented table: it changes
  no file and runs no command; it ends with 2 exactly when the control plane calls the stored
  peer revoked, with 1 exactly when there is no readable configuration, with 0 otherwise - also
  when the control plane cannot be reached.
\<close>

lemma runStatus_table:
  "case runStatus flt mw rf w of ((code, out, arena), w') \<Rightarrow>
     os_files w' = os_files w \<and> os_cmds w' = os_cmds w
     \<and> code = (case fst (LoadConfig flt (mw_unmarshal mw) (config_path mw rf) w) of
          Inl _ \<Rightarrow> ExitFatalRuntime
        | Inr None \<Rightarrow> ExitFatalRuntime
        | Inr (Some cfg) \<Rightarrow>
            if fetchPeerStatus (mw_cp mw) (if ArenaBaseURL cfg = [] then rf_arena rf else ArenaBaseURL cfg) (PrivateKey cfg) = Inr ''revoked''
            then ExitPairInitFailed else ExitOK)"
proof -
  obtain code out arena w' where s: "runStatus flt mw rf w = ((code, out, arena), w')" by (metis prod.collapse)
  obtain r w1 where l: "LoadConfig flt (mw_unmarshal mw) (config_path mw rf) w = (r, w1)" by (cases "LoadConfig flt (mw_unmarshal mw) (config_path mw rf) w")
  from s l have "code = (case r of Inl _ \<Rightarrow> ExitFatalRuntime | Inr None \<Rightarrow> ExitFatalRuntime | Inr (Some cfg) \<Rightarrow>
      if fetchPeerStatus (mw_cp mw) (if ArenaBaseURL cfg = [] then rf_arena rf else ArenaBaseURL cfg) (PrivateKey cfg) = Inr ''revoked''
      then ExitPairInitFailed else ExitOK)"
    by (auto simp: runStatus_def Let_def split: sum.splits option.splits)
  with s l runStatus_frame [of flt mw rf w] show ?thesis by simp
qed

text \<open>
  Logging out does not depend on the control plane: whatever it answers, and whether it is
  asked at all (\<open>-keep-server\<close>), the exit status and the final state are the same.
\<close>

lemma runLogout_offline:
  "map_prod id snd (runLogout flt (mw\<lparr>mw_cp := cp\<rparr>) (rf\<lparr>rf_keepServer := k\<rparr>) w) = map_prod id snd (runLogout flt mw rf w)"
  by (simp add: runLogout_def config_path_def teardownInstallLeftovers_def Let_def split: prod.splits sum.splits option.splits)

lemma trust_keeps: "os_files (cleanupArenaTrust (cleanupPlatformArenaTrust_linux flt) w) q \<noteq> None \<Longrightarrow> os_files w q \<noteq> None"
proof -
  obtain r w1 where x: "os_Remove flt arenaTrustPath w = (r, w1)" by (cases "os_Remove flt arenaTrustPath w")
  have "os_files (cleanupArenaTrust (cleanupPlatformArenaTrust_linux flt) w) = os_files w1"
    by (cases r) (auto simp: cleanupArenaTrust_def cleanupPlatformArenaTrust_linux_def x)
  with Remove_keeps [of flt arenaTrustPath w q] x show "os_files (cleanupArenaTrust (cleanupPlatformArenaTrust_linux flt) w) q \<noteq> None \<Longrightarrow> os_files w q \<noteq> None"
    by simp
qed

lemma leftovers_keep:
  assumes "mw_pf mw = linux_platform flt pl m tun ord" "os_files (teardownInstallLeftovers flt mw w) q \<noteq> None"
  shows "os_files w q \<noteq> None"
proof -
  have t: "os_files (pf_teardownKS (mw_pf mw) v) q \<noteq> None \<Longrightarrow> os_files v q \<noteq> None" for v
    by (simp add: assms(1) linux_platform_def teardown_keeps(1))
  obtain r w1 where s: "os_Stat flt installUnit w = (r, w1)" by (cases "os_Stat flt installUnit w")
  have w1: "os_files w1 = os_files w" using Stat_files [OF s] .
  define w2 where "w2 = run_cmds flt [systemctl [''stop'', ''arena-tunnel.service''], systemctl [''disable'', ''arena-tunnel.service'']] w1"
  define w4 where "w4 = run_cmds flt [systemctl [''daemon-reload'']] (snd (os_Remove flt installUnit w2))"
  have f: "os_files w2 = os_files w1" "os_files w4 = os_files (snd (os_Remove flt installUnit w2))"
    by (simp_all add: w2_def w4_def del: run_cmds.simps)
  have w4: "os_files w4 q \<noteq> None \<Longrightarrow> os_files w q \<noteq> None"
    unfolding f(2) using Remove_keeps [of flt installUnit w2 q] f(1) w1 by simp
  have "teardownInstallLeftovers flt mw w \<in> {w, pf_teardownKS (mw_pf mw) w1, pf_teardownKS (mw_pf mw) w4}"
    by (cases r) (simp_all add: teardownInstallLeftovers_def s Let_def w2_def w4_def del: run_cmds.simps)
  then show ?thesis using assms(2) t [of w1] t [of w4] w1 w4 by (elim insertE) auto
qed


text \<open>
  (C36) A configuration that cannot be read, or does not parse, survives a logout that claims there
  was none: the exit status is 0 and the file, private key included, is still there.
\<close>

theorem runLogout_keeps_unreadable:
  assumes "mw_pf mw = linux_platform flt pl m tun ord" "os_files w (config_path mw rf) = Some f" "config_path mw rf \<noteq> arenaTrustPath"
    and "flt (os_tick w) = Some (Fault Permission 0) \<or> flt (os_tick w) = None \<and> mw_unmarshal mw (f_data f) = None"
  shows "\<exists>w'. runLogout flt mw rf w = (ExitOK, None, w') \<and> os_files w' (config_path mw rf) = Some f"
proof -
  let ?w1 = "w\<lparr>os_tick := Suc (os_tick w)\<rparr>"
  have "\<exists>r. LoadConfig flt (mw_unmarshal mw) (config_path mw rf) w = (r, ?w1) \<and> (r = Inl Permission \<or> r = Inr None)"
    using assms(2,4) by (auto simp: LoadConfig_def os_call_defs)
  then have r: "runLogout flt mw rf w = (ExitOK, None, cleanupArenaTrust (cleanupPlatformArenaTrust_linux flt) ?w1)"
    by (auto simp: runLogout_def assms(1) linux_platform_def)
  obtain x w2 where y: "os_Remove flt arenaTrustPath ?w1 = (x, w2)" by (cases "os_Remove flt arenaTrustPath ?w1")
  have "os_files w2 (config_path mw rf) = Some f" using Remove_other [OF assms(3), of flt ?w1] y assms(2) by simp
  then have "os_files (cleanupArenaTrust (cleanupPlatformArenaTrust_linux flt) ?w1) (config_path mw rf) = Some f"
    by (cases x) (auto simp: cleanupArenaTrust_def cleanupPlatformArenaTrust_linux_def y)
  with r show ?thesis by blast
qed


section \<open>Sessions are opened with live credentials only\<close>

lemma PairAndPersist_claims: "PairAndPersist flt pw opts w = Some (Inr cfg, w') \<Longrightarrow> \<exists>c. cfg = claimed_config c (pw_pairedAt pw) (po_ArenaBaseURL opts)"
  by (auto simp: PairAndPersist_def Let_def split: sum.splits prod.splits option.splits poll_result.splits)

lemma PairAndPersist_total: "\<exists>r. PairAndPersist flt pw opts w = Some r"
proof (cases "pairInit (pw_ul pw) (pw_build pw) (pw_init pw) (pw_hostname pw) (pw_marshal_init pw) (pw_decode_init pw) opts")
  case (Inr cr)
  obtain r where "pairPoll (pw_ul pw) (pw_build pw) (pw_poll pw) opts (fst cr) (pw_start pw) = Some r"
    using pairPoll_total by blast
  with Inr show ?thesis by (cases cr; cases r) (simp_all add: PairAndPersist_def Let_def split: prod.splits)
qed (simp add: PairAndPersist_def)

definition acceptable :: "main_world \<Rightarrow> rootFlags \<Rightarrow> Config \<Rightarrow> bool" where
  "acceptable mw rf cfg \<longleftrightarrow> (\<exists>c ts base. cfg = claimed_config c ts base)
     \<or> (Complete (Some cfg) \<and> \<not> rf_forcePair rf \<and> \<not> fst (pingC2State (mw_cp mw) (ArenaBaseURL cfg) (RevocationToken cfg) (PrivateKey cfg)))"

lemma ping_error: "pingC2State cp u t k = (r, v, Some e) \<Longrightarrow> \<not> r"
  by (auto simp: pingC2State_def split: if_splits sum.splits prod.splits option.splits)

lemma stored_source:
  assumes "stored_config flt mw rf w = Some (Inr cfg, w1)"
  shows "(\<exists>c ts base. cfg = claimed_config c ts base) \<or> (Complete (Some cfg) \<and> \<not> rf_forcePair rf)"
proof -
  obtain r w0 where l: "LoadConfig flt (mw_unmarshal mw) (config_path mw rf) w = (r, w0)"
    by (cases "LoadConfig flt (mw_unmarshal mw) (config_path mw rf) w")
  show ?thesis
  proof (cases "\<exists>c. r = Inr (Some c) \<and> \<not> rf_forcePair rf \<and> Complete (Some c)")
    case True
    with assms l show ?thesis by (auto simp: stored_config_def)
  next
    case False
    with assms l have "PairAndPersist flt (mw_pair mw) (pair_options mw rf (rf_arena rf)) w0 = Some (Inr cfg, w1)"
      by (auto simp: stored_config_def split: sum.splits if_splits)
    from PairAndPersist_claims [OF this] show ?thesis by blast
  qed
qed

lemma preflight_source:
  assumes "preflight flt mw rf cfg0 w = Some (Inr cfg, w1)"
  shows "(\<exists>c ts base. cfg = claimed_config c ts base) \<or>
    cfg = cfg0 \<and> (ArenaBaseURL cfg = [] \<or> \<not> fst (pingC2State (mw_cp mw) (ArenaBaseURL cfg) (RevocationToken cfg) (PrivateKey cfg)))"
proof (cases "ArenaBaseURL cfg0 = []")
  case False
  obtain r v e where p: "pingC2State (mw_cp mw) (ArenaBaseURL cfg0) (RevocationToken cfg0) (PrivateKey cfg0) = (r, v, e)"
    by (cases "pingC2State (mw_cp mw) (ArenaBaseURL cfg0) (RevocationToken cfg0) (PrivateKey cfg0)")
  show ?thesis
  proof (cases "r \<and> e = None")
    case True
    with assms False p have "\<exists>o1 v. PairAndPersist flt (mw_repair mw) o1 v = Some (Inr cfg, w1)"
      by (auto simp: preflight_def Let_def)
    with PairAndPersist_claims show ?thesis by blast
  next
    case n: False
    with ping_error [of _ _ _ _ r v] p have "\<not> r" by (cases e) auto
    with assms False p show ?thesis by (cases e) (auto simp: preflight_def Let_def)
  qed
qed (use assms in \<open>simp add: preflight_def\<close>)

lemma choose_source:
  assumes "choose_config flt mw rf w = Some (Inr cfg, w')" "ArenaBaseURL cfg \<noteq> []"
  shows "acceptable mw rf cfg"
proof (cases "legacy rf \<or> baked_in (mw_baked mw)")
  case True
  with assms show ?thesis by (auto simp: choose_config_def bare_config_def Let_def split: if_splits)
next
  case f: False
  show ?thesis
  proof (cases "rf_token rf = []")
    case False
    with assms(1) f have "token_config flt mw rf w = (Inr cfg, w')" by (simp add: choose_config_def)
    then show ?thesis unfolding acceptable_def
      by (intro disjI1) (auto simp: token_config_def Let_def split: poll_result.splits prod.splits)
  next
    case True
    with assms(1) f obtain cfg0 w1 where s: "stored_config flt mw rf w = Some (Inr cfg0, w1)" and p: "preflight flt mw rf cfg0 w1 = Some (Inr cfg, w')"
      by (auto simp: choose_config_def split: option.splits sum.splits prod.splits)
    from stored_source [OF s] preflight_source [OF p] assms(2) show ?thesis by (auto simp: acceptable_def)
  qed
qed

lemma runConnect_session:
  assumes "runConnect flt pf ce rf cfg w = (res, w')" "cr_shovel res = Some (u, tok, d)"
  shows "RevocationToken cfg = tok \<and> tok \<noteq> [] \<and> ArenaBaseURL cfg \<noteq> []"
proof -
  have "\<not> (RevocationToken cfg = [] \<or> ArenaBaseURL cfg = [])"
  proof
    assume "RevocationToken cfg = [] \<or> ArenaBaseURL cfg = []"
    from runConnect_unpaired [OF this, of flt pf ce rf w] assms show False by (simp add: ended_def)
  qed
  moreover have "RevocationToken cfg = tok"
    using assms
    by (auto simp: runConnect_def connect_and_serve_def ended_def Let_def split: if_splits sum.splits option.splits prod.splits bool.splits first_event.splits)
  ultimately show ?thesis by simp
qed


text \<open>
  (C38) Credentials given on the command line or baked into the binary never bring a tunnel up: the
  configuration made of them has no control-plane URL and no revocation token, so every such run
  ends with exit status 1 before a device is opened.
\<close>

theorem legacy_credentials_never_connect:
  assumes "legacy rf \<or> baked_in (mw_baked mw)"
  shows "\<exists>w'. runDefault flt mw rf w = Some (ended ExitFatalRuntime, w')"
proof -
  obtain p q i h v where c: "\<And>w. choose_config flt mw rf w = Some (Inr (bare_config p q i h), w)"
    using assms by (cases "legacy rf") (auto simp: choose_config_def Let_def)
  have "runConnect flt pf ce rf (bare_config p q i h) w = (ended ExitFatalRuntime, w)" for pf ce w
    by (rule runConnect_unpaired) (simp add: bare_config_def)
  with c show ?thesis by (simp add: runDefault_def split: prod.splits bool.splits)
qed

section \<open>Every invocation ends\<close>

definition exit_codes :: "nat set" where
  "exit_codes = {ExitOK, ExitFatalRuntime, ExitPairInitFailed, ExitUserCancelled, ExitExpiredOrNotFound,
     ExitNetworkBudgetExceeded, ExitPairWallClockTimeout, ExitConfigPermDenied, ExitConfigUnlinkFailed, ExitSignal}"

lemma exit_codes [simp]:
  "ExitOK \<in> exit_codes" "ExitFatalRuntime \<in> exit_codes" "ExitPairInitFailed \<in> exit_codes"
  "ExitConfigPermDenied \<in> exit_codes" "ExitConfigUnlinkFailed \<in> exit_codes" "ExitExpiredOrNotFound \<in> exit_codes"
  "ExitNetworkBudgetExceeded \<in> exit_codes"
  by (simp_all add: exit_codes_def)

lemma PairAndPersist_codes: "PairAndPersist flt pw opts w = Some (Inl x, w') \<Longrightarrow> x \<in> exit_codes"
  by (auto simp: PairAndPersist_def Let_def exit_codes_def split: sum.splits prod.splits option.splits poll_result.splits
      dest!: pairPoll_result)

lemma claimByToken_codes: "claimByToken ul b srv dec_claim opts token = PollFail x \<Longrightarrow> x \<in> exit_codes"
  by (auto simp: claimByToken_def split: sum.splits prod.splits option.splits if_splits)

lemma preflight_ends: "\<exists>r w'. preflight flt mw rf cfg w = Some (r, w') \<and> (\<forall>x. r = Inl x \<longrightarrow> x \<in> exit_codes)"
proof -
  obtain r v e where p: "pingC2State (mw_cp mw) (ArenaBaseURL cfg) (RevocationToken cfg) (PrivateKey cfg) = (r, v, e)"
    by (cases "pingC2State (mw_cp mw) (ArenaBaseURL cfg) (RevocationToken cfg) (PrivateKey cfg)")
  have q: "\<exists>r w'. PairAndPersist flt pw opts w = Some (r, w') \<and> (\<forall>x. r = Inl x \<longrightarrow> x \<in> exit_codes)" for pw opts w
  proof -
    obtain z where z: "PairAndPersist flt pw opts w = Some z" using PairAndPersist_total by blast
    then show ?thesis using PairAndPersist_codes by (cases z) auto
  qed
  show ?thesis using q p by (cases e; cases r) (auto simp: preflight_def Let_def)
qed

lemma choose_ends: "\<exists>r w'. choose_config flt mw rf w = Some (r, w') \<and> (\<forall>x. r = Inl x \<longrightarrow> x \<in> exit_codes)"
proof (cases "legacy rf \<or> baked_in (mw_baked mw)")
  case True
  then show ?thesis by (auto simp: choose_config_def Let_def)
next
  case f: False
  show ?thesis
  proof (cases "rf_token rf = []")
    case False
    obtain r w1 where t: "token_config flt mw rf w = (r, w1)" by (cases "token_config flt mw rf w")
    have "x \<in> exit_codes" if "r = Inl x" for x
      using t that claimByToken_codes
      by (auto simp: token_config_def Let_def split: poll_result.splits prod.splits)
    with f False t show ?thesis by (simp add: choose_config_def)
  next
    case True
    obtain l w0 where l: "LoadConfig flt (mw_unmarshal mw) (config_path mw rf) w = (l, w0)"
      by (cases "LoadConfig flt (mw_unmarshal mw) (config_path mw rf) w")
    obtain z where z: "PairAndPersist flt (mw_pair mw) (pair_options mw rf (rf_arena rf)) w0 = Some z"
      using PairAndPersist_total by blast
    have "\<exists>r w1. stored_config flt mw rf w = Some (r, w1) \<and> (\<forall>x. r = Inl x \<longrightarrow> x \<in> exit_codes)"
      using l z PairAndPersist_codes [of flt "mw_pair mw" "pair_options mw rf (rf_arena rf)" w0]
      by (cases l; cases z) (auto simp: stored_config_def)
    then obtain r w1 where s: "stored_config flt mw rf w = Some (r, w1)" and x: "\<And>x. r = Inl x \<Longrightarrow> x \<in> exit_codes" by blast
    show ?thesis
    proof (cases r)
      case (Inl y)
      with f True s x show ?thesis by (simp add: choose_config_def)
    next
      case (Inr cfg)
      with f True s preflight_ends [of flt mw rf cfg w1] show ?thesis by (simp add: choose_config_def)
    qed
  qed
qed

lemma runConnect_codes: "cr_code (fst (runConnect flt pf ce rf cfg w)) \<in> exit_codes"
  by (auto simp: runConnect_def connect_and_serve_def ended_def Let_def split: sum.splits option.splits prod.splits bool.splits first_event.splits)

lemma runDefault_ends: "\<exists>res w'. runDefault flt mw rf w = Some (res, w') \<and> cr_code res \<in> exit_codes"
proof -
  obtain sink w1 where s: "installDurableLog flt (mw_paths mw) (mw_restrict mw) (mw_log mw) w = (sink, w1)"
    by (cases "installDurableLog flt (mw_paths mw) (mw_restrict mw) (mw_log mw) w")
  obtain got w2 where a: "acquirePIDLock flt (mw_exists mw) (mw_scan mw) (mw_lock mw) (mw_pid mw) w1 = (got, w2)"
    by (cases "acquirePIDLock flt (mw_exists mw) (mw_scan mw) (mw_lock mw) (mw_pid mw) w1")
  obtain r w3 where c: "choose_config flt mw rf w2 = Some (r, w3)" and x: "\<And>x. r = Inl x \<Longrightarrow> x \<in> exit_codes"
    using choose_ends by blast
  show ?thesis
  proof (cases r)
    case (Inl y)
    with s a c x show ?thesis by (cases got) (simp_all add: runDefault_def ended_def)
  next
    case (Inr cfg)
    obtain res w4 where "runConnect flt (mw_pf mw) (mw_ce mw) rf cfg w3 = (res, w4)"
      by (cases "runConnect flt (mw_pf mw) (mw_ce mw) rf cfg w3")
    with s a c Inr runConnect_codes [of flt "mw_pf mw" "mw_ce mw" rf cfg w3] show ?thesis
      by (cases got) (simp_all add: runDefault_def ended_def)
  qed
qed

lemma parse_flags_codes: "parse_flags args rf = Inl x \<Longrightarrow> x \<in> exit_codes"
proof (induction args rf rule: parse_flags.induct)
  case (2 s args rf)
  have "y \<in> exit_codes" if "parseOne s args rf = ExitWith y" for y
    using that by (auto simp: parseOne_def set_flag_def exit_codes_def exit_defs split: if_splits prod.splits option.splits flag_var.splits list.splits)
  with 2 show ?case by (auto split: parse_step.splits)
qed simp


section \<open>The kill switch of a running instance\<close>


section \<open>One instance at a time\<close>

lemma close_log_files [simp]: "os_files (close_log flt sink w) = os_files w" "os_cmds (close_log flt sink w) = os_cmds w"
  by (auto simp: close_log_def Close_def os_call_defs split: option.splits prod.splits)


section \<open>A concrete invocation\<close>

definition sample_main :: main_world where
  "sample_main = \<lparr>mw_os = Linux, mw_paths = sample_paths, mw_getenv = (\<lambda>_. []), mw_home = None, mw_marshal = (\<lambda>c. None),
     mw_unmarshal = (\<lambda>s. if s = ''j'' then Some sample_creds else None), mw_exists = (\<lambda>n. n = 7), mw_scan = sample_scan,
     mw_lock = ''l'', mw_pid = 9, mw_log = None, mw_restrict = restrictToOwner_other,
     mw_baked = \<lparr>privKeyB64 = [], serverPubKeyB64 = [], tunnelIP = [], serverHost = ''wg''\<rparr>, mw_claim = (\<lambda>_. HttpReply 404 []),
     mw_decode_claim = (\<lambda>_. None), mw_now = ''t'', mw_pair = sample_world, mw_repair = sample_world, mw_cp = sample_cp,
     mw_pf = sample_linux, mw_ce = sample_env, mw_recover = recoverKillSwitchIfLeftArmed (\<lambda>_. None) (teardownKillSwitch_linux (\<lambda>_. None) ''m'') ''m''\<rparr>"

definition sample_root_flags :: rootFlags where
  "sample_root_flags = (default_flags ''linux'')\<lparr>rf_configPath := ''c'', rf_arena := ''a''\<rparr>"

definition sample_paired_os :: os where
  "sample_paired_os = sample_os\<lparr>os_files := [''c'' \<mapsto> \<lparr>f_data = ''j'', f_mode = 384\<rparr>]\<rparr>"

lemma sample_path: "config_path sample_main sample_root_flags = ''c''"
  by (simp add: config_path_def sample_main_def sample_root_flags_def ResolveConfigPath_def)

lemma sample_loads: "os_files w ''c'' = Some \<lparr>f_data = ''j'', f_mode = 384\<rparr> \<Longrightarrow>
    LoadConfig (\<lambda>_. None) (mw_unmarshal sample_main) ''c'' w = (Inr (Some sample_creds), w\<lparr>os_tick := Suc (os_tick w)\<rparr>)"
  by (simp add: LoadConfig_def os_call_defs sample_main_def sample_creds_def sample_config_def ConfigSchemaVersion_def)


theorem runLogout_keeps_unreadable_witness:
  "\<exists>w'. runLogout (\<lambda>_. None) (sample_main\<lparr>mw_unmarshal := \<lambda>_. None\<rparr>) sample_root_flags sample_paired_os = (ExitOK, None, w')
     \<and> os_files w' ''c'' = Some \<lparr>f_data = ''j'', f_mode = 384\<rparr>"
proof -
  have p: "config_path (sample_main\<lparr>mw_unmarshal := \<lambda>_. None\<rparr>) sample_root_flags = ''c''" using sample_path by (simp add: config_path_def)
  have m: "mw_pf (sample_main\<lparr>mw_unmarshal := \<lambda>_. None\<rparr>) = linux_platform (\<lambda>_. None) sample_paths ''m'' ''arena0'' (\<lambda>_. [])"
    by (simp add: sample_main_def sample_linux_def)
  show ?thesis
    using runLogout_keeps_unreadable [OF m, of sample_paired_os sample_root_flags "\<lparr>f_data = ''j'', f_mode = 384\<rparr>"]
    by (simp add: p sample_paired_os_def arenaTrustPath_def)
qed

lemma sample_ping: "pingC2State sample_cp ''a'' ''r'' k = (False, [], Some (HttpStatus 503))"
  by (simp add: pingC2State_def sample_cp_def joinURL_def sample_urls_def bearer_get_def new_request_def Let_def)

lemma sample_choice:
  assumes "os_files w ''c'' = Some \<lparr>f_data = ''j'', f_mode = 384\<rparr>"
  shows "choose_config (\<lambda>_. None) sample_main sample_root_flags w = Some (Inr sample_creds, w\<lparr>os_tick := Suc (os_tick w)\<rparr>)"
proof -
  have c: "Complete (Some sample_creds)" "ArenaBaseURL sample_creds = ''a''" "RevocationToken sample_creds = ''r''"
    by (simp_all add: Complete_def sample_creds_def sample_config_def ConfigSchemaVersion_def sample_key_def)
  have f: "\<not> legacy sample_root_flags" "\<not> baked_in (mw_baked sample_main)" "rf_token sample_root_flags = []" "\<not> rf_forcePair sample_root_flags"
    "mw_cp sample_main = sample_cp"
    by (simp_all add: legacy_def baked_in_def sample_root_flags_def default_flags_def sample_main_def)
  show ?thesis
    by (simp add: choose_config_def stored_config_def preflight_def f c sample_path sample_loads [OF assms] sample_ping)
qed


theorem legacy_credentials_never_connect_witness:
  "\<exists>w'. runDefault (\<lambda>_. None) sample_main (sample_root_flags\<lparr>rf_priv := sample_key, rf_pub := sample_key, rf_ip := ''10.201.0.5''\<rparr>) sample_paired_os
     = Some (ended ExitFatalRuntime, w')"
  by (rule legacy_credentials_never_connect) (simp add: legacy_def sample_key_def)



end
