(* ===== verification/Footprint.thy ===== *)
theory Footprint
  imports Main_Safety
begin

text \<open>
  What an invocation of the client may leave behind: the files it can touch, and the commands it
  can run. The laws of \<open>platform_laws\<close> bound the commands of the platform functions; the locale
  \<open>platform_files\<close> bounds their files; both together bound \<open>main\<close>, whatever it is called with and
  whatever fails.
\<close>

section \<open>Files\<close>

abbreviation same_files :: "os \<Rightarrow> os \<Rightarrow> bool" where
  "same_files w w' \<equiv> os_files w' = os_files w"

lemma untouched_same: "same_files w w' \<Longrightarrow> untouched_but F w w'"
  by (simp add: untouched_but_def)

lemma untouched_mono: "untouched_but F w w' \<Longrightarrow> F \<subseteq> G \<Longrightarrow> untouched_but G w w'"
  by (auto simp: untouched_but_def)

lemma call_files: "run_call flt c w = (r, w') \<Longrightarrow> same_files w w'"
  by (metis run_call_simps(1) snd_conv)

lemma nop_files: "os_Nop flt w = (r, w') \<Longrightarrow> same_files w w'"
  by (metis Nop_files snd_conv)

lemma op_files: "cmd_op flt c w = (r, w') \<Longrightarrow> same_files w w'"
  by (auto simp: cmd_op_def dest: call_files split: prod.splits option.splits)

lemma withdraw_files:
  assumes "\<And>r s s' x. del r s = (x, s') \<Longrightarrow> same_files s s'"
  shows "same_files s (snd (withdraw del keep rs s))"
proof (induction rs arbitrary: s)
  case (Cons r rs)
  obtain x s' where d: "del r s = (x, s')" by (cases "del r s")
  with Cons.IH assms [OF d] show ?case by (cases x) simp_all
qed simp

lemma install_files:
  assumes "\<And>r s s' x. add r s = (x, s') \<Longrightarrow> same_files s s'"
  shows "same_files s (snd (install_routes add present rs s))"
proof (induction rs arbitrary: s)
  case (Cons r rs)
  obtain x s' where d: "add r s = (x, s')" by (cases "add r s")
  with Cons.IH assms [OF d] show ?case by (cases x) simp_all
qed simp

lemma reconcile_files:
  assumes "\<And>r s s' x. del r s = (x, s') \<Longrightarrow> same_files s s'" "\<And>r s s' x. add r s = (x, s') \<Longrightarrow> same_files s s'"
    and "\<And>s. same_files s (snd (dns s))"
  shows "same_files s (snd (reconcile_with add del dns porder norder prev nxt s))"
proof -
  obtain x s1 where w: "withdraw del nxt porder s = (x, s1)" by (cases "withdraw del nxt porder s")
  obtain y s2 where i: "install_routes add prev norder s1 = (y, s2)" by (cases "install_routes add prev norder s1")
  from withdraw_files [where del = del and keep = nxt and rs = porder and s = s, OF assms(1)]
    install_files [where add = add and present = prev and rs = norder and s = s1, OF assms(2)] assms(3) [of s2] w i show ?thesis
    by (cases x; cases y) (simp_all add: reconcile_with_def)
qed

section \<open>The platforms' files\<close>

locale platform_files =
  fixes pf :: platform
    and F :: "path set"
  assumes configure_files: "same_files w (snd (pf_configureTUN pf ip np w))"
    and dns_files: "same_files w (snd (pf_configureDNS pf np w))"
    and reconciled_files: "same_files w (snd (pf_reconcile pf cur np w))"
    and teardown_files: "same_files w (pf_teardownTUN pf np w)"
    and armed_files: "untouched_but F w (snd (pf_installKS pf hosts w))"
    and disarmed_files: "untouched_but F w (pf_teardownKS pf w)"
    and trust_files: "untouched_but F w (snd (pf_trust pf w))"

lemma drop_marker_files: "untouched_but {m} w (drop_marker flt pl m w)"
  by (auto simp: untouched_but_def drop_marker_def os_WriteFile_def os_call_defs split: option.splits)

lemma removed_files: "p \<in> F \<Longrightarrow> untouched_but F w (snd (os_Remove flt p w))"
  by (rule untouched_mono [OF untouched_calls(1)]) simp

lemma linux_dns_files: "same_files w (snd (configureLinuxDNS flt tun np w))"
  by (auto simp: configureLinuxDNS_def dest!: run_cmd_files nop_files split: prod.splits sum.splits bool.splits)

lemma linux_configure_files: "same_files w (snd (configureTUN_linux flt tun ip np w))"
proof -
  have "same_files v (snd (install_routes (linux_add flt tun) {} rs v))" for v rs
    by (rule install_files) (simp add: linux_add_def op_files)
  then show ?thesis by (auto simp: configureTUN_linux_def dest!: run_cmd_files split: prod.splits bool.splits)
qed

lemma append_rules_files: "append_rules flt rs w = (x, w') \<Longrightarrow> same_files w w'"
  by (induction rs arbitrary: w) (auto dest!: run_cmd_files split: prod.splits bool.splits)

lemma linux_armed_files: "untouched_but {m} w (snd (installKillSwitch_linux flt pl m tun hosts w))"
proof -
  obtain ok w2 where 2: "run_cmd flt (iptables [''-F'', killSwitchChain]) (snd (run_cmd flt (iptables [''-N'', killSwitchChain]) w)) = (ok, w2)"
    by (cases "run_cmd flt (iptables [''-F'', killSwitchChain]) (snd (run_cmd flt (iptables [''-N'', killSwitchChain]) w))")
  obtain x w3 where 3: "append_rules flt (ks_rules tun) w2 = (x, w3)" by (cases "append_rules flt (ks_rules tun) w2")
  obtain ok5 w5 where 5: "run_cmd flt (iptables [''-I'', ''OUTPUT'', ''1'', ''-j'', killSwitchChain])
      (snd (run_cmd flt (iptables [''-D'', ''OUTPUT'', ''-j'', killSwitchChain]) w3)) = (ok5, w5)"
    by (cases "run_cmd flt (iptables [''-I'', ''OUTPUT'', ''1'', ''-j'', killSwitchChain])
      (snd (run_cmd flt (iptables [''-D'', ''OUTPUT'', ''-j'', killSwitchChain]) w3))")
  have f: "same_files w w2" "same_files w2 w3" "same_files w3 w5"
    using run_cmd_files [OF 2] append_rules_files [OF 3] run_cmd_files [OF 5] by simp_all
  have d: "untouched_but {m} w (drop_marker flt pl m w5)"
    using drop_marker_files [of m w5 flt pl] f by (simp add: untouched_but_def)
  from 2 3 5 f d show ?thesis
    by (cases ok; cases x; cases ok5) (simp_all add: installKillSwitch_linux_def Let_def untouched_same)
qed

lemma trust_linux_files: "untouched_but {arenaTrustPath} w (snd (cleanupPlatformArenaTrust_linux flt w))"
proof -
  obtain r w1 where 1: "os_Remove flt arenaTrustPath w = (r, w1)" by (cases "os_Remove flt arenaTrustPath w")
  have "untouched_but {arenaTrustPath} w w1" using untouched_calls(1) [of arenaTrustPath w flt] 1 by simp
  then show ?thesis using 1 by (cases r) (simp_all add: cleanupPlatformArenaTrust_linux_def untouched_but_def)
qed

interpretation lf: platform_files "linux_platform flt pl m tun ord" "{m, arenaTrustPath}"
  for flt pl m tun ord
proof
  fix w hosts np cur
  show "same_files w (snd (pf_reconcile (linux_platform flt pl m tun ord) cur np w))"
    unfolding linux_platform_def platform.simps reconcileTUN_linux_def
    by (rule reconcile_files) (simp_all add: linux_add_def linux_del_def op_files linux_dns_files)
  show "untouched_but {m, arenaTrustPath} w (snd (pf_installKS (linux_platform flt pl m tun ord) hosts w))"
    by (rule untouched_mono [of "{m}"]) (simp_all add: linux_platform_def linux_armed_files)
  show "untouched_but {m, arenaTrustPath} w (pf_teardownKS (linux_platform flt pl m tun ord) w)"
    using removed_files [of m "{m, arenaTrustPath}"] run_cmds_frame(1)
    by (simp add: linux_platform_def teardownKillSwitch_linux_def untouched_but_def)
  show "untouched_but {m, arenaTrustPath} w (snd (pf_trust (linux_platform flt pl m tun ord) w))"
    by (rule untouched_mono [of "{arenaTrustPath}"]) (simp_all add: linux_platform_def trust_linux_files)
qed (simp_all add: linux_platform_def linux_configure_files configureTunnelDNS_linux_def linux_dns_files teardownTUN_linux_def)

lemma win_add_routes_files: "win_add_routes flt qs w = (x, w') \<Longrightarrow> same_files w w'"
  by (induction qs arbitrary: w) (auto dest!: call_files split: prod.splits option.splits if_splits)

lemma win_set_ip_files: "win_set_ip flt ip w = (x, w') \<Longrightarrow> same_files w w'"
  by (auto simp: win_set_ip_def Let_def dest!: call_files split: prod.splits option.splits if_splits)

lemma win_attempt_files: "win_attempt flt qs ip w = (x, w') \<Longrightarrow> same_files w w'"
  by (auto simp: win_attempt_def dest!: win_add_routes_files win_set_ip_files call_files split: prod.splits option.splits)

lemma win_retry_files: "win_retry n e flt qs ip w = (x, w') \<Longrightarrow> same_files w w'"
  by (induction n arbitrary: e w) (auto dest!: win_attempt_files split: prod.splits attempt.splits)

lemma windows_dns_files: "same_files w (snd (setWindowsDNS flt np w))"
  by (auto simp: setWindowsDNS_def dest!: call_files split: prod.splits option.splits)

lemma win_op_files: "win_del flt r s = (x, s') \<Longrightarrow> same_files s s'" "win_add flt r s = (x, s') \<Longrightarrow> same_files s s'"
  by (auto simp: win_del_def win_add_def dest!: call_files split: prod.splits option.splits)

lemma ps_files: "ps flt s w = (ok, w') \<Longrightarrow> same_files w w'"
  by (auto simp: ps_def dest: run_cmd_files)

lemma windows_armed_files: "untouched_but {m} w (snd (installKillSwitch_windows flt pl m lookup ifaces answer tun hosts w))"
proof -
  define A where "A = allow_scripts tun (detectLocalCIDRs tun ifaces) (resolve_hosts lookup hosts)"
  obtain ok1 w1 where 1: "ps flt removeRules w = (ok1, w1)" by (cases "ps flt removeRules w")
  obtain x w2 where 2: "add_rules flt A w1 = (x, w2)" by (cases "add_rules flt A w1")
  obtain ok3 w3 where 3: "ps flt (setOutbound ''Block'') w2 = (ok3, w3)" by (cases "ps flt (setOutbound ''Block'') w2")
  obtain ok4 w4 where 4: "run_cmd flt (powershell queryOutbound) w3 = (ok4, w4)" by (cases "run_cmd flt (powershell queryOutbound) w3")
  have f: "same_files w w1" "same_files w1 w2" "same_files w2 w3" "same_files w3 w4"
    using ps_files [OF 1] add_rules_log [OF 2] ps_files [OF 3] run_cmd_files [OF 4] by simp_all
  have d: "untouched_but {m} w (drop_marker flt pl m w4)"
    using drop_marker_files [of m w4 flt pl] f by (simp add: untouched_but_def)
  show ?thesis using 1 2 3 4 f d
    by (cases x; cases ok3; cases ok4) (simp_all add: installKillSwitch_windows_def Let_def A_def [symmetric] untouched_same)
qed

interpretation wf: platform_files "windows_platform flt pl m tun ord native parses lookup ifaces answer" "{m}"
  for flt pl m tun ord native parses lookup ifaces answer
proof
  fix w hosts np cur ip
  let ?pf = "windows_platform flt pl m tun ord native parses lookup ifaces answer"
  show "same_files w (snd (pf_configureTUN ?pf ip np w))"
    using win_retry_files [OF prod.collapse [symmetric]] by (auto simp: windows_platform_def configureTUN_windows_def)
  show "same_files w (snd (pf_configureDNS ?pf np w))"
    using windows_dns_files by (simp add: windows_platform_def configureTunnelDNS_windows_def)
  have r: "same_files w (snd (reconcile_with (win_add flt) (win_del flt) (setWindowsDNS flt np) po no pr nx w))" for po no pr nx
    by (rule reconcile_files) (simp_all add: win_op_files windows_dns_files)
  then show "same_files w (snd (pf_reconcile ?pf cur np w))"
    by (simp add: windows_platform_def reconcileTUN_windows_def)
  show "untouched_but {m} w (pf_teardownKS ?pf w)"
    using removed_files [of m "{m}"] by (simp add: windows_platform_def teardownKillSwitch_windows_def untouched_but_def)
qed (simp_all add: windows_platform_def windows_armed_files teardownTUN_windows_def cleanupPlatformArenaTrust_windows_def untouched_same)

interpretation f_other: platform_files "other_platform tun" "{}" for tun
  by unfold_locales
    (simp_all add: other_platform_def configureTUN_other_def configureTunnelDNS_other_def reconcileTUN_other_def
      teardownTUN_other_def installKillSwitch_other_def teardownKillSwitch_other_def cleanupPlatformArenaTrust_other_def untouched_same)

section \<open>The files of a connection\<close>

context platform_files
begin

lemma brought_up_files: "bring_up flt pf ce cfg np privHex srvHex w = (ok, w') \<Longrightarrow> same_files w w'"
proof -
  assume a: "bring_up flt pf ce cfg np privHex srvHex w = (ok, w')"
  have c: "pf_configureTUN pf ip np v = (x, v') \<Longrightarrow> same_files v v'" for ip v x v'
    using configure_files [where w = v and ip = ip and np = np] by simp
  from a show ?thesis
    by (auto simp: bring_up_def Let_def simp del: run_cmds.simps dest!: run_cmd_files c split: prod.splits bool.splits option.splits)
qed

lemma trust_once: "untouched_but F w (cleanupArenaTrustIfRevoked (pf_trust pf) revoked w)"
  using trust_files by (simp add: cleanupArenaTrustIfRevoked_def cleanupArenaTrust_def untouched_same)

lemma polled_files: "poll_ticks pf b ul decode cfg tks cur w = (np, w') \<Longrightarrow> untouched_but F w w'"
proof (induction tks arbitrary: cur w)
  case Nil
  then show ?case by (simp add: untouched_same)
next
  case (Cons tk tks)
  obtain revoked v e where p: "pingC2State (tk_cp tk) (ArenaBaseURL cfg) (RevocationToken cfg) (PrivateKey cfg) = (revoked, v, e)"
    by (cases "pingC2State (tk_cp tk) (ArenaBaseURL cfg) (RevocationToken cfg) (PrivateKey cfg)")
  define w1 where "w1 = cleanupArenaTrustIfRevoked (pf_trust pf) revoked w"
  have t: "untouched_but F w w1" unfolding w1_def by (rule trust_once)
  show ?case
  proof (cases "e = None \<and> \<not> revoked")
    case False
    with Cons p w1_def t show ?thesis by (cases e) (auto simp: Let_def)
  next
    case True
    show ?thesis
    proof (cases "fetchNetworkProfile ul (tk_srv tk) decode b cfg")
      case (Inl x)
      with True Cons.prems p have "poll_ticks pf b ul decode cfg tks cur w1 = (np, w')" by (simp add: w1_def)
      from untouched_but_trans [OF t Cons.IH [OF this]] show ?thesis .
    next
      case (Inr nxt)
      obtain x w2 where r: "pf_reconcile pf cur nxt w1 = (x, w2)" by (cases "pf_reconcile pf cur nxt w1")
      have 2: "untouched_but F w w2"
        using untouched_but_trans [OF t untouched_same] reconciled_files [where w = w1 and cur = cur and np = nxt] r by simp
      from Cons.prems True p Inr r have "poll_ticks pf b ul decode cfg tks cur w1 = (np, w') \<or> poll_ticks pf b ul decode cfg tks cur w2 = (np, w')
          \<or> poll_ticks pf b ul decode cfg tks nxt w2 = (np, w')"
        by (cases "networkProfilesEqual (Some cur) (Some nxt)"; cases x) (simp_all add: Let_def w1_def)
      with Cons.IH untouched_but_trans [OF t] untouched_but_trans [OF 2] show ?thesis by blast
    qed
  qed
qed

lemma abandoned_files: "same_files w (abandon flt pf np w)"
  using teardown_files by (simp add: abandon_def del: run_cmds.simps)

lemma served_files: "untouched_but F w (serve flt pf ce cfg np w)"
proof -
  obtain cur w1 where s: "(if ArenaBaseURL cfg \<noteq> [] then poll_ticks pf (ce_build ce) (ce_ul ce) (ce_decode ce) cfg (ce_ticks ce) np w
      else (np, w)) = (cur, w1)" by fastforce
  then have "untouched_but F w w1" using polled_files by (auto simp: untouched_same split: if_splits)
  with s teardown_files [where w = w1 and np = cur] show ?thesis by (simp add: serve_def untouched_but_def del: run_cmds.simps)
qed

lemma connected_files: "connect_and_serve flt pf ce cfg np host armed w = (res, w') \<Longrightarrow> untouched_but F w w'"
proof -
  assume a: "connect_and_serve flt pf ce cfg np host armed w = (res, w')"
  obtain x w1 where d: "pf_configureDNS pf np w = (x, w1)" by (cases "pf_configureDNS pf np w")
  have f: "same_files w w1" using dns_files [where w = w and np = np] d by simp
  have "w' \<in> {abandon flt pf np w, abandon flt pf np w1, serve flt pf ce cfg np w1}"
    using a d by (auto simp: connect_and_serve_def Let_def split: sum.splits first_event.splits option.splits)
  then show ?thesis
    using f abandoned_files [where w = w and flt = flt and np = np] abandoned_files [where w = w1 and flt = flt and np = np]
      served_files [where w = w1 and flt = flt and ce = ce and cfg = cfg and np = np]
    by (auto simp: untouched_but_def)
qed

lemma connection_files: "runConnect flt pf ce rf cfg w = (res, w') \<Longrightarrow> untouched_but F w w'"
proof -
  assume a: "runConnect flt pf ce rf cfg w = (res, w')"
  have arm: "arm pf ce rf cfg v = (x, v') \<Longrightarrow> untouched_but F v v'" for v x v'
    using armed_files by (auto simp: arm_def untouched_same split: if_splits prod.splits option.splits) (metis snd_conv)+
  consider "w' = w" | np privHex srvHex ok where "bring_up flt pf ce cfg np privHex srvHex w = (ok, w')"
    | np privHex srvHex host armed w1 w2 w3 where "bring_up flt pf ce cfg np privHex srvHex w = (True, w1)"
      "arm pf ce rf cfg w1 = (armed, w2)" "connect_and_serve flt pf ce cfg np host armed w2 = (res, w3)"
      "w' = (if armed then pf_teardownKS pf w3 else w3)"
    using a by (auto simp: runConnect_def Let_def split: if_splits sum.splits option.splits prod.splits bool.splits)
  then show ?thesis
  proof cases
    case 2
    from brought_up_files [OF 2] show ?thesis by (rule untouched_same)
  next
    case 3
    have "untouched_but F w w3"
      by (rule untouched_but_trans [OF untouched_but_trans [OF untouched_same [OF brought_up_files [OF 3(1)]] arm [OF 3(2)]] connected_files [OF 3(3)]])
    from this untouched_but_trans [OF this disarmed_files] 3(4) show ?thesis by simp
  qed (simp add: untouched_same)
qed

end

section \<open>An invocation on Linux\<close>

text \<open>Only files of \<open>F\<close> change, and every route a logged command puts in force is one of an
  authorised profile.\<close>

definition stays :: "string \<Rightarrow> path set \<Rightarrow> os \<Rightarrow> os \<Rightarrow> bool" where
  "stays tun F w w' \<longleftrightarrow> untouched_but F w w' \<and> logs (platform_laws.confined (linux_installs tun)) w w'"

lemma stays_trans [trans]: "stays tun F w v \<Longrightarrow> stays tun F v u \<Longrightarrow> stays tun F w u"
  by (auto simp: stays_def intro: untouched_but_trans logs_trans)

lemma stays_refl [simp]: "stays tun F w w"
  by (simp add: stays_def untouched_same)

lemma stays_mono: "stays tun F w w' \<Longrightarrow> F \<subseteq> G \<Longrightarrow> stays tun G w w'"
  by (auto simp: stays_def intro: untouched_mono)

lemma stays_silent: "untouched_but F w w' \<Longrightarrow> os_cmds w' = os_cmds w \<Longrightarrow> stays tun F w w'"
  by (simp add: stays_def)

lemma confined_other: "c \<noteq> [] \<and> hd c \<noteq> ''ip'' \<or> length c \<noteq> 6 \<Longrightarrow> platform_laws.confined (linux_installs tun) c"
  using linux_installs_eq [of tun c] by (cases "linux_installs tun c") (auto simp: lp.confined_def)

lemma stays_cmd: "run_cmd flt c w = (ok, w') \<Longrightarrow> c \<noteq> [] \<and> hd c \<noteq> ''ip'' \<or> length c \<noteq> 6 \<Longrightarrow> stays tun F w w'"
  using run_cmd_files [of flt c w ok w'] logs_cmd [of flt c w ok w'] confined_other [of c tun]
  by (simp add: stays_def untouched_same)

lemma stays_cmds: "list_all (\<lambda>c. c \<noteq> [] \<and> hd c \<noteq> ''ip'') cs \<Longrightarrow> stays tun F w (run_cmds flt cs w)"
  unfolding stays_def
  by (intro conjI logs_cmds) (simp add: untouched_same, auto simp: list_all_iff intro!: confined_other)

lemma stays_remove: "p \<in> F \<Longrightarrow> stays tun F w (snd (os_Remove flt p w))"
  by (intro stays_silent removed_files file_calls_cmds)

lemma SaveConfig_stays: "SaveConfig flt pl marshal p (Some c) w = (e, c', w') \<Longrightarrow> stays tun {p, tmp_of p} w w'"
proof -
  assume s: "SaveConfig flt pl marshal p (Some c) w = (e, c', w')"
  have wr: "os_cmds v' = os_cmds v" if "write_config flt p d v = (x, v')" for d v x v'
    using that by (auto simp: write_config_def Let_def os_call_defs os_Write_def split: option.splits prod.splits)
  have "os_cmds w' = os_cmds w"
    using s by (auto simp: SaveConfig_def Let_def os_MkdirAll_def syscall_def dest!: wr split: prod.splits sum.splits option.splits if_splits)
  with SaveConfig_outcome [OF s] show ?thesis by (auto simp: save_outcome_def intro: stays_silent)
qed

lemma WipeConfig_stays: "stays tun {p} w (snd (WipeConfig flt p w))"
proof (rule stays_silent)
  show "untouched_but {p} w (snd (WipeConfig flt p w))" by (rule untouched_butI) (simp add: WipeConfig_frame)
  show "os_cmds (snd (WipeConfig flt p w)) = os_cmds w"
    by (auto simp: WipeConfig_def Let_def os_call_defs os_Write_def split: option.splits prod.splits sum.splits)
qed

lemma LoadConfig_stays: "LoadConfig flt u p w = (r, w') \<Longrightarrow> stays tun F w w'"
  using LoadConfig_frame [of flt u p w] by (simp add: stays_silent untouched_same)

lemma sink_stays: "installDurableLog flt pl restrictToOwner_other lp w = (s, w') \<Longrightarrow> stays tun (set_option lp) w w'"
  by (cases lp) (auto simp: installDurableLog_def newRotatingSink_def restrictToOwner_other_def open_sink_def Close_def os_OpenLog_def
      os_call_defs Let_def untouched_but_def intro!: stays_silent split: prod.splits sum.splits option.splits if_splits)

lemma acquire_stays: "acquire_from n flt ex sc p pid w = (g, w') \<Longrightarrow> stays tun {p} w w'"
proof (induction n arbitrary: w)
  case (Suc n)
  obtain r w1 where c: "os_CreateExcl flt p 420 w = (r, w1)" by (cases "os_CreateExcl flt p 420 w")
  have 1: "stays tun {p} w w1"
    using untouched_calls(3) [of p w flt 420] c by (intro stays_silent) (auto simp: os_call_defs split: option.splits)
  show ?case
  proof (cases r)
    case (Inr u)
    have "stays tun {p} w1 (snd (os_Nop flt (snd (os_Write flt p 0 (pid_text pid) w1))))"
      using untouched_calls(4) [of p w1 flt 0 "pid_text pid"] by (intro stays_silent) (auto simp: os_Write_def untouched_but_def split: option.splits)
    with stays_trans [OF 1 this] Suc.prems c Inr show ?thesis by simp
  next
    case (Inl e)
    obtain q w2 where d: "os_ReadFile flt p w1 = (q, w2)" by (cases "os_ReadFile flt p w1")
    have 2: "stays tun {p} w w2"
      using d by (intro stays_trans [OF 1] stays_silent) (auto simp: os_call_defs untouched_but_def split: option.splits)
    have 3: "stays tun {p} w w'" if "acquire_from n flt ex sc p pid (snd (os_Remove flt p w2)) = (g, w')"
      using stays_trans [OF stays_trans [OF 2 stays_remove] Suc.IH [OF that]] by simp
    show ?thesis
    proof (cases "e = Exist")
      case True
      with Suc.prems c d Inl have "acquire_from n flt ex sc p pid (snd (os_Remove flt p w2)) = (g, w') \<or> w' = w2"
        by (auto split: sum.splits if_splits)
      with 2 3 show ?thesis by auto
    qed (use Suc.prems c Inl 1 in simp)
  qed
qed simp

lemma spawn_stays: "length c \<noteq> 6 \<Longrightarrow> stays tun F w (snd (spawnDetached flt c w))"
proof -
  assume l: "length c \<noteq> 6"
  obtain ok v where r: "run_cmd flt c w = (ok, v)" by (cases "run_cmd flt c w")
  from stays_cmd [OF r] l r show ?thesis by (cases ok) (simp_all add: spawnDetached_def)
qed

lemma browse_stays: "stays tun F w (snd (openBrowser flt he g u w))"
proof -
  obtain x v where x: "isWSL flt w = (x, v)" by (cases "isWSL flt w")
  have v: "stays tun F w v"
    using x by (intro stays_silent untouched_same) (auto simp: isWSL_def os_call_defs split: option.splits)
  have s: "stays tun F w (snd (spawnDetached flt c v))" if "length c \<noteq> 6" for c
    by (rule stays_trans [OF v spawn_stays]) (rule that)
  show ?thesis
    by (cases x; cases "he_lookpath he ''wslview''"; cases "he_lookpath he ''cmd.exe''")
      (simp_all add: openBrowser_def openBrowserWSL_def x v s spawn_stays)
qed

lemma PairAndPersist_stays:
  assumes "PairAndPersist flt pw opts w = Some (r, w')"
  shows "stays tun {po_ConfigPath opts, tmp_of (po_ConfigPath opts)} w w'" (is "stays tun ?F w w'")
proof (cases "pairInit (pw_ul pw) (pw_build pw) (pw_init pw) (pw_hostname pw) (pw_marshal_init pw) (pw_decode_init pw) opts")
  case (Inl e)
  with assms show ?thesis by (simp add: PairAndPersist_def)
next
  case (Inr cr)
  obtain code res where cr: "cr = (code, res)" by (cases cr)
  define w1 where "w1 = (if po_NoBrowser opts then w
     else snd (openBrowser flt (pw_host pw) (b_goos (pw_build pw)) (auth_url pw opts code res) w))"
  have 1: "stays tun ?F w w1" by (simp add: w1_def browse_stays)
  obtain y where y: "pairPoll (pw_ul pw) (pw_build pw) (pw_poll pw) opts code (pw_start pw) = Some y"
    using pairPoll_total by blast
  show ?thesis
  proof (cases y)
    case (PollFail x)
    with assms Inr cr y 1 show ?thesis by (simp add: PairAndPersist_def w1_def)
  next
    case (Claimed c)
    let ?cfg = "claimed_config c (pw_pairedAt pw) (po_ArenaBaseURL opts)"
    obtain e c' w2 where s: "SaveConfig flt (pw_paths pw) (pw_marshal pw) (po_ConfigPath opts) (Some ?cfg) w1 = (e, c', w2)"
      by (cases "SaveConfig flt (pw_paths pw) (pw_marshal pw) (po_ConfigPath opts) (Some ?cfg) w1")
    from stays_trans [OF 1 SaveConfig_stays [OF s]] Claimed assms Inr cr y s show ?thesis
      by (simp add: PairAndPersist_def w1_def [symmetric])
  qed
qed

definition footprint :: "main_world \<Rightarrow> rootFlags \<Rightarrow> path \<Rightarrow> path set" where
  "footprint mw rf m = {config_path mw rf, tmp_of (config_path mw rf), mw_lock mw, m, arenaTrustPath, installUnit} \<union> set_option (mw_log mw)"

lemma footprint_simps [simp]:
  "config_path mw rf \<in> footprint mw rf m" "tmp_of (config_path mw rf) \<in> footprint mw rf m" "mw_lock mw \<in> footprint mw rf m"
  "m \<in> footprint mw rf m" "arenaTrustPath \<in> footprint mw rf m" "installUnit \<in> footprint mw rf m" "set_option (mw_log mw) \<subseteq> footprint mw rf m"
  "footprint mw (rf\<lparr>rf_forcePair := b\<rparr>) m = footprint mw rf m"
  by (auto simp: footprint_def config_path_def)

lemma connection_stays:
  "runConnect flt (linux_platform flt pl m tun ord) ce rf cfg w = (res, w') \<Longrightarrow> stays tun {m, arenaTrustPath} w w'"
  using lf.connection_files lp.runConnect_logs(1) by (auto simp: stays_def)

lemma trust_stays: "stays tun {arenaTrustPath} w (snd (cleanupPlatformArenaTrust_linux flt w))"
  using trust_linux_files logs_mono [OF linux_trust_logs [where tun = tun], where Q = "platform_laws.confined (linux_installs tun)"]
  by (simp add: stays_def lp.confined_def)

lemma teardown_stays: "stays tun {m} w (teardownKillSwitch_linux flt m w)"
proof -
  let ?cs = "[iptables [''-D'', ''OUTPUT'', ''-j'', killSwitchChain], iptables [''-F'', killSwitchChain], iptables [''-X'', killSwitchChain]]"
  have "stays tun {m} w (run_cmds flt ?cs w)" by (rule stays_cmds) (simp add: iptables_def)
  from stays_trans [OF this stays_remove] show ?thesis by (simp add: teardownKillSwitch_linux_def)
qed

lemma recover_stays: "stays tun {m} w (recoverKillSwitchIfLeftArmed flt (teardownKillSwitch_linux flt m) m w)"
proof -
  obtain r w1 where s: "os_Stat flt m w = (r, w1)" by (cases "os_Stat flt m w")
  have 1: "stays tun {m} w w1"
    using Stat_files [OF s] file_calls_cmds(1) [of flt m w] s by (simp add: stays_silent untouched_same)
  have 2: "stays tun {m} w1 (snd (os_Remove flt m (teardownKillSwitch_linux flt m w1)))"
    by (rule stays_trans [OF teardown_stays stays_remove]) simp
  from 1 stays_trans [OF 1 2] s show ?thesis by (cases r) (simp_all add: recoverKillSwitchIfLeftArmed_def)
qed

locale linux_host =
  fixes flt :: faults and mw :: main_world and pl :: path_lib and m :: path and tun :: string and ord :: "string set \<Rightarrow> string list"
  assumes pf: "mw_pf mw = linux_platform flt pl m tun ord"
    and restrict: "mw_restrict mw = restrictToOwner_other"
    and recover: "mw_recover mw = recoverKillSwitchIfLeftArmed flt (teardownKillSwitch_linux flt m) m"
begin

lemma pairing_stays:
  assumes "PairAndPersist flt pw (pair_options mw rf base) w = Some (r, w')"
  shows "stays tun (footprint mw rf m) w w'"
  by (rule stays_mono [OF PairAndPersist_stays [OF assms]]) (simp add: pair_options_def)

lemma cleanup_stays: "stays tun (footprint mw rf m) w (cleanupArenaTrust (pf_trust (mw_pf mw)) w)"
  by (rule stays_mono [of _ "{arenaTrustPath}"]) (simp_all add: cleanupArenaTrust_def pf linux_platform_def trust_stays)

lemma preflight_stays:
  assumes "preflight flt mw rf cfg w = Some (r, w')"
  shows "stays tun (footprint mw rf m) w w'"
proof (cases "ArenaBaseURL cfg = []")
  case False
  obtain revoked v e where p: "pingC2State (mw_cp mw) (ArenaBaseURL cfg) (RevocationToken cfg) (PrivateKey cfg) = (revoked, v, e)"
    by (cases "pingC2State (mw_cp mw) (ArenaBaseURL cfg) (RevocationToken cfg) (PrivateKey cfg)")
  let ?w1 = "cleanupArenaTrustIfRevoked (pf_trust (mw_pf mw)) revoked w"
  let ?w2 = "snd (WipeConfig flt (config_path mw rf) ?w1)"
  have 1: "stays tun (footprint mw rf m) w ?w1" by (simp add: cleanupArenaTrustIfRevoked_def cleanup_stays)
  have 2: "stays tun (footprint mw rf m) w ?w2"
    by (rule stays_trans [OF 1 stays_mono [OF WipeConfig_stays]]) simp
  show ?thesis
  proof (cases "e = None \<and> revoked")
    case True
    with assms False p have "PairAndPersist flt (mw_repair mw) (pair_options mw rf (ArenaBaseURL cfg)) ?w2 = Some (r, w')"
      by (simp add: preflight_def)
    from stays_trans [OF 2 pairing_stays [OF this]] show ?thesis .
  next
    case n: False
    with assms False p have "w' = w \<or> w' = ?w1" by (cases e) (auto simp: preflight_def Let_def)
    with 1 show ?thesis by auto
  qed
qed (use assms in \<open>simp add: preflight_def\<close>)

lemma stored_stays:
  assumes "stored_config flt mw rf w = Some (r, w')"
  shows "stays tun (footprint mw rf m) w w'"
proof -
  obtain l w1 where l: "LoadConfig flt (mw_unmarshal mw) (config_path mw rf) w = (l, w1)"
    by (cases "LoadConfig flt (mw_unmarshal mw) (config_path mw rf) w")
  note 1 = LoadConfig_stays [OF l]
  from assms l have "w' = w1 \<or> PairAndPersist flt (mw_pair mw) (pair_options mw rf (rf_arena rf)) w1 = Some (r, w')"
    by (auto simp: stored_config_def split: sum.splits if_splits)
  with 1 stays_trans [OF 1 pairing_stays] show ?thesis by blast
qed

lemma choose_stays:
  assumes "choose_config flt mw rf w = Some (r, w')"
  shows "stays tun (footprint mw rf m) w w'"
proof (cases "legacy rf \<or> baked_in (mw_baked mw)")
  case True
  with assms show ?thesis by (cases "legacy rf") (simp_all add: choose_config_def Let_def)
next
  case f: False
  show ?thesis
  proof (cases "rf_token rf = []")
    case False
    have s: "SaveConfig flt (mw_paths mw) (mw_marshal mw) (config_path mw rf) (Some c) w = (e, c', v) \<Longrightarrow> stays tun (footprint mw rf m) w v" for c e c' v
      by (rule stays_mono [OF SaveConfig_stays]) auto
    from False f assms have "token_config flt mw rf w = (r, w')" by (simp add: choose_config_def)
    then show ?thesis by (auto simp: token_config_def Let_def dest: s split: poll_result.splits prod.splits)
  next
    case True
    with f assms have "stored_config flt mw rf w = Some (r, w') \<or>
        (\<exists>cfg w1. stored_config flt mw rf w = Some (Inr cfg, w1) \<and> preflight flt mw rf cfg w1 = Some (r, w'))"
      by (auto simp: choose_config_def split: option.splits sum.splits prod.splits)
    with stored_stays preflight_stays stays_trans show ?thesis by blast
  qed
qed

lemma closed_log_stays: "stays tun F w (close_log flt sink w)"
  by (simp add: stays_silent untouched_same)

lemma released_stays: "stays tun (footprint mw rf m) w (close_log flt sink (releasePIDLock flt (mw_lock mw) w))"
  by (rule stays_trans [OF _ closed_log_stays]) (simp add: releasePIDLock_def stays_remove)

lemma default_stays:
  assumes "runDefault flt mw rf w = Some (res, w')"
  shows "stays tun (footprint mw rf m) w w'"
proof -
  obtain sink w1 where s: "installDurableLog flt (mw_paths mw) (mw_restrict mw) (mw_log mw) w = (sink, w1)"
    by (cases "installDurableLog flt (mw_paths mw) (mw_restrict mw) (mw_log mw) w")
  obtain got w2 where a: "acquirePIDLock flt (mw_exists mw) (mw_scan mw) (mw_lock mw) (mw_pid mw) w1 = (got, w2)"
    by (cases "acquirePIDLock flt (mw_exists mw) (mw_scan mw) (mw_lock mw) (mw_pid mw) w1")
  have 1: "stays tun (footprint mw rf m) w w1"
    by (rule stays_mono [OF sink_stays [OF s [unfolded restrict]]]) simp
  have 2: "stays tun (footprint mw rf m) w w2"
    by (rule stays_trans [OF 1 stays_mono [OF acquire_stays [OF a [unfolded acquirePIDLock_def]]]]) simp
  show ?thesis
  proof (cases got)
    case False
    with assms s a stays_trans [OF 2 closed_log_stays] show ?thesis by (auto simp: runDefault_def)
  next
    case True
    obtain r w3 where c: "choose_config flt mw rf w2 = Some (r, w3)" using choose_ends by blast
    note 3 = stays_trans [OF 2 choose_stays [OF c]]
    show ?thesis
    proof (cases r)
      case (Inl x)
      with assms s a c True stays_trans [OF 3 released_stays] show ?thesis by (auto simp: runDefault_def)
    next
      case (Inr cfg)
      obtain q w4 where n: "runConnect flt (mw_pf mw) (mw_ce mw) rf cfg w3 = (q, w4)" by (cases "runConnect flt (mw_pf mw) (mw_ce mw) rf cfg w3")
      have "stays tun (footprint mw rf m) w3 w4"
        by (rule stays_mono [OF connection_stays [OF n [unfolded pf]]]) simp
      note 4 = stays_trans [OF 3 this]
      from assms s a c n True Inr stays_trans [OF 4 released_stays] show ?thesis by (auto simp: runDefault_def)
    qed
  qed
qed

lemma leftovers_stay: "stays tun (footprint mw rf m) w (teardownInstallLeftovers flt mw w)"
proof -
  obtain r w1 where s: "os_Stat flt installUnit w = (r, w1)" by (cases "os_Stat flt installUnit w")
  have 1: "stays tun (footprint mw rf m) w w1"
    using Stat_files [OF s] file_calls_cmds(1) [of flt installUnit w] s by (simp add: stays_silent untouched_same)
  define w2 where "w2 = run_cmds flt [systemctl [''stop'', ''arena-tunnel.service''], systemctl [''disable'', ''arena-tunnel.service'']] w1"
  define w4 where "w4 = run_cmds flt [systemctl [''daemon-reload'']] (snd (os_Remove flt installUnit w2))"
  have t: "stays tun (footprint mw rf m) v (pf_teardownKS (mw_pf mw) v)" for v
    using stays_mono [OF teardown_stays [where m = m and w = v and flt = flt and tun = tun]] by (simp add: pf linux_platform_def)
  have "stays tun (footprint mw rf m) w1 w2" unfolding w2_def by (rule stays_cmds) (simp add: systemctl_def)
  also have "stays tun (footprint mw rf m) w2 (snd (os_Remove flt installUnit w2))" by (rule stays_remove) simp
  also have "stays tun (footprint mw rf m) (snd (os_Remove flt installUnit w2)) w4" unfolding w4_def by (rule stays_cmds) (simp add: systemctl_def)
  finally have 4: "stays tun (footprint mw rf m) w w4" by (rule stays_trans [OF 1])
  have "teardownInstallLeftovers flt mw w \<in> {w, pf_teardownKS (mw_pf mw) w1, pf_teardownKS (mw_pf mw) w4}"
    by (cases r) (simp_all add: teardownInstallLeftovers_def s Let_def w2_def w4_def del: run_cmds.simps)
  with stays_trans [OF 1 t] stays_trans [OF 4 t] show ?thesis by auto
qed

lemma logout_stays: "stays tun (footprint mw rf m) w (snd (snd (runLogout flt mw rf w)))"
proof -
  obtain l w1 where l: "LoadConfig flt (mw_unmarshal mw) (config_path mw rf) w = (l, w1)"
    by (cases "LoadConfig flt (mw_unmarshal mw) (config_path mw rf) w")
  note 1 = LoadConfig_stays [OF l, of tun "footprint mw rf m"]
  obtain e w2 where x: "WipeConfig flt (config_path mw rf) w1 = (e, w2)" by (cases "WipeConfig flt (config_path mw rf) w1")
  have 2: "stays tun (footprint mw rf m) w w2"
    by (rule stays_trans [OF 1 stays_mono]) (use WipeConfig_stays [of tun "config_path mw rf" w1 flt] x in auto)
  note 3 = stays_trans [OF stays_trans [OF 2 cleanup_stays] leftovers_stay]
  have "snd (snd (runLogout flt mw rf w)) \<in> {cleanupArenaTrust (pf_trust (mw_pf mw)) w1, w2,
      teardownInstallLeftovers flt mw (cleanupArenaTrust (pf_trust (mw_pf mw)) w2)}"
    using l x by (cases l; cases "projr l"; cases e) (auto simp: runLogout_def Let_def)
  with stays_trans [OF 1 cleanup_stays] 2 3 show ?thesis by auto
qed

lemma status_stays: "stays tun F w (snd (runStatus flt mw rf w))"
  using runStatus_frame [of flt mw rf w] by (simp add: stays_silent untouched_same)

lemma main_stays:
  assumes "main flt mw argv w = Some (res, w')"
  shows "case parseArgs (b_goos (cp_build (mw_cp mw))) (mw_getenv mw) argv of Inl x \<Rightarrow> w' = w
     | Inr rf \<Rightarrow> stays tun (footprint mw rf m) w w'"
proof (cases "parseArgs (b_goos (cp_build (mw_cp mw))) (mw_getenv mw) argv")
  case (Inr rf)
  let ?w = "mw_recover mw w"
  have 1: "stays tun (footprint mw rf m) w ?w"
    unfolding recover by (rule stays_mono [OF recover_stays]) simp
  have "dispatchSubcommand flt mw rf ?w = Some (res, w')" using assms Inr by (simp add: main_def)
  then consider "w' = ?w" | "w' = snd (snd (runLogout flt mw rf ?w))" | "w' = snd (runStatus flt mw rf ?w)"
    | b where "runDefault flt mw (rf\<lparr>rf_forcePair := b\<rparr>) ?w = Some (res, w')" | "runDefault flt mw rf ?w = Some (res, w')"
    by (auto simp: dispatchSubcommand_def split_beta split: if_splits)
  then have "stays tun (footprint mw rf m) ?w w'"
  proof cases
    case (4 b)
    from default_stays [OF 4] show ?thesis by simp
  qed (simp_all add: logout_stays status_stays default_stays)
  with stays_trans [OF 1] Inr show ?thesis by simp
qed (use assms in \<open>simp add: main_def\<close>)

end

text \<open>The model's own client is such a host.\<close>

definition on_linux :: "faults \<Rightarrow> path_lib \<Rightarrow> path \<Rightarrow> string \<Rightarrow> (string set \<Rightarrow> string list) \<Rightarrow> main_world \<Rightarrow> main_world" where
  "on_linux flt pl m tun ord mw = mw\<lparr>mw_pf := linux_platform flt pl m tun ord, mw_restrict := restrictToOwner_other,
     mw_recover := recoverKillSwitchIfLeftArmed flt (teardownKillSwitch_linux flt m) m\<rparr>"

interpretation lh: linux_host flt "on_linux flt pl m tun ord mw" pl m tun ord for flt pl m tun ord mw
  by unfold_locales (simp_all add: on_linux_def)

lemma stays_routes:
  assumes "stays tun F w w'"
  shows "\<exists>l. os_cmds w' = os_cmds w @ l \<and> (\<forall>x r. (ip_route ''replace'' tun x, r) \<in> set l \<longrightarrow>
     (\<exists>p. parsePrefix4 x = Some p \<and> {a. pfx_contains p a} \<subseteq> approved_addrs))"
proof -
  from assms obtain l where l: "os_cmds w' = os_cmds w @ l" "\<forall>e \<in> set l. lp.confined tun (fst e)"
    by (auto simp: stays_def logs_def list_all_iff)
  have "\<exists>p. parsePrefix4 x = Some p \<and> {a. pfx_contains p a} \<subseteq> approved_addrs" if "(ip_route ''replace'' tun x, r) \<in> set l" for x r
    using l(2) that route_authorised [of _ x] by (fastforce simp: lp.confined_def)
  with l(1) show ?thesis by blast
qed


section \<open>A concrete invocation\<close>

lemma sample_is_linux: "on_linux (\<lambda>_. None) sample_paths ''m'' ''arena0'' (\<lambda>_. []) sample_main = sample_main"
  by (simp add: on_linux_def sample_main_def sample_linux_def)

definition sample_argv :: "string list" where
  "sample_argv = [''arena-tunnel'', ''-config=c'', ''-arena=a'']"

lemma sample_parsed: "parseArgs (b_goos (cp_build (mw_cp sample_main))) (mw_getenv sample_main) sample_argv = Inr sample_root_flags"
proof -
  have g: "b_goos (cp_build (mw_cp sample_main)) = ''linux''" "mw_getenv sample_main = (\<lambda>_. [])"
    by (simp_all add: sample_main_def sample_cp_def sample_build_def)
  show ?thesis unfolding g by code_simp
qed

lemma sample_session:
  assumes "os_files w ''c'' = Some \<lparr>f_data = ''j'', f_mode = 384\<rparr>" "os_files w ''l'' = None"
  shows "\<exists>res w' u d x. runDefault (\<lambda>_. None) sample_main sample_root_flags w = Some (res, w') \<and> cr_shovel res = Some (u, ''r'', d)
     \<and> (ip_route ''replace'' ''arena0'' x, None) \<in> set (os_cmds w')"
proof -
  have i: "installDurableLog (\<lambda>_. None) (mw_paths sample_main) (mw_restrict sample_main) (mw_log sample_main) w = (None, w)"
    by (simp add: installDurableLog_def sample_main_def)
  obtain w2 where a: "acquirePIDLock (\<lambda>_. None) (mw_exists sample_main) (mw_scan sample_main) (mw_lock sample_main) (mw_pid sample_main) w = (True, w2)"
    and f: "os_files w2 ''c'' = Some \<lparr>f_data = ''j'', f_mode = 384\<rparr>"
    using assms by (auto simp: acquirePIDLock_def pidMaxAttempts_def eval_nat_numeral os_call_defs os_Write_def sample_main_def)
  have k: "rf_killSwitch sample_root_flags" by (simp add: sample_root_flags_def default_flags_def)
  have m: "mw_pf sample_main = sample_linux" "mw_ce sample_main = sample_env" by (simp_all add: sample_main_def)
  from sample_connect_run [OF k, of "w2\<lparr>os_tick := Suc (os_tick w2)\<rparr>"] obtain res w3 u d h
    where r: "runConnect (\<lambda>_. None) sample_linux sample_env sample_root_flags sample_creds (w2\<lparr>os_tick := Suc (os_tick w2)\<rparr>) = (res, w3)"
      and s: "cr_shovel res = Some (u, ''r'', d)" "cr_heartbeat res = Some h" by blast
  from session_routes [OF r [unfolded sample_linux_def] s(2)] obtain x where x: "(ip_route ''replace'' ''arena0'' x, None) \<in> set (os_cmds w3)" by blast
  let ?w' = "close_log (\<lambda>_. None) None (releasePIDLock (\<lambda>_. None) (mw_lock sample_main) w3)"
  have "runDefault (\<lambda>_. None) sample_main sample_root_flags w = Some (res, ?w')"
    by (simp add: runDefault_def i a sample_choice [OF f] m r)
  moreover have "(ip_route ''replace'' ''arena0'' x, None) \<in> set (os_cmds ?w')" using x by (simp add: releasePIDLock_def)
  ultimately show ?thesis using s(1) by blast
qed


end
