(* ===== verification/Banner.thy ===== *)
theory Banner
  imports Http_Api Go_Text
begin

text \<open>
  \<open>client/banner.go\<close>: the connection summary printed once the tunnel is up. Strings are bytes,
  so the box-drawing characters are written out in UTF-8; widths count runes where \<open>fmt\<close> does
  and bytes where the code slices.
\<close>

section \<open>The state\<close>

record redirectorSlot =
  rs_IpAddress :: "string option"
  rs_SniHost :: string
  rs_IsPrimary :: bool
  rs_Status :: string

record listenerConfig =
  lc_BindIp :: string
  lc_BindPort :: int
  lc_HmacCookieName :: string
  lc_HmacCookieValue :: string

record c2StateSlotView =
  sv_TunnelIp :: string
  sv_CoverDomain :: string
  sv_RedirectorSlots :: "redirectorSlot list"
  sv_ListenerConfig :: "listenerConfig option"

record managedC2 =
  mc_IPAddress :: string
  mc_Framework :: string
  mc_Status :: string

record managedView =
  mv_C2 :: "managedC2 option"
  mv_Operator :: "string option"

record c2StateView =
  st_Mode :: string
  st_Managed :: "managedView option"
  st_Byoc2 :: "c2StateSlotView option"

section \<open>Fetching\<close>

text \<open>\<open>dcode\<close> is the JSON decoder; the result is \<open>None\<close> for every failure.\<close>

definition fetchC2State :: "url_lib \<Rightarrow> service \<Rightarrow> build \<Rightarrow> (string \<Rightarrow> c2StateView option) \<Rightarrow> Config \<Rightarrow> c2StateView option" where
  "fetchC2State ul srv b dcode cfg =
     (if ArenaBaseURL cfg = [] \<or> RevocationToken cfg = [] then None
      else (case joinURL ul (ArenaBaseURL cfg) ''/api/users/me/c2-state'' of
        Inl _ \<Rightarrow> None
      | Inr endpoint \<Rightarrow> (case bearer_get ul srv b 8 (RevocationToken cfg) endpoint of
          Inl _ \<Rightarrow> None
        | Inr (st, bd) \<Rightarrow>
            if st \<noteq> 200 then None
            else (case dcode bd of None \<Rightarrow> None
              | Some v \<Rightarrow> if st_Byoc2 v = None then None else Some v))))"

section \<open>Lines\<close>

definition bannerWidth :: nat where "bannerWidth = 62"

definition vbar :: string where "vbar = [CHR 0xE2, CHR 0x94, CHR 0x82]"
definition hbar :: string where "hbar = [CHR 0xE2, CHR 0x94, CHR 0x80]"

definition repeat_str :: "string \<Rightarrow> nat \<Rightarrow> string" where
  "repeat_str s n = concat (replicate n s)"

text \<open>\<open>%-*s\<close>: blanks on the right up to a width in runes.\<close>

definition pad_right :: "nat \<Rightarrow> string \<Rightarrow> string" where
  "pad_right w s = s @ replicate (w - length (runes s)) (CHR '' '')"

definition boxed :: "string \<Rightarrow> string" where
  "boxed content = vbar @ pad_right bannerWidth (if length content > bannerWidth then take bannerWidth content else content) @ vbar"

definition bannerLine :: "string \<Rightarrow> string \<Rightarrow> string" where
  "bannerLine left right = boxed (''  '' @ pad_right 18 left @ '' '' @ right)"

definition bannerFull :: "string \<Rightarrow> string" where
  "bannerFull txt = boxed (''  '' @ txt)"

definition bannerSep :: string where
  "bannerSep = [CHR 0xE2, CHR 0x94, CHR 0x9C] @ repeat_str hbar bannerWidth @ [CHR 0xE2, CHR 0x94, CHR 0xA4]"

definition bannerTop :: string where
  "bannerTop = [CHR 0xE2, CHR 0x94, CHR 0x8C] @ repeat_str hbar bannerWidth @ [CHR 0xE2, CHR 0x94, CHR 0x90]"

definition bannerBot :: string where
  "bannerBot = [CHR 0xE2, CHR 0x94, CHR 0x94] @ repeat_str hbar bannerWidth @ [CHR 0xE2, CHR 0x94, CHR 0x98]"

section \<open>Rendering\<close>

definition int_dec :: "int \<Rightarrow> string" where
  "int_dec i = (if i < 0 then CHR ''-'' # dec (nat (- i)) else dec (nat i))"

text \<open>\<open>strings.EqualFold\<close> against a word without the letters k and s, which alone have
  non-ASCII case variants.\<close>

definition equal_fold :: "string \<Rightarrow> string \<Rightarrow> bool" where
  "equal_fold s word = (map lower_ascii s = word)"

fun primary_slot :: "redirectorSlot list \<Rightarrow> string \<times> string" where
  "primary_slot [] = ([], [])"
| "primary_slot (s # ss) = (if rs_IsPrimary s then (case rs_IpAddress s of None \<Rightarrow> [] | Some a \<Rightarrow> a, rs_SniHost s)
     else primary_slot ss)"

definition remoteOperator :: "c2StateView \<Rightarrow> bool" where
  "remoteOperator st = (case st_Managed st of None \<Rightarrow> False
     | Some m \<Rightarrow> (case mv_C2 m of None \<Rightarrow> False
        | Some c2 \<Rightarrow> equal_fold (mc_Framework c2) ''adaptix'' \<and> mv_Operator m = None))"

definition teamserverIP :: "c2StateView \<Rightarrow> string" where
  "teamserverIP st = (case st_Managed st of None \<Rightarrow> [] | Some m \<Rightarrow> (case mv_C2 m of None \<Rightarrow> []
     | Some c2 \<Rightarrow> takeWhile (\<lambda>ch. ch \<noteq> CHR ''/'') (mc_IPAddress c2)))"

text \<open>The rows of the banner, top and bottom included.\<close>

definition banner_rows :: "c2StateView \<Rightarrow> c2StateSlotView \<Rightarrow> string list" where
  "banner_rows st slot =
     (let prim = primary_slot (sv_RedirectorSlots slot);
          edgeIp = fst prim;
          sniHost = (if snd prim = [] then sv_CoverDomain slot else snd prim);
          remote = remoteOperator st
      in [bannerTop]
       @ [bannerFull (if remote then ''ARENA // REMOTE OPERATOR'' else ''ARENA TUNNEL // PEER ACTIVO'')]
       @ [bannerSep, bannerLine ''TUNNEL IP'' (sv_TunnelIp slot)]
       @ (if remote then [bannerSep, bannerFull ''// ADAPTIX TEAMSERVER ADMINISTRADO'',
            bannerLine ''CONTROL'' (teamserverIP st @ '':4321/adaptix-ts''), bannerLine ''LISTENER'' ''arena-https (Arena)''] else [])
       @ (if edgeIp \<noteq> [] then [bannerLine ''EDGE IP'' edgeIp] else [])
       @ (if remote then [] else (case sv_ListenerConfig slot of None \<Rightarrow> []
            | Some lc \<Rightarrow> [bannerSep, bannerFull ''// LISTENER CONFIG'', bannerLine ''BIND IP'' (lc_BindIp lc),
                bannerLine ''PORT'' (int_dec (lc_BindPort lc))]))
       @ (if sniHost \<noteq> [] then [bannerSep, bannerFull ''// SNI / COBERTURA'', bannerFull sniHost] else [])
       @ (if remote then [] else (case sv_ListenerConfig slot of None \<Rightarrow> []
            | Some lc \<Rightarrow> if lc_HmacCookieName lc = [] then [] else [bannerSep, bannerFull ''// HMAC COOKIE'',
                bannerLine ''nombre'' (lc_HmacCookieName lc), bannerLine ''valor'' (lc_HmacCookieValue lc)]))
       @ [bannerBot])"

definition renderC2Banner :: "c2StateView option \<Rightarrow> string" where
  "renderC2Banner state = (case state of None \<Rightarrow> []
     | Some st \<Rightarrow> (case st_Byoc2 st of None \<Rightarrow> []
        | Some slot \<Rightarrow> concat (map (\<lambda>row. row @ [CHR 0x0A]) (banner_rows st slot))))"

text \<open>What is written to standard output.\<close>

definition printC2Banner :: "url_lib \<Rightarrow> service \<Rightarrow> build \<Rightarrow> (string \<Rightarrow> c2StateView option) \<Rightarrow> Config \<Rightarrow> string" where
  "printC2Banner ul srv b dcode cfg =
     (let rendered = renderC2Banner (fetchC2State ul srv b dcode cfg)
      in if rendered = [] then [] else CHR 0x0A # rendered @ [CHR 0x0A])"

section \<open>Every row is as wide as the frame\<close>

text \<open>Decoding does not look past a character that continues no sequence.\<close>

definition starts :: "string \<Rightarrow> bool" where
  "starts t \<longleftrightarrow> t = [] \<or> \<not> cont (hd t)"

lemma decode_rune_app:
  assumes "s \<noteq> []" "starts t"
  shows "decode_rune (s @ t) = decode_rune s"
proof -
  have n: "\<not> second_ok b ((s @ t) ! length s)" "\<not> cont ((s @ t) ! length s)" if "length s < length (s @ t)" for b
    using assms(2) that by (auto simp: starts_def second_ok_def cont_def nth_append hd_conv_nth split: if_splits)
  have i: "(s @ t) ! k = s ! k" if "k < length s" for k using that by (simp add: nth_append)
  have l: "length s = 1 \<or> length s = 2 \<or> length s = 3 \<or> 4 \<le> length s" using assms(1) by (cases "length s") auto
  have p2: "2 \<le> length (s @ t) \<and> second_ok b ((s @ t) ! 1) \<longleftrightarrow> 2 \<le> length s \<and> second_ok b (s ! 1)" for b
    using l n(1) [of b] i [of 1] by (cases "t = []"; cases "length s = 1") auto
  have p3: "3 \<le> length (s @ t) \<and> second_ok b ((s @ t) ! 1) \<and> cont ((s @ t) ! 2) \<longleftrightarrow>
      3 \<le> length s \<and> second_ok b (s ! 1) \<and> cont (s ! 2)" for b
    using l n(1) [of b] n(2) i [of 1] i [of 2] by (cases "t = []"; cases "length s = 1"; cases "length s = 2") auto
  have p4: "4 \<le> length (s @ t) \<and> second_ok b ((s @ t) ! 1) \<and> cont ((s @ t) ! 2) \<and> cont ((s @ t) ! 3) \<longleftrightarrow>
      4 \<le> length s \<and> second_ok b (s ! 1) \<and> cont (s ! 2) \<and> cont (s ! 3)" for b
    using l n(1) [of b] n(2) i [of 1] i [of 2] i [of 3]
    by (cases "t = []"; cases "length s = 1"; cases "length s = 2"; cases "length s = 3") auto
  have h: "hd (s @ t) = hd s" using assms(1) by simp
  show ?thesis
    unfolding decode_rune_def Let_def h p2 p3 p4
    using i [of 1] i [of 2] i [of 3] by (simp cong: if_cong conj_cong)
qed

lemma decode_rune_within: "s \<noteq> [] \<Longrightarrow> snd (decode_rune s) \<le> length s"
  by (cases s) (auto simp: decode_rune_def Let_def)

lemma runes_app: "starts t \<Longrightarrow> runes (s @ t) = runes s @ runes t"
proof (induction s rule: runes.induct)
  case (1 s)
  show ?case
  proof (cases "s = []")
    case False
    with 1 decode_rune_within [OF False] show ?thesis
      by (simp add: runes.simps [of s] runes.simps [of "s @ t"] decode_rune_app)
  qed simp
qed

lemma runes_length: "length (runes s) \<le> length s"
proof (induction s rule: runes.induct)
  case (1 s)
  show ?case
  proof (cases "s = []")
    case False
    have "length (runes (drop (snd (decode_rune s)) s)) \<le> length s - 1"
      using 1 [OF False] decode_rune_width [of s] by simp
    with False show ?thesis by (subst runes.simps) (cases s, simp_all)
  qed simp
qed

lemma runes_blanks: "length (runes (replicate n (CHR '' ''))) = n"
proof (induction n)
  case (Suc n)
  then show ?case by (subst runes.simps) (simp add: decode_rune_def Let_def)
qed simp

lemma starts_simps [simp]: "starts []" "starts (CHR '' '' # s)" "starts (CHR 0xE2 # s)" "starts (replicate n (CHR '' '') @ CHR 0xE2 # s)"
  by (cases n; simp add: starts_def cont_def)+

lemma box_rune: "byte b \<in> {0x82, 0x80, 0x8C, 0x90, 0x94, 0x98, 0x9C, 0xA4} \<Longrightarrow>
    length (runes (CHR 0xE2 # CHR 0x94 # b # s)) = Suc (length (runes s))"
  by (subst runes.simps) (auto simp: decode_rune_def Let_def second_ok_def cont_def)

lemma boxed_width: "length (runes (boxed content)) = 64"
proof -
  define c where "c = (if length content > bannerWidth then take bannerWidth content else content)"
  have l: "length (runes c) \<le> 62"
    using runes_length [of c] by (auto simp: c_def bannerWidth_def split: if_splits)
  have v: "length (runes vbar) = 1" using box_rune [of "CHR 0x82" "[]"] by (simp add: vbar_def)
  have t: "starts (replicate n (CHR '' '') @ vbar)" "starts vbar" for n by (simp_all add: vbar_def)
  have "boxed content = CHR 0xE2 # CHR 0x94 # CHR 0x82 # (c @ replicate (62 - length (runes c)) (CHR '' '') @ vbar)"
    by (simp add: boxed_def pad_right_def c_def bannerWidth_def vbar_def)
  then have "length (runes (boxed content)) = Suc (length (runes (c @ replicate (62 - length (runes c)) (CHR '' '') @ vbar)))"
    by (simp only:) (rule box_rune, simp)
  also have "\<dots> = 64" using l v by (simp add: runes_app t runes_blanks)
  finally show ?thesis .
qed

lemma rule_width: "length (runes (repeat_str hbar n @ s)) = n + length (runes s)"
proof (induction n)
  case (Suc n)
  then show ?case using box_rune [of "CHR 0x80" "repeat_str hbar n @ s"] by (simp add: repeat_str_def hbar_def)
qed (simp add: repeat_str_def)

lemma frame_width: "length (runes bannerSep) = 64" "length (runes bannerTop) = 64" "length (runes bannerBot) = 64"
proof -
  have e: "length (runes [CHR 0xE2, CHR 0x94, b]) = 1" if "byte b \<in> {0xA4, 0x90, 0x98}" for b
    using box_rune [of b "[]"] that by auto
  show "length (runes bannerSep) = 64" "length (runes bannerTop) = 64" "length (runes bannerBot) = 64"
    unfolding bannerSep_def bannerTop_def bannerBot_def append.simps
    by (subst box_rune, simp, simp only: rule_width, simp add: e bannerWidth_def)+
qed


section \<open>What is shown, and what is not\<close>

text \<open>
  A remote operator never sees the listener's configuration: the banner is the same whatever
  the bind address, the port and the HMAC cookie are.
\<close>

lemma remote_banner_hides_listener:
  assumes "remoteOperator st" "st_Byoc2 st = Some slot"
  shows "renderC2Banner (Some (st\<lparr>st_Byoc2 := Some (slot\<lparr>sv_ListenerConfig := lc\<rparr>)\<rparr>)) = renderC2Banner (Some st)"
proof -
  have "remoteOperator (st\<lparr>st_Byoc2 := x\<rparr>) = remoteOperator st" "teamserverIP (st\<lparr>st_Byoc2 := x\<rparr>) = teamserverIP st" for x
    by (simp_all add: remoteOperator_def teamserverIP_def)
  with assms show ?thesis by (simp add: renderC2Banner_def banner_rows_def Let_def)
qed

text \<open>
  Only the first 41 bytes of the HMAC cookie's value reach the banner the operator copies it
  from; the rest is dropped without a sign.
\<close>

lemma hmac_value_truncated: "bannerLine ''valor'' v = bannerLine ''valor'' (take 41 v)"
proof -
  have p: "length (''  '' @ pad_right 18 ''valor'' @ '' '') = 21" by code_simp
  have "take 62 (a @ v) = take 62 (a @ take 41 v)" "length (a @ v) > 62 \<Longrightarrow> take 62 (a @ v) = a @ take 41 v"
    "\<not> length (a @ v) > 62 \<Longrightarrow> take 41 v = v" if "length a = 21" for a :: string
    using that by simp_all
  from this [OF p] show ?thesis unfolding bannerLine_def boxed_def bannerWidth_def append_assoc [symmetric]
    using p by (cases "length v > 41") (simp_all add: append_assoc [symmetric] del: append_assoc append.simps)
qed

definition sample_slot :: c2StateSlotView where
  "sample_slot = \<lparr>sv_TunnelIp = ''10.201.0.5'', sv_CoverDomain = ''d'', sv_RedirectorSlots = [],
     sv_ListenerConfig = Some \<lparr>lc_BindIp = ''0.0.0.0'', lc_BindPort = 443, lc_HmacCookieName = ''n'', lc_HmacCookieValue = ''v''\<rparr>\<rparr>"

definition sample_remote :: c2StateView where
  "sample_remote = \<lparr>st_Mode = ''managed'', st_Managed = Some \<lparr>mv_C2 = Some \<lparr>mc_IPAddress = ''10.130.50.31/24'',
     mc_Framework = ''Adaptix'', mc_Status = ''up''\<rparr>, mv_Operator = None\<rparr>, st_Byoc2 = Some sample_slot\<rparr>"

lemma remote_banner_hides_listener_witness:
  "renderC2Banner (Some (sample_remote\<lparr>st_Byoc2 := Some (sample_slot\<lparr>sv_ListenerConfig := None\<rparr>)\<rparr>)) = renderC2Banner (Some sample_remote)"
proof (rule remote_banner_hides_listener)
  show "remoteOperator sample_remote" by code_simp
  show "st_Byoc2 sample_remote = Some sample_slot" by (simp add: sample_remote_def)
qed

end
