(* ===== verification/Server_Tunnel.thy ===== *)
theory Server_Tunnel
  imports Session_Id Observability Http_Api
begin

text \<open>
  \<open>server/main.go\<close>: the terminating side. A tunnel is the state its four goroutines share;
  their blocking points are program counters, and a run is any interleaving of their steps
  (\<open>tun_step\<close>). The server is the list of tunnels ever opened and the count of the active
  ones. A step of a goroutine ends at its next blocking call; writing a WebSocket message is
  two steps (the call and its return), so that overlapping writers show.
\<close>

section \<open>Flags\<close>

record server_flags =
  fl_managerURL :: string
  fl_statsInterval :: int  \<comment> \<open>nanoseconds\<close>
  fl_udpIdleLog :: int

definition checkStatsInterval :: "int \<Rightarrow> bool" where
  "checkStatsInterval d = (\<not> d < 0)"

section \<open>Manager notifications\<close>

definition peerEventTimeout :: nat where "peerEventTimeout = 5"

definition notifyManager :: "url_lib \<Rightarrow> (string \<Rightarrow> string \<Rightarrow> string option) \<Rightarrow> server_flags \<Rightarrow> string \<Rightarrow> string \<Rightarrow> http_request option" where
  "notifyManager ul marshal fl event arenaToken =
     (if fl_managerURL fl = [] \<or> arenaToken = [] then None
      else (case marshal arenaToken event of None \<Rightarrow> None
        | Some bdy \<Rightarrow> (case ul_parse ul (fl_managerURL fl) of None \<Rightarrow> None
          | Some _ \<Rightarrow> Some (set_header ''Content-Type'' ''application/json''
              \<lparr>rq_method = ''POST'', rq_url = fl_managerURL fl, rq_headers = [], rq_body = Some bdy,
               rq_timeout = peerEventTimeout\<rparr>))))"

section \<open>A tunnel\<close>

datatype frame = Binary string | Ping

datatype ping_pc = PingWait | PingWriting | PingExit
datatype ws_pc = WsRead | WsGot string | WsExit
datatype udp_pc = UdpHead | UdpRead | UdpWriting string | UdpExit
datatype stats_pc = StatsWait | StatsExit

record tunnel =
  t_clientIP :: string
  t_arenaToken :: string
  t_sessionID :: string
  t_done :: bool
  t_udpOpen :: bool
  t_wsOpen :: bool
  t_bytesWGIn :: "64 word"
  t_bytesWGOut :: "64 word"
  t_framesWGIn :: "64 word"
  t_framesWGOut :: "64 word"
  t_ping :: ping_pc
  t_ws :: ws_pc
  t_udp :: udp_pc
  t_stats :: stats_pc
  t_idleLogged :: bool
  t_handler :: bool  \<comment> \<open>the handler has returned\<close>
  t_events :: "string list"  \<comment> \<open>calls of \<open>notifyManager\<close>\<close>
  t_wsIn :: "(bool \<times> string) list"  \<comment> \<open>messages received and not yet read; is it binary?\<close>
  t_fromWS :: "string list"
  t_toUDP :: "string list"
  t_fromUDP :: "string list"
  t_toWS :: "frame list"

definition newTunnel :: "string \<Rightarrow> string \<Rightarrow> string \<Rightarrow> tunnel" where
  "newTunnel clientIP arenaToken sid = \<lparr>t_clientIP = clientIP, t_arenaToken = arenaToken, t_sessionID = sid,
     t_done = False, t_udpOpen = True, t_wsOpen = True, t_bytesWGIn = 0, t_bytesWGOut = 0, t_framesWGIn = 0,
     t_framesWGOut = 0, t_ping = PingWait, t_ws = WsRead, t_udp = UdpHead, t_stats = StatsWait,
     t_idleLogged = False, t_handler = False, t_events = [], t_wsIn = [], t_fromWS = [], t_toUDP = [], t_fromUDP = [], t_toWS = []\<rparr>"

text \<open>\<open>close\<close> under its \<open>sync.Once\<close>: the tunnel, and the change of \<open>activeConns\<close>.\<close>

definition close_tunnel :: "tunnel \<Rightarrow> tunnel \<times> int" where
  "close_tunnel t = (if t_done t then (t, 0)
     else (t\<lparr>t_done := True, t_udpOpen := False, t_wsOpen := False, t_events := t_events t @ [''disconnected'']\<rparr>, - 1))"

definition statsLine :: "string \<Rightarrow> string \<Rightarrow> tunnel \<Rightarrow> string" where
  "statsLine prefix age t = prefix @ '' session='' @ t_sessionID t @ '' client='' @ t_clientIP t @ '' age='' @ age
     @ '' ws'' @ [CHR 0xE2, CHR 0x86, CHR 0x92] @ ''udp frames='' @ word_string (t_framesWGIn t)
     @ '' bytes='' @ word_string (t_bytesWGIn t)
     @ '' udp'' @ [CHR 0xE2, CHR 0x86, CHR 0x92] @ ''ws frames='' @ word_string (t_framesWGOut t)
     @ '' bytes='' @ word_string (t_bytesWGOut t)"

section \<open>Steps of the goroutines\<close>

text \<open>
  \<open>WsArrive\<close> is the peer: a message within the read limit reaches the socket while it is open;
  closing does not take back what was received. Timers and deadlines are free: a tick, the age
  limit, a read or write error may come at any step. \<open>idle\<close> is the time since the last
  datagram at a read timeout.
\<close>

definition wsReadLimit :: nat where "wsReadLimit = 4 * 1024 * 1024"

inductive tun_step :: "server_flags \<Rightarrow> tunnel \<Rightarrow> tunnel \<Rightarrow> int \<Rightarrow> bool" for fl where
  PingTick: "t_ping t = PingWait \<Longrightarrow> tun_step fl t (t\<lparr>t_ping := PingWriting\<rparr>) 0"
| PingWrote: "t_ping t = PingWriting \<Longrightarrow> t_wsOpen t \<Longrightarrow>
     tun_step fl t (t\<lparr>t_ping := PingWait, t_toWS := t_toWS t @ [Ping]\<rparr>) 0"
| PingFailed: "t_ping t = PingWriting \<Longrightarrow> close_tunnel t = (t', d) \<Longrightarrow> tun_step fl t (t'\<lparr>t_ping := PingExit\<rparr>) d"
| MaxAge: "t_ping t = PingWait \<Longrightarrow> close_tunnel t = (t', d) \<Longrightarrow> tun_step fl t (t'\<lparr>t_ping := PingExit\<rparr>) d"
| PingDone: "t_ping t = PingWait \<Longrightarrow> t_done t \<Longrightarrow> tun_step fl t (t\<lparr>t_ping := PingExit\<rparr>) 0"
| WsArrive: "t_wsOpen t \<Longrightarrow> length x \<le> wsReadLimit \<Longrightarrow> tun_step fl t (t\<lparr>t_wsIn := t_wsIn t @ [(bin, x)]\<rparr>) 0"
| WsBinary: "t_ws t = WsRead \<Longrightarrow> t_wsIn t = (True, x) # rest \<Longrightarrow>
     tun_step fl t (t\<lparr>t_ws := WsGot x, t_wsIn := rest, t_fromWS := t_fromWS t @ [x]\<rparr>) 0"
| WsSkip: "t_ws t = WsRead \<Longrightarrow> t_wsIn t = (False, x) # rest \<Longrightarrow> tun_step fl t (t\<lparr>t_wsIn := rest\<rparr>) 0"
| WsError: "t_ws t = WsRead \<Longrightarrow> close_tunnel t = (t', d) \<Longrightarrow> tun_step fl t (t'\<lparr>t_ws := WsExit\<rparr>) d"
| UdpWrote: "t_ws t = WsGot x \<Longrightarrow> t_udpOpen t \<Longrightarrow>
     tun_step fl t (t\<lparr>t_ws := WsRead, t_toUDP := t_toUDP t @ [x],
       t_bytesWGIn := t_bytesWGIn t + of_nat (length x), t_framesWGIn := t_framesWGIn t + 1\<rparr>) 0"
| UdpFailed: "t_ws t = WsGot x \<Longrightarrow> close_tunnel t = (t', d) \<Longrightarrow> tun_step fl t (t'\<lparr>t_ws := WsExit\<rparr>) d"
| UdpGo: "t_udp t = UdpHead \<Longrightarrow> \<not> t_done t \<Longrightarrow> tun_step fl t (t\<lparr>t_udp := UdpRead\<rparr>) 0"
| UdpDone: "t_udp t = UdpHead \<Longrightarrow> t_done t \<Longrightarrow> tun_step fl t (t\<lparr>t_udp := UdpExit\<rparr>) 0"
| UdpTimeout: "t_udp t = UdpRead \<Longrightarrow>
     tun_step fl t (t\<lparr>t_udp := UdpHead, t_idleLogged := (t_idleLogged t \<or> idle \<ge> fl_udpIdleLog fl)\<rparr>) 0"
| UdpError: "t_udp t = UdpRead \<Longrightarrow> close_tunnel t = (t', d) \<Longrightarrow> tun_step fl t (t'\<lparr>t_udp := UdpExit\<rparr>) d"
| UdpData: "t_udp t = UdpRead \<Longrightarrow> t_udpOpen t \<Longrightarrow> length x \<le> 65535 \<Longrightarrow>
     tun_step fl t (t\<lparr>t_udp := UdpWriting x, t_idleLogged := False, t_fromUDP := t_fromUDP t @ [x]\<rparr>) 0"
| WsWrote: "t_udp t = UdpWriting x \<Longrightarrow> t_wsOpen t \<Longrightarrow>
     tun_step fl t (t\<lparr>t_udp := UdpHead, t_toWS := t_toWS t @ [Binary x],
       t_bytesWGOut := t_bytesWGOut t + of_nat (length x), t_framesWGOut := t_framesWGOut t + 1\<rparr>) 0"
| WsFailed: "t_udp t = UdpWriting x \<Longrightarrow> close_tunnel t = (t', d) \<Longrightarrow> tun_step fl t (t'\<lparr>t_udp := UdpExit\<rparr>) d"
| StatsOff: "t_stats t = StatsWait \<Longrightarrow> fl_statsInterval fl \<le> 0 \<Longrightarrow> tun_step fl t (t\<lparr>t_stats := StatsExit\<rparr>) 0"
| StatsTick: "t_stats t = StatsWait \<Longrightarrow> fl_statsInterval fl > 0 \<Longrightarrow> tun_step fl t t 0"
| StatsDone: "t_stats t = StatsWait \<Longrightarrow> t_done t \<Longrightarrow> tun_step fl t (t\<lparr>t_stats := StatsExit\<rparr>) 0"
| Handler: "t_done t \<Longrightarrow> tun_step fl t (t\<lparr>t_handler := True\<rparr>) 0"

section \<open>The server\<close>

record server =
  sv_tunnels :: "tunnel list"
  sv_active :: int
  sv_dropped :: nat  \<comment> \<open>sockets upgraded and closed again, without a tunnel\<close>

definition sv_init :: server where
  "sv_init = \<lparr>sv_tunnels = [], sv_active = 0, sv_dropped = 0\<rparr>"

text \<open>
  \<open>handleTunnel\<close> up to the start of the goroutines. The three calls that may fail are
  arguments; \<open>rnd\<close> and \<open>nanos\<close> feed the server's own session id.
\<close>

record tunnel_request =
  tr_cfIP :: string
  tr_remote :: string
  tr_token :: string
  tr_session :: string

definition handleTunnel :: "bool \<Rightarrow> bool \<Rightarrow> bool \<Rightarrow> string option \<Rightarrow> 64 word \<Rightarrow> tunnel_request \<Rightarrow> server \<Rightarrow> server" where
  "handleTunnel upgraded resolved dialled rnd nanos r s =
     (if \<not> upgraded then s
      else if \<not> resolved \<or> \<not> dialled then s\<lparr>sv_dropped := Suc (sv_dropped s)\<rparr>
      else (let clientIP = (if tr_cfIP r = [] then tr_remote r else tr_cfIP r);
                t = newTunnel clientIP (tr_token r) (newSessionID_server rnd nanos);
                t1 = (case sessionIDFromHeader (tr_session r) of Some sid \<Rightarrow> t\<lparr>t_sessionID := sid\<rparr> | None \<Rightarrow> t)
            in s\<lparr>sv_tunnels := sv_tunnels s @ [t1\<lparr>t_events := [''connected'']\<rparr>], sv_active := sv_active s + 1\<rparr>))"

definition handleHealth :: "server \<Rightarrow> string" where
  "handleHealth s = ''ok active='' @ (if sv_active s < 0 then CHR ''-'' # dec (nat (- sv_active s)) else dec (nat (sv_active s)))
     @ [CHR 0x0A]"

inductive sv_reach :: "server_flags \<Rightarrow> server \<Rightarrow> bool" for fl where
  start: "sv_reach fl sv_init"
| opened: "sv_reach fl s \<Longrightarrow> entropy_given (rnd, nanos) \<Longrightarrow> sv_reach fl (handleTunnel up res dial rnd nanos r s)"
| moved: "sv_reach fl s \<Longrightarrow> i < length (sv_tunnels s) \<Longrightarrow> tun_step fl (sv_tunnels s ! i) t' d \<Longrightarrow>
     sv_reach fl (s\<lparr>sv_tunnels := (sv_tunnels s)[i := t'], sv_active := sv_active s + d\<rparr>)"

section \<open>Invariants of a tunnel\<close>

inductive_cases tun_stepE: "tun_step fl t t' d"

lemmas close_simps = close_tunnel_def

text \<open>Resources, notifications and program counters agree.\<close>

definition life_inv :: "tunnel \<Rightarrow> bool" where
  "life_inv t \<longleftrightarrow> (t_wsOpen t \<longleftrightarrow> \<not> t_done t) \<and> (t_udpOpen t \<longleftrightarrow> \<not> t_done t)
     \<and> t_events t = (if t_done t then [''connected'', ''disconnected''] else [''connected''])
     \<and> (t_handler t \<longrightarrow> t_done t) \<and> (t_ping t = PingExit \<or> t_ws t = WsExit \<or> t_udp t = UdpExit \<longrightarrow> t_done t)"

fun pending_ws :: "ws_pc \<Rightarrow> string list" where
  "pending_ws (WsGot x) = [x]" | "pending_ws _ = []"

fun pending_udp :: "udp_pc \<Rightarrow> string list" where
  "pending_udp (UdpWriting x) = [x]" | "pending_udp _ = []"

fun binaries :: "frame list \<Rightarrow> string list" where
  "binaries [] = []" | "binaries (Binary x # fs) = x # binaries fs" | "binaries (Ping # fs) = binaries fs"

lemma binaries_append [simp]: "binaries (xs @ ys) = binaries xs @ binaries ys"
  by (induction xs rule: binaries.induct) auto

definition sum_len :: "string list \<Rightarrow> 64 word" where
  "sum_len xs = sum_list (map (\<lambda>x. of_nat (length x)) xs)"

lemma sum_len_simps [simp]: "sum_len [] = 0" "sum_len (xs @ ys) = sum_len xs + sum_len ys" "sum_len [x] = of_nat (length x)"
  by (simp_all add: sum_len_def)

text \<open>Each direction: what was read is what was written, in order, but for one item in flight,
  or the one lost when the goroutine gave up.\<close>

definition ws_inv :: "tunnel \<Rightarrow> bool" where
  "ws_inv t \<longleftrightarrow> (t_fromWS t = t_toUDP t @ pending_ws (t_ws t) \<or> t_ws t = WsExit \<and> (\<exists>x. t_fromWS t = t_toUDP t @ [x]))
     \<and> t_framesWGIn t = of_nat (length (t_toUDP t)) \<and> t_bytesWGIn t = sum_len (t_toUDP t)"

definition udp_inv :: "tunnel \<Rightarrow> bool" where
  "udp_inv t \<longleftrightarrow> (t_fromUDP t = binaries (t_toWS t) @ pending_udp (t_udp t)
       \<or> t_udp t = UdpExit \<and> (\<exists>x. t_fromUDP t = binaries (t_toWS t) @ [x]))
     \<and> t_framesWGOut t = of_nat (length (binaries (t_toWS t))) \<and> t_bytesWGOut t = sum_len (binaries (t_toWS t))"

definition id_inv :: "tunnel \<Rightarrow> bool" where
  "id_inv t \<longleftrightarrow> sessionIDFromHeader (t_sessionID t) = Some (t_sessionID t)"

lemma life_step: "tun_step fl t t' d \<Longrightarrow> life_inv t \<Longrightarrow> life_inv t'"
  by (cases rule: tun_step.cases, assumption)
    (auto simp: life_inv_def close_tunnel_def split: if_splits)

lemma ws_step: "tun_step fl t t' d \<Longrightarrow> ws_inv t \<Longrightarrow> ws_inv t'"
  by (cases rule: tun_step.cases, assumption)
    (auto simp: ws_inv_def close_tunnel_def split: if_splits)

lemma udp_step: "tun_step fl t t' d \<Longrightarrow> udp_inv t \<Longrightarrow> udp_inv t'"
  by (cases rule: tun_step.cases, assumption)
    (auto simp: udp_inv_def close_tunnel_def split: if_splits)

lemma id_step: "tun_step fl t t' d \<Longrightarrow> id_inv t \<Longrightarrow> id_inv t'"
  by (cases rule: tun_step.cases, assumption)
    (auto simp: id_inv_def close_tunnel_def split: if_splits)

section \<open>Lifting to the server\<close>

text \<open>
  A property that holds of every tunnel \<open>handleTunnel\<close> opens and that no step breaks holds of
  all tunnels of the server, whatever interleaving and however many tunnels.
\<close>

definition opened :: "string \<Rightarrow> string \<Rightarrow> string \<Rightarrow> tunnel" where
  "opened clientIP token sid = (newTunnel clientIP token sid)\<lparr>t_events := [''connected'']\<rparr>"

lemma handleTunnel_cases:
  obtains (same) "sv_tunnels (handleTunnel up res dial rnd nanos r s) = sv_tunnels s"
      "sv_active (handleTunnel up res dial rnd nanos r s) = sv_active s"
    | (new) ip where "up" "res" "dial" "sv_tunnels (handleTunnel up res dial rnd nanos r s) = sv_tunnels s
          @ [opened ip (tr_token r) (ssid.chosen (tr_session r) (rnd, nanos))]"
      "sv_active (handleTunnel up res dial rnd nanos r s) = sv_active s + 1"
proof (cases "up \<and> res \<and> dial")
  case True
  have "\<exists>ip. sv_tunnels (handleTunnel up res dial rnd nanos r s) = sv_tunnels s
      @ [opened ip (tr_token r) (ssid.chosen (tr_session r) (rnd, nanos))]"
    using True ssid.accept_exact [of "tr_session r"]
    by (cases "sessionIDFromHeader (tr_session r)")
      (auto simp: handleTunnel_def Let_def ssid.chosen_def opened_def newTunnel_def)
  moreover have "sv_active (handleTunnel up res dial rnd nanos r s) = sv_active s + 1"
    using True by (simp add: handleTunnel_def Let_def)
  ultimately show ?thesis using new True by blast
qed (rule same, auto simp: handleTunnel_def)

locale tunnel_invariant =
  fixes P :: "tunnel \<Rightarrow> bool"
  assumes P_opened: "sessionIDFromHeader sid = Some sid \<Longrightarrow> P (opened ip token sid)"
    and P_step: "tun_step fl t t' d \<Longrightarrow> P t \<Longrightarrow> P t'"
begin

lemma everywhere: "sv_reach fl s \<Longrightarrow> list_all P (sv_tunnels s)"
proof (induction rule: sv_reach.induct)
  case (opened s rnd nanos up res dial r)
  have "sessionIDFromHeader (ssid.chosen (tr_session r) (rnd, nanos)) = Some (ssid.chosen (tr_session r) (rnd, nanos))"
    using ssid.chosen_hex [OF opened.hyps(2)] by (simp add: sessionIDFromHeader_hex)
  then show ?case using opened.IH P_opened
    by (cases up res dial rnd nanos r s rule: handleTunnel_cases) auto
next
  case (moved s i t' d)
  then show ?case using P_step [OF moved.hyps(3)] by (simp add: list_all_length nth_list_update)
qed (simp add: sv_init_def)

lemma each: "sv_reach fl s \<Longrightarrow> t \<in> set (sv_tunnels s) \<Longrightarrow> P t"
  using everywhere by (simp add: list_all_iff)

end

interpretation life: tunnel_invariant life_inv
  by unfold_locales (simp add: life_inv_def opened_def newTunnel_def, rule life_step)

interpretation tows: tunnel_invariant ws_inv
  by unfold_locales (simp add: ws_inv_def opened_def newTunnel_def, rule ws_step)

interpretation toudp: tunnel_invariant udp_inv
  by unfold_locales (simp add: udp_inv_def opened_def newTunnel_def, rule udp_step)

interpretation ident: tunnel_invariant id_inv
  by unfold_locales (simp add: id_inv_def opened_def newTunnel_def, rule id_step)

text \<open>\<open>activeConns\<close> counts the tunnels that are not closed.\<close>

abbreviation live :: "tunnel list \<Rightarrow> nat" where
  "live ts \<equiv> length (filter (\<lambda>t. \<not> t_done t) ts)"

lemma live_update:
  "i < length ts \<Longrightarrow> int (live (ts[i := t])) = int (live ts) + (if t_done (ts ! i) then 1 else 0) - (if t_done t then 1 else 0)"
proof (induction ts arbitrary: i)
  case (Cons a ts)
  show ?case
  proof (cases i)
    case 0
    then show ?thesis by simp
  next
    case (Suc j)
    then show ?thesis using Cons.IH [of j] Cons.prems by (simp split: if_splits)
  qed
qed simp

lemma step_count: "tun_step fl t t' d \<Longrightarrow> d = (if t_done t then 0 else if t_done t' then - 1 else 0) \<and> (t_done t \<longrightarrow> t_done t')"
  by (cases rule: tun_step.cases, assumption) (auto simp: close_tunnel_def split: if_splits)

lemma active_live: "sv_reach fl s \<Longrightarrow> sv_active s = int (live (sv_tunnels s))"
proof (induction rule: sv_reach.induct)
  case (opened s rnd nanos up res dial r)
  then show ?case
    by (cases up res dial rnd nanos r s rule: handleTunnel_cases) (auto simp: opened_def newTunnel_def)
next
  case (moved s i t' d)
  then show ?case using step_count [OF moved.hyps(3)] live_update [OF moved.hyps(2), of t'] by auto
qed (simp add: sv_init_def)

section \<open>Winding down\<close>

text \<open>How far the goroutines of a closed tunnel are from their exits.\<close>

fun rank_ping :: "ping_pc \<Rightarrow> nat" where
  "rank_ping PingWait = 2" | "rank_ping PingWriting = 1" | "rank_ping PingExit = 0"

fun rank_ws :: "ws_pc \<Rightarrow> nat \<Rightarrow> nat" where
  "rank_ws WsRead n = 2 + n" | "rank_ws (WsGot _) n = 1" | "rank_ws WsExit n = 0"

fun rank_udp :: "udp_pc \<Rightarrow> nat" where
  "rank_udp UdpHead = 1" | "rank_udp UdpRead = 2" | "rank_udp (UdpWriting _) = 1" | "rank_udp UdpExit = 0"

fun rank_stats :: "stats_pc \<Rightarrow> nat" where
  "rank_stats StatsWait = 1" | "rank_stats StatsExit = 0"

fun rank_handler :: "bool \<Rightarrow> nat" where
  "rank_handler True = 0" | "rank_handler False = 1"

definition wind :: "tunnel \<Rightarrow> nat" where
  "wind t = rank_ping (t_ping t) + rank_ws (t_ws t) (length (t_wsIn t)) + rank_udp (t_udp t) + rank_stats (t_stats t)
     + rank_handler (t_handler t)"

lemma wind_step:
  assumes "tun_step fl t t' d" "t_done t" "life_inv t"
  shows "t' = t \<or> wind t' < wind t"
proof -
  from assms(2,3) have o: "\<not> t_wsOpen t" "\<not> t_udpOpen t" by (simp_all add: life_inv_def)
  have c: "close_tunnel t = (t', d) \<longleftrightarrow> t' = t \<and> d = 0" for t' d using assms(2) by (auto simp: close_tunnel_def)
  from assms(1) show ?thesis
  proof cases
    case Handler
    then show ?thesis by (cases "t_handler t") (simp_all add: wind_def)
  qed (use assms(2) o in \<open>simp_all add: c wind_def\<close>)
qed

lemma wind_zero:
  "wind t = 0 \<longleftrightarrow> t_ping t = PingExit \<and> t_ws t = WsExit \<and> t_udp t = UdpExit \<and> t_stats t = StatsExit \<and> t_handler t"
  by (cases "t_ping t"; cases "t_ws t"; cases "t_udp t"; cases "t_stats t"; cases "t_handler t")
    (simp_all add: wind_def)

lemma wind_progress:
  assumes "t_done t" "life_inv t" "wind t > 0"
  shows "\<exists>t'. tun_step fl t t' 0 \<and> t_done t' \<and> wind t' < wind t"
proof -
  have c: "close_tunnel t = (t, 0)" using assms(1) by (simp add: close_tunnel_def)
  from assms(3) wind_zero [of t] consider "t_ping t = PingWait" | "t_ping t = PingWriting" | "t_ws t = WsRead"
    | x where "t_ws t = WsGot x" | "t_udp t = UdpHead" | "t_udp t = UdpRead" | y where "t_udp t = UdpWriting y"
    | "t_stats t = StatsWait" | "\<not> t_handler t"
    by (cases "t_ping t"; cases "t_ws t"; cases "t_udp t"; cases "t_stats t") auto
  then show ?thesis
  proof cases
    case 1 with PingDone [of t fl] assms(1) show ?thesis by (intro exI conjI) (assumption, simp_all add: wind_def)
  next
    case 2 with PingFailed [of t t 0 fl] c assms(1) show ?thesis by (intro exI conjI) (blast, simp_all add: wind_def)
  next
    case 3 with WsError [of t t 0 fl] c assms(1) show ?thesis by (intro exI conjI) (blast, simp_all add: wind_def)
  next
    case 4 with UdpFailed [of t x t 0 fl] c assms(1) show ?thesis by (intro exI conjI) (blast, simp_all add: wind_def)
  next
    case 5 with UdpDone [of t fl] assms(1) show ?thesis by (intro exI conjI) (assumption, simp_all add: wind_def)
  next
    case 6 with UdpError [of t t 0 fl] c assms(1) show ?thesis by (intro exI conjI) (blast, simp_all add: wind_def)
  next
    case 7 with WsFailed [of t y t 0 fl] c assms(1) show ?thesis by (intro exI conjI) (blast, simp_all add: wind_def)
  next
    case 8 with StatsDone [of t fl] assms(1) show ?thesis by (intro exI conjI) (assumption, simp_all add: wind_def)
  next
    case 9 with Handler [of t fl] assms(1) show ?thesis by (intro exI conjI) (assumption, simp_all add: wind_def)
  qed
qed

lemma wind_run:
  assumes "t_done t" "life_inv t"
  shows "\<exists>u. (\<lambda>a b. tun_step fl a b 0)\<^sup>*\<^sup>* t u \<and> wind u = 0"
  using assms
proof (induction "wind t" arbitrary: t rule: less_induct)
  case less
  show ?case
  proof (cases "wind t = 0")
    case False
    then obtain t' where s: "tun_step fl t t' 0" "t_done t'" "wind t' < wind t"
      using wind_progress [OF less.prems] by auto
    from less.hyps [OF s(3,2) life_step [OF s(1) less.prems(2)]] s(1) show ?thesis
      by (meson converse_rtranclp_into_rtranclp)
  qed blast
qed

section \<open>Properties\<close>

text \<open>
  (C10) \<open>/healthz\<close> tells the truth: after any interleaving of requests, packets, errors and
  closings from any goroutine, \<open>activeConns\<close> is the number of tunnels not yet closed, each
  tunnel's manager was told "connected" once and, exactly when it is closed, "disconnected"
  once, and both of its sockets are closed with it.
\<close>

theorem server_accounting:
  assumes "sv_reach fl s"
  shows "handleHealth s = ''ok active='' @ dec (length (filter (\<lambda>t. \<not> t_done t) (sv_tunnels s))) @ [CHR 0x0A]
    \<and> (\<forall>t \<in> set (sv_tunnels s). t_events t = (if t_done t then [''connected'', ''disconnected''] else [''connected''])
         \<and> (t_wsOpen t \<longleftrightarrow> \<not> t_done t) \<and> (t_udpOpen t \<longleftrightarrow> \<not> t_done t))"
  using active_live [OF assms] life.each [OF assms]
  by (simp add: handleHealth_def) (simp add: life_inv_def)


text \<open>
  (C26) Closing a tunnel ends it: from then on every step of its goroutines either changes
  nothing (a statistics line) or brings them nearer to their exits, none of them is ever
  stuck, and all four and the handler can finish.
\<close>

theorem closed_tunnel_winds_down:
  assumes "sv_reach fl s" "t \<in> set (sv_tunnels s)" "t_done t"
  shows "(\<forall>t' d. tun_step fl t t' d \<longrightarrow> d = 0 \<and> t_done t' \<and> (t' = t \<or> wind t' < wind t))
    \<and> wind t \<le> 8 + length (t_wsIn t)
    \<and> (\<exists>u. (\<lambda>a b. tun_step fl a b 0)\<^sup>*\<^sup>* t u \<and> t_ping u = PingExit \<and> t_ws u = WsExit \<and> t_udp u = UdpExit
          \<and> t_stats u = StatsExit \<and> t_handler u)"
proof (intro conjI)
  note inv = life.each [OF assms(1,2)]
  show "\<forall>t' d. tun_step fl t t' d \<longrightarrow> d = 0 \<and> t_done t' \<and> (t' = t \<or> wind t' < wind t)"
    using step_count wind_step [OF _ assms(3) inv] assms(3) by (metis (no_types, lifting))
  show "wind t \<le> 8 + length (t_wsIn t)"
    by (cases "t_ping t"; cases "t_ws t"; cases "t_udp t"; cases "t_stats t"; cases "t_handler t") (simp_all add: wind_def)
  show "\<exists>u. (\<lambda>a b. tun_step fl a b 0)\<^sup>*\<^sup>* t u \<and> t_ping u = PingExit \<and> t_ws u = WsExit \<and> t_udp u = UdpExit
      \<and> t_stats u = StatsExit \<and> t_handler u"
    using wind_run [OF assms(3) inv, of fl] unfolding wind_zero .
qed

text \<open>
  The server's two writers are not kept apart: the ping goroutine and the UDP goroutine
  of a tunnel can be inside \<open>WriteMessage\<close> on the same socket at the same time, which the
  WebSocket library does not allow.
\<close>

lemma server_writers_overlap:
  "\<exists>s t. sv_reach fl s \<and> sv_tunnels s = [t] \<and> t_ping t = PingWriting \<and> t_udp t = UdpWriting ''x''"
proof -
  let ?r = "\<lparr>tr_cfIP = [], tr_remote = ''h'', tr_token = [], tr_session = []\<rparr>"
  define s0 where "s0 = handleTunnel True True True (Some ''AbCd'') 0 ?r sv_init"
  have r0: "sv_reach fl s0" unfolding s0_def
    by (rule sv_reach.opened [OF sv_reach.start]) (simp add: entropy_given_def)
  have shape: "\<exists>t. sv_tunnels s0 = [t] \<and> t_ping t = PingWait \<and> t_udp t = UdpHead \<and> \<not> t_done t \<and> t_udpOpen t"
    by (simp add: s0_def handleTunnel_def Let_def sv_init_def newTunnel_def sessionIDFromHeader_def)
  then obtain t where t: "sv_tunnels s0 = [t]" "t_ping t = PingWait" "t_udp t = UdpHead" "\<not> t_done t" "t_udpOpen t" by blast
  have move: "sv_reach fl (s\<lparr>sv_tunnels := [b], sv_active := sv_active s + 0\<rparr>)"
    if "sv_reach fl s" "sv_tunnels s = [a]" "tun_step fl a b 0" for s a b
    using sv_reach.moved [OF that(1), of 0 b 0] that(2,3) by simp
  let ?t1 = "t\<lparr>t_udp := UdpRead\<rparr>"
  let ?t2 = "?t1\<lparr>t_udp := UdpWriting ''x'', t_idleLogged := False, t_fromUDP := t_fromUDP ?t1 @ [''x'']\<rparr>"
  let ?t3 = "?t2\<lparr>t_ping := PingWriting\<rparr>"
  note m1 = move [OF r0 t(1) UdpGo [OF t(3,4)]]
  have "tun_step fl ?t1 ?t2 0" by (rule UdpData) (simp_all add: t)
  note m2 = move [OF m1 _ this, simplified]
  have "tun_step fl ?t2 ?t3 0" by (rule PingTick) (simp add: t)
  note m3 = move [OF m2 _ this, simplified]
  show ?thesis by (rule exI, rule exI [of _ ?t3], rule conjI [OF m3]) simp
qed

text \<open>
  Both ends log the same session: the tunnel opened for a client's request carries the id
  the client made, also when the client's random source failed; and whatever is in the
  header, the id the server logs is eight hexadecimal digits.
\<close>

lemma session_ids_meet:
  assumes "entropy_given (rnd, nanos)" "entropy_given (rnd', nanos')"
  shows "t_sessionID (last (sv_tunnels (handleTunnel True True True rnd' nanos'
            (r\<lparr>tr_session := newSessionID rnd nanos\<rparr>) s))) = newSessionID rnd nanos
    \<and> (\<exists>sid. t_sessionID (last (sv_tunnels (handleTunnel True True True rnd' nanos' r s))) = sid
          \<and> length sid = 8 \<and> set sid \<subseteq> {c. is_hex c})"
proof -
  have id: "t_sessionID (last (sv_tunnels (handleTunnel True True True rnd' nanos' q s))) = ssid.chosen (tr_session q) (rnd', nanos')" for q
    using ssid.accept_exact [of "tr_session q"]
    by (cases "sessionIDFromHeader (tr_session q)")
      (auto simp: handleTunnel_def Let_def ssid.chosen_def newTunnel_def)
  have "sessionIDFromHeader (newSessionID rnd nanos) = Some (newSessionID rnd nanos)"
    using csid.fresh_accepted [OF assms(1)] by simp
  then show ?thesis using ssid.chosen_hex [OF assms(2), of "tr_session r"]
    by (simp add: id ssid.chosen_def list_all_iff subset_iff)
qed

section \<open>Witnesses\<close>

definition sample_flags :: server_flags where
  "sample_flags = \<lparr>fl_managerURL = [], fl_statsInterval = 60000000000, fl_udpIdleLog = 300000000000\<rparr>"

definition sample_server :: server where
  "sample_server = handleTunnel True True True (Some ''AbCd'') 0
     \<lparr>tr_cfIP = [], tr_remote = ''h'', tr_token = [], tr_session = ''00c0ffee''\<rparr> sv_init"

lemma sample_reach: "sv_reach fl sample_server"
  unfolding sample_server_def by (rule sv_reach.opened [OF sv_reach.start]) (simp add: entropy_given_def)

lemma sample_tunnels: "sv_tunnels sample_server = [opened ''h'' [] ''00c0ffee'']"
  by (simp add: sample_server_def handleTunnel_def Let_def sv_init_def opened_def newTunnel_def sessionIDFromHeader_def
      bad_id_char_def)

text \<open>A message arrives, is read and written to WireGuard; then the socket fails.\<close>

definition sample_busy :: tunnel where
  "sample_busy = (opened ''h'' [] ''00c0ffee'')\<lparr>t_wsIn := [], t_fromWS := [''p''], t_ws := WsRead, t_toUDP := [''p''],
     t_bytesWGIn := 1, t_framesWGIn := 1\<rparr>"

definition sample_closed :: tunnel where
  "sample_closed = (fst (close_tunnel sample_busy))\<lparr>t_ws := WsExit\<rparr>"

lemma sample_run: "\<exists>s. sv_reach fl s \<and> sv_tunnels s = [sample_busy]"
    "\<exists>s. sv_reach fl s \<and> sv_tunnels s = [sample_closed]"
proof -
  have move: "\<exists>u. sv_reach fl u \<and> sv_tunnels u = [b]"
    if "\<exists>s. sv_reach fl s \<and> sv_tunnels s = [a]" "tun_step fl a b d" for a b d
  proof -
    from that(1) obtain s where s: "sv_reach fl s" "sv_tunnels s = [a]" by blast
    show ?thesis using sv_reach.moved [OF s(1), of 0 b d] s(2) that(2)
      by (intro exI [of _ "s\<lparr>sv_tunnels := [b], sv_active := sv_active s + d\<rparr>"]) simp
  qed
  let ?a = "opened ''h'' [] ''00c0ffee''"
  let ?b = "?a\<lparr>t_wsIn := t_wsIn ?a @ [(True, ''p'')]\<rparr>"
  let ?c = "?b\<lparr>t_ws := WsGot ''p'', t_wsIn := [], t_fromWS := t_fromWS ?b @ [''p'']\<rparr>"
  let ?d = "?c\<lparr>t_ws := WsRead, t_toUDP := t_toUDP ?c @ [''p''], t_bytesWGIn := t_bytesWGIn ?c + of_nat (length ''p''),
    t_framesWGIn := t_framesWGIn ?c + 1\<rparr>"
  have "tun_step fl ?a ?b 0" by (rule WsArrive) (simp_all add: opened_def newTunnel_def wsReadLimit_def)
  from move [OF _ this] sample_reach sample_tunnels have 1: "\<exists>s. sv_reach fl s \<and> sv_tunnels s = [?b]" by blast
  have "tun_step fl ?b ?c 0" by (rule WsBinary) (simp_all add: opened_def newTunnel_def)
  note 2 = move [OF 1 this]
  have "tun_step fl ?c ?d 0" by (rule UdpWrote) (simp_all add: opened_def newTunnel_def)
  note 3 = move [OF 2 this]
  have "?d = sample_busy" by (simp add: sample_busy_def opened_def newTunnel_def)
  with 3 show 4: "\<exists>s. sv_reach fl s \<and> sv_tunnels s = [sample_busy]" by simp
  obtain u d where cl: "close_tunnel sample_busy = (u, d)" by (cases "close_tunnel sample_busy")
  have "tun_step fl sample_busy (u\<lparr>t_ws := WsExit\<rparr>) d" by (rule WsError [OF _ cl]) (simp add: sample_busy_def)
  moreover have "u\<lparr>t_ws := WsExit\<rparr> = sample_closed" using cl by (simp add: sample_closed_def)
  ultimately show "\<exists>s. sv_reach fl s \<and> sv_tunnels s = [sample_closed]" using move [OF 4] by simp
qed

theorem server_accounting_witness:
  "\<exists>s. sv_reach sample_flags s \<and> sv_tunnels s = [sample_closed] \<and> handleHealth s = ''ok active='' @ dec 0 @ [CHR 0x0A]"
proof -
  obtain s where s: "sv_reach sample_flags s" "sv_tunnels s = [sample_closed]" using sample_run(2) by blast
  have "t_done sample_closed" by (simp add: sample_closed_def close_tunnel_def sample_busy_def opened_def newTunnel_def)
  then show ?thesis using server_accounting [OF s(1)] s by (intro exI [of _ s]) simp
qed


theorem closed_tunnel_winds_down_witness:
  "\<exists>s u. sv_reach sample_flags s \<and> sv_tunnels s = [sample_closed] \<and>
     (\<lambda>a b. tun_step sample_flags a b 0)\<^sup>*\<^sup>* sample_closed u \<and> t_ping u = PingExit \<and> t_handler u"
proof -
  obtain s where s: "sv_reach sample_flags s" "sv_tunnels s = [sample_closed]" using sample_run(2) by blast
  have "t_done sample_closed" by (simp add: sample_closed_def close_tunnel_def sample_busy_def opened_def newTunnel_def)
  then show ?thesis using closed_tunnel_winds_down [OF s(1), of sample_closed] s by auto
qed

lemma session_ids_meet_witness:
  "t_sessionID (last (sv_tunnels (handleTunnel True True True (Some ''EfGh'') 0
      \<lparr>tr_cfIP = [], tr_remote = ''h'', tr_token = [], tr_session = newSessionID None 7\<rparr> sv_init))) = ''00000007''"
proof -
  have "newSessionID None 7 = ''00000007''" by (simp add: newSessionID_def hex08_def hex_digit_def hex_nat.simps char_of_eq_iff) (simp add: numeral_eq_Suc)
  then show ?thesis
    using session_ids_meet [of None 7 "Some ''EfGh''" 0 "\<lparr>tr_cfIP = [], tr_remote = ''h'', tr_token = [], tr_session = []\<rparr>" sv_init]
    by (simp add: entropy_given_def)
qed

end
