(* ===== verification/End_To_End.thy ===== *)
theory End_To_End
  imports Client_Shovel Server_Tunnel "HOL-Library.Sublist"
begin

text \<open>
  The two ends together: one session of \<open>client/main.go\<close> (\<open>Client_Shovel\<close>), the tunnel of
  \<open>server/main.go\<close> its dial opened (\<open>Server_Tunnel\<close>), and the WebSocket between them, an ordered
  channel in each direction whose tail may be lost with the connection. Every step is a step of
  one of the two programs or the arrival of the next message.
\<close>

section \<open>The link\<close>

record link =
  lk_session :: session
  lk_tunnel :: tunnel
  lk_up :: "(bool \<times> string) list"  \<comment> \<open>from the client, under way\<close>
  lk_down :: "in_msg list"  \<comment> \<open>from the server, under way\<close>

text \<open>What a frame is to the reader at the other end. Control frames from the client are answered
  inside the server's WebSocket library and do not reach \<open>wsToUDP\<close>.\<close>

fun up_msg :: "wframe \<Rightarrow> (bool \<times> string) list" where
  "up_msg (WData x) = [(True, x)]" | "up_msg WPing = []" | "up_msg (WPong d) = []"

fun down_msg :: "frame \<Rightarrow> in_msg" where
  "down_msg (Binary x) = InBinary x" | "down_msg Ping = InPing []"

text \<open>The request the client's dial makes, as \<open>handleTunnel\<close> sees it.\<close>

definition dial_request :: "string \<Rightarrow> string \<Rightarrow> string \<Rightarrow> string \<Rightarrow> tunnel_request" where
  "dial_request cfIP remote arenaToken sid =
     (let h = map_of (ws_headers arenaToken sid); get = (\<lambda>k. case h k of None \<Rightarrow> [] | Some v \<Rightarrow> v)
      in \<lparr>tr_cfIP = cfIP, tr_remote = remote, tr_token = get ''X-Arena-Token'', tr_session = get ''X-Arena-Session''\<rparr>)"

definition dialled_link :: "string \<Rightarrow> tunnel \<Rightarrow> link" where
  "dialled_link sid t = \<lparr>lk_session = new_session sid, lk_tunnel = t, lk_up = [], lk_down = []\<rparr>"

text \<open>A step that is not an arrival leaves the inbox no longer than it was.\<close>

inductive link_step :: "server_flags \<Rightarrow> bool \<Rightarrow> link \<Rightarrow> link \<Rightarrow> bool" for fl ctx where
  client: "se_step ctx (lk_session l) s' \<Longrightarrow> length (se_wsIn s') \<le> length (se_wsIn (lk_session l)) \<Longrightarrow>
     se_toWS s' = se_toWS (lk_session l) @ out \<Longrightarrow>
     link_step fl ctx l (l\<lparr>lk_session := s', lk_up := lk_up l @ concat (map up_msg out)\<rparr>)"
| server: "tun_step fl (lk_tunnel l) t' d \<Longrightarrow> length (t_wsIn t') \<le> length (t_wsIn (lk_tunnel l)) \<Longrightarrow>
     t_toWS t' = t_toWS (lk_tunnel l) @ out \<Longrightarrow>
     link_step fl ctx l (l\<lparr>lk_tunnel := t', lk_down := lk_down l @ map down_msg out\<rparr>)"
| arrive_up: "lk_up l = m # rest \<Longrightarrow> tun_step fl (lk_tunnel l) ((lk_tunnel l)\<lparr>t_wsIn := t_wsIn (lk_tunnel l) @ [m]\<rparr>) 0 \<Longrightarrow>
     link_step fl ctx l (l\<lparr>lk_tunnel := (lk_tunnel l)\<lparr>t_wsIn := t_wsIn (lk_tunnel l) @ [m]\<rparr>, lk_up := rest\<rparr>)"
| arrive_down: "lk_down l = m # rest \<Longrightarrow> se_step ctx (lk_session l) ((lk_session l)\<lparr>se_wsIn := se_wsIn (lk_session l) @ [m]\<rparr>) \<Longrightarrow>
     link_step fl ctx l (l\<lparr>lk_session := (lk_session l)\<lparr>se_wsIn := se_wsIn (lk_session l) @ [m]\<rparr>, lk_down := rest\<rparr>)"

inductive link_reach :: "server_flags \<Rightarrow> link \<Rightarrow> bool" for fl where
  start: "entropy_given (rnd, nanos) \<Longrightarrow> entropy_given (rnd', nanos') \<Longrightarrow>
     sv_tunnels (handleTunnel True True True rnd' nanos' (dial_request cfIP remote token (newSessionID rnd nanos)) sv) = ts @ [t] \<Longrightarrow>
     link_reach fl (dialled_link (newSessionID rnd nanos) t)"
| step: "link_reach fl l \<Longrightarrow> link_step fl ctx l l' \<Longrightarrow> link_reach fl l'"

section \<open>Invariants of the ends hold on the link\<close>

lemma opened_link:
  assumes "entropy_given (rnd, nanos)" "entropy_given (rnd', nanos')"
    and "sv_tunnels (handleTunnel True True True rnd' nanos' (dial_request cfIP remote token (newSessionID rnd nanos)) sv) = ts @ [t]"
  shows "\<exists>ip. t = opened ip token (newSessionID rnd nanos)"
proof -
  let ?sid = "newSessionID rnd nanos" and ?r = "dial_request cfIP remote token (newSessionID rnd nanos)"
  have "sessionIDFromHeader ?sid = Some ?sid" using csid.fresh_accepted [OF assms(1)] by simp
  moreover have r: "tr_session ?r = ?sid" "tr_token ?r = token" by (simp_all add: dial_request_def ws_headers_def Let_def)
  ultimately have "ssid.chosen (tr_session ?r) (rnd', nanos') = ?sid" by (simp add: ssid.chosen_def)
  moreover have "sv_active (handleTunnel True True True rnd' nanos' ?r sv) = sv_active sv + 1"
    by (simp add: handleTunnel_def Let_def)
  ultimately show ?thesis using assms(3) r
    by (cases True True True rnd' nanos' ?r sv rule: handleTunnel_cases) auto
qed

context session_invariant
begin

lemma on_link: "link_reach fl l \<Longrightarrow> P (lk_session l)"
proof (induction rule: link_reach.induct)
  case (start rnd nanos)
  then show ?case using P_new csid.fresh_accepted [of "(rnd, nanos)"] by (simp add: dialled_link_def)
next
  case (step l ctx l')
  from step.hyps(2) step.IH show ?case by cases (auto intro: P_step)
qed

end

context tunnel_invariant
begin

lemma on_link: "link_reach fl l \<Longrightarrow> P (lk_tunnel l)"
proof (induction rule: link_reach.induct)
  case (start rnd nanos rnd' nanos' cfIP remote token sv ts t)
  then show ?case using opened_link [OF start] P_opened csid.fresh_accepted [of "(rnd, nanos)"] by (auto simp: dialled_link_def)
next
  case (step l ctx l')
  from step.hyps(2) step.IH show ?case by cases (auto intro: P_step)
qed

end

section \<open>Nothing is lost, doubled or reordered under way\<close>

abbreviation data_in :: "(bool \<times> string) list \<Rightarrow> string list" where
  "data_in ms \<equiv> map snd (filter fst ms)"

fun msg_data :: "in_msg list \<Rightarrow> string list" where
  "msg_data [] = []" | "msg_data (InBinary x # ms) = x # msg_data ms"
| "msg_data (InPing d # ms) = msg_data ms" | "msg_data (InOther # ms) = msg_data ms"

lemma msg_data_append [simp]: "msg_data (xs @ ys) = msg_data xs @ msg_data ys"
  by (induction xs rule: msg_data.induct) auto

lemma data_of_up [simp]: "data_in (concat (map up_msg out)) = datas out"
  by (induction out rule: datas.induct) auto

lemma data_of_down [simp]: "msg_data (map down_msg out) = binaries out"
  by (induction out rule: binaries.induct) auto

lemma session_reads:
  "se_step ctx s s' \<Longrightarrow> length (se_wsIn s') \<le> length (se_wsIn s) \<Longrightarrow>
     se_fromWS s' @ msg_data (se_wsIn s') = se_fromWS s @ msg_data (se_wsIn s)"
  by (cases rule: se_step.cases, assumption) (auto simp: session_defs split: if_splits)

lemma tunnel_reads:
  "tun_step fl t t' d \<Longrightarrow> length (t_wsIn t') \<le> length (t_wsIn t) \<Longrightarrow>
     t_fromWS t' @ data_in (t_wsIn t') = t_fromWS t @ data_in (t_wsIn t)"
  by (cases rule: tun_step.cases, assumption) (auto simp: close_tunnel_def split: if_splits)

definition conserved :: "link \<Rightarrow> bool" where
  "conserved l \<longleftrightarrow>
     datas (se_toWS (lk_session l)) = t_fromWS (lk_tunnel l) @ data_in (t_wsIn (lk_tunnel l)) @ data_in (lk_up l)
   \<and> binaries (t_toWS (lk_tunnel l)) = se_fromWS (lk_session l) @ msg_data (se_wsIn (lk_session l)) @ msg_data (lk_down l)"

lemma conserved_step: "link_step fl ctx l l' \<Longrightarrow> conserved l \<Longrightarrow> conserved l'"
proof (induction rule: link_step.induct)
  case (client l s' out)
  then show ?case using session_reads [OF client.hyps(1,2)] by (simp add: conserved_def)
next
  case (server l t' d out)
  then show ?case using tunnel_reads [OF server.hyps(1,2)] by (simp add: conserved_def)
next
  case (arrive_up l m rest)
  then show ?case by (simp add: conserved_def)
next
  case (arrive_down l m rest)
  then show ?case by (cases m) (simp_all add: conserved_def)
qed

lemma link_conserved: "link_reach fl l \<Longrightarrow> conserved l"
proof (induction rule: link_reach.induct)
  case (start rnd nanos rnd' nanos' cfIP remote token sv ts t)
  then show ?case using opened_link [OF start]
    by (auto simp: conserved_def dialled_link_def new_session_def opened_def newTunnel_def)
qed (rule conserved_step)

section \<open>The link is a pair of FIFO channels\<close>

text \<open>What the two programs are for: a channel that accepts datagrams at one end and hands them
  over at the other, the next one each time.\<close>

record fifo =
  ff_accepted :: "string list"
  ff_delivered :: "string list"

inductive fifo_step :: "fifo \<Rightarrow> fifo \<Rightarrow> bool" where
  accept: "fifo_step q (q\<lparr>ff_accepted := ff_accepted q @ [x]\<rparr>)"
| deliver: "length (ff_delivered q) < length (ff_accepted q) \<Longrightarrow>
     fifo_step q (q\<lparr>ff_delivered := ff_delivered q @ [ff_accepted q ! length (ff_delivered q)]\<rparr>)"
| stay: "fifo_step q q"

definition up_view :: "link \<Rightarrow> fifo" where
  "up_view l = \<lparr>ff_accepted = se_fromUDP (lk_session l), ff_delivered = t_toUDP (lk_tunnel l)\<rparr>"

definition down_view :: "link \<Rightarrow> fifo" where
  "down_view l = \<lparr>ff_accepted = t_fromUDP (lk_tunnel l), ff_delivered = map fst (se_down (lk_session l))\<rparr>"

text \<open>One more at the end, or nothing: all a step does to a log.\<close>

definition grows :: "'a list \<Rightarrow> 'a list \<Rightarrow> bool" where
  "grows xs ys \<longleftrightarrow> ys = xs \<or> (\<exists>x. ys = xs @ [x])"

lemma grows_simps [simp]: "grows xs xs" "grows xs (xs @ [x])"
  by (simp_all add: grows_def)

lemma grows_map: "grows xs ys \<Longrightarrow> grows (map f xs) (map f ys)"
  by (auto simp: grows_def)

lemma session_grows: "se_step ctx s s' \<Longrightarrow> grows (se_fromUDP s) (se_fromUDP s') \<and> grows (se_down s) (se_down s')"
  by (cases rule: se_step.cases, assumption) (auto simp: session_defs)

lemma tunnel_grows: "tun_step fl t t' d \<Longrightarrow> grows (t_fromUDP t) (t_fromUDP t') \<and> grows (t_toUDP t) (t_toUDP t')"
  by (cases rule: tun_step.cases, assumption) (auto simp: close_tunnel_def split: if_splits)

lemma fifo_accepts: "grows a a' \<Longrightarrow> fifo_step \<lparr>ff_accepted = a, ff_delivered = d\<rparr> \<lparr>ff_accepted = a', ff_delivered = d\<rparr>"
  using fifo_step.accept [of "\<lparr>ff_accepted = a, ff_delivered = d\<rparr>"] fifo_step.stay by (auto simp: grows_def)

lemma fifo_delivers:
  assumes "grows d d'" "prefix d' a"
  shows "fifo_step \<lparr>ff_accepted = a, ff_delivered = d\<rparr> \<lparr>ff_accepted = a, ff_delivered = d'\<rparr>"
proof (cases "d' = d")
  case False
  with assms(1) obtain x where "d' = d @ [x]" by (auto simp: grows_def)
  moreover from assms(2) obtain r where "a = d' @ r" by (rule prefixE)
  ultimately show ?thesis using fifo_step.deliver [of "\<lparr>ff_accepted = a, ff_delivered = d\<rparr>"] by (simp add: nth_append)
qed (simp add: fifo_step.stay)

text \<open>Each end hands on a prefix of what it took.\<close>

lemma ws_prefix: "ws_inv t \<Longrightarrow> prefix (t_toUDP t) (t_fromWS t)" and udp_prefix: "udp_inv t \<Longrightarrow> prefix (binaries (t_toWS t)) (t_fromUDP t)"
  by (auto simp: ws_inv_def udp_inv_def)

lemma up_prefix: "up_flow s \<Longrightarrow> prefix (datas (se_toWS s)) (se_fromUDP s)" and rd_prefix: "rd_flow s \<Longrightarrow> prefix (map fst (se_down s)) (se_fromWS s)"
  by (auto simp: up_flow_def rd_flow_def)

lemma link_prefix:
  assumes "link_reach fl l"
  shows "prefix (t_toUDP (lk_tunnel l)) (se_fromUDP (lk_session l))" "prefix (map fst (se_down (lk_session l))) (t_fromUDP (lk_tunnel l))"
proof -
  have c: "prefix (t_fromWS (lk_tunnel l)) (datas (se_toWS (lk_session l)))" "prefix (se_fromWS (lk_session l)) (binaries (t_toWS (lk_tunnel l)))"
    using link_conserved [OF assms] by (simp_all add: conserved_def)
  show "prefix (t_toUDP (lk_tunnel l)) (se_fromUDP (lk_session l))"
    using ws_prefix [OF tows.on_link [OF assms]] c(1) up_prefix [OF upflow.on_link [OF assms]]
    by (rule prefix_order.trans [OF prefix_order.trans])
  show "prefix (map fst (se_down (lk_session l))) (t_fromUDP (lk_tunnel l))"
    using rd_prefix [OF rdflow.on_link [OF assms]] c(2) udp_prefix [OF toudp.on_link [OF assms]]
    by (rule prefix_order.trans [OF prefix_order.trans])
qed

text \<open>Neither end changes the id it logs.\<close>

lemma session_id_kept: "se_step ctx s s' \<Longrightarrow> se_id s' = se_id s"
  by (cases rule: se_step.cases, assumption) (auto simp: session_defs)

lemma tunnel_id_kept: "tun_step fl t t' d \<Longrightarrow> t_sessionID t' = t_sessionID t \<and> t_arenaToken t' = t_arenaToken t"
  by (cases rule: tun_step.cases, assumption) (auto simp: close_tunnel_def split: if_splits)

lemma link_ids: "link_reach fl l \<Longrightarrow> t_sessionID (lk_tunnel l) = se_id (lk_session l)"
proof (induction rule: link_reach.induct)
  case (start rnd nanos rnd' nanos' cfIP remote token sv ts t)
  then show ?case using opened_link [OF start] by (auto simp: dialled_link_def new_session_def opened_def newTunnel_def)
next
  case (step l ctx l')
  from step.hyps(2) step.IH show ?case by cases (auto dest: session_id_kept tunnel_id_kept)
qed


section \<open>What was taken can be handed over\<close>

abbreviation runs :: "server_flags \<Rightarrow> link \<Rightarrow> link \<Rightarrow> bool" where
  "runs fl \<equiv> (\<lambda>a b. link_step fl False a b)\<^sup>*\<^sup>*"

lemma runs_reach: "runs fl l l' \<Longrightarrow> link_reach fl l \<Longrightarrow> link_reach fl l'"
  by (induction rule: rtranclp_induct) (auto intro: link_reach.step)

text \<open>Steps of the client's own, without arrivals.\<close>

definition own_step :: "session \<Rightarrow> session \<Rightarrow> bool" where
  "own_step s s' \<longleftrightarrow> se_step False s s' \<and> length (se_wsIn s') \<le> length (se_wsIn s) \<and> (\<exists>out. se_toWS s' = se_toWS s @ out)"

lemma own_runs: "own_step\<^sup>*\<^sup>* (lk_session l) s' \<Longrightarrow> \<exists>up. runs fl l (l\<lparr>lk_session := s', lk_up := up\<rparr>)"
proof (induction rule: rtranclp_induct)
  case base
  show ?case by (intro exI [of _ "lk_up l"]) simp
next
  case (step s s')
  then obtain up where r: "runs fl l (l\<lparr>lk_session := s, lk_up := up\<rparr>)" by blast
  from step.hyps(2) obtain out where "se_step False s s'" "length (se_wsIn s') \<le> length (se_wsIn s)" "se_toWS s' = se_toWS s @ out"
    by (auto simp: own_step_def)
  then have "link_step fl False (l\<lparr>lk_session := s, lk_up := up\<rparr>) (l\<lparr>lk_session := s', lk_up := up @ concat (map up_msg out)\<rparr>)"
    using link_step.client [of False "l\<lparr>lk_session := s, lk_up := up\<rparr>" s' out fl] by simp
  with r show ?case by (blast intro: rtranclp.rtrancl_into_rtrancl)
qed

text \<open>A goal that one own step brings about.\<close>

lemma own_to:
  assumes "se_step False s s'" "length (se_wsIn s') \<le> length (se_wsIn s)" "\<exists>out. se_toWS s' = se_toWS s @ out" "Q s'"
  shows "\<exists>s'. own_step\<^sup>*\<^sup>* s s' \<and> Q s'"
  using assms by (intro exI [of _ s']) (auto simp: own_step_def)

lemma own_then:
  assumes "\<exists>s'. own_step\<^sup>*\<^sup>* s s' \<and> P s'" "\<And>s'. P s' \<Longrightarrow> \<exists>s''. own_step\<^sup>*\<^sup>* s' s'' \<and> Q s''"
  shows "\<exists>s''. own_step\<^sup>*\<^sup>* s s'' \<and> Q s''"
proof -
  from assms(1) obtain s' where s: "own_step\<^sup>*\<^sup>* s s'" "P s'" by blast
  from assms(2) [OF s(2)] obtain s'' where "own_step\<^sup>*\<^sup>* s' s''" "Q s''" by blast
  with rtranclp_trans [OF s(1)] show ?thesis by blast
qed

text \<open>Whoever holds the mutex can finish its write and give it back.\<close>

definition freed :: "session \<Rightarrow> session \<Rightarrow> bool" where
  "freed s s' \<longleftrightarrow> se_lock s' = None \<and> se_wsOpen s' \<and> se_fromUDP s' = se_fromUDP s \<and> se_wsIn s' = se_wsIn s
     \<and> se_down s' = se_down s \<and> se_wgPeer s' = se_wgPeer s \<and> se_peerCh s' = se_peerCh s
     \<and> (se_up s' = se_up s \<or> se_up s' = UpRead) \<and> (se_rd s' = se_rd s \<or> se_rd s' = RdRead)"

lemma lock_freed:
  assumes "lock_inv s" "se_wsOpen s"
  shows "\<exists>s'. own_step\<^sup>*\<^sup>* s s' \<and> freed s s'"
proof -
  consider "se_lock s = None" | d where "se_rd s = RdPonging d" | "se_ka s = KaWriting" | x where "se_up s = UpWriting x"
  proof (cases "se_lock s")
    case (Some w)
    with assms(1) that show ?thesis by (cases w) (auto simp: lock_inv_def)
  qed (use that in simp)
  then show ?thesis
  proof cases
    case 1
    then show ?thesis by (intro exI [of _ s]) (simp add: assms(2) freed_def)
  next
    case (2 d)
    show ?thesis by (rule own_to [OF PongWrote [OF 2 assms(2)]]) (simp_all add: assms(2) freed_def)
  next
    case 3
    show ?thesis by (rule own_to [OF KaWrote [OF 3 assms(2)]]) (simp_all add: assms(2) freed_def)
  next
    case (4 x)
    show ?thesis by (rule own_to [OF UpWrote [OF 4 assms(2)]]) (simp_all add: assms(2) freed_def)
  qed
qed

text \<open>The datagram the client holds goes out.\<close>

lemma client_writes:
  "se_up s = UpWriting x \<Longrightarrow> se_wsOpen s \<Longrightarrow> \<exists>s'. own_step\<^sup>*\<^sup>* s s' \<and> se_up s' = UpRead \<and> se_fromUDP s' = se_fromUDP s"
  by (rule own_to [OF UpWrote]) simp_all

lemma client_flushes:
  assumes "lock_inv s" "se_wsOpen s" "se_up s \<noteq> UpExit"
  shows "\<exists>s'. own_step\<^sup>*\<^sup>* s s' \<and> se_up s' = UpRead \<and> se_fromUDP s' = se_fromUDP s"
proof (rule own_then [OF lock_freed [OF assms(1,2)]])
  fix t
  assume f: "freed s t"
  show "\<exists>s'. own_step\<^sup>*\<^sup>* t s' \<and> se_up s' = UpRead \<and> se_fromUDP s' = se_fromUDP s"
  proof (cases "se_up t")
    case UpRead
    with f show ?thesis by (intro exI [of _ t]) (simp add: freed_def)
  next
    case (UpLock x)
    let ?u = "t\<lparr>se_up := UpWriting x, se_lock := Some DataWriter\<rparr>"
    from f have "\<exists>s'. own_step\<^sup>*\<^sup>* t s' \<and> s' = ?u" by (intro own_to [OF UpLocked [OF UpLock]]) (simp_all add: freed_def)
    then show ?thesis
    proof (rule own_then)
      fix s'
      assume "s' = ?u"
      then show "\<exists>s''. own_step\<^sup>*\<^sup>* s' s'' \<and> se_up s'' = UpRead \<and> se_fromUDP s'' = se_fromUDP s"
        using client_writes [of s' x] f by (simp add: freed_def)
    qed
  next
    case (UpWriting x)
    with client_writes [OF this] f show ?thesis by (simp add: freed_def)
  next
    case UpExit
    with f assms(3) show ?thesis by (simp add: freed_def)
  qed
qed

text \<open>Everything under way arrives, and the server reads and forwards all of it.\<close>

lemma up_arrives:
  assumes "t_wsOpen (lk_tunnel l)" "list_all (\<lambda>m. length (snd m) \<le> wsReadLimit) (lk_up l)"
  shows "\<exists>t'. runs fl l (l\<lparr>lk_tunnel := t', lk_up := []\<rparr>) \<and> t_udpOpen t' = t_udpOpen (lk_tunnel l) \<and> t_ws t' = t_ws (lk_tunnel l)"
  using assms
proof (induction "lk_up l" arbitrary: l)
  case Nil
  then have "l\<lparr>lk_tunnel := lk_tunnel l, lk_up := []\<rparr> = l" by (cases l) simp
  then show ?case by (intro exI [of _ "lk_tunnel l"]) simp
next
  case (Cons m ms)
  let ?t = "(lk_tunnel l)\<lparr>t_wsIn := t_wsIn (lk_tunnel l) @ [m]\<rparr>"
  let ?l = "l\<lparr>lk_tunnel := ?t, lk_up := ms\<rparr>"
  have "length (snd m) \<le> wsReadLimit" using Cons.prems(2) Cons.hyps(2) by (metis list.pred_inject(2))
  then have "tun_step fl (lk_tunnel l) ?t 0" using WsArrive [of "lk_tunnel l" "snd m" fl "fst m"] Cons.prems(1) by simp
  from link_step.arrive_up [OF Cons.hyps(2) [symmetric] this] have s: "link_step fl False l ?l" by simp
  have "\<exists>t'. runs fl ?l (?l\<lparr>lk_tunnel := t', lk_up := []\<rparr>) \<and> t_udpOpen t' = t_udpOpen (lk_tunnel ?l) \<and> t_ws t' = t_ws (lk_tunnel ?l)"
    by (rule Cons.hyps(1)) (use Cons in \<open>auto dest: sym\<close>)
  then obtain t' where "runs fl ?l (l\<lparr>lk_tunnel := t', lk_up := []\<rparr>)" "t_udpOpen t' = t_udpOpen (lk_tunnel l)" "t_ws t' = t_ws (lk_tunnel l)" by auto
  with converse_rtranclp_into_rtranclp [where r = "link_step fl False", OF s] show ?case by blast
qed

lemma server_move:
  assumes "tun_step fl (lk_tunnel l) t' d" "length (t_wsIn t') \<le> length (t_wsIn (lk_tunnel l))" "t_toWS t' = t_toWS (lk_tunnel l)"
  shows "link_step fl False l (l\<lparr>lk_tunnel := t'\<rparr>)"
  using link_step.server [OF assms(1,2), of "[]"] assms(3) by auto

lemma server_forwards:
  assumes "t_udpOpen (lk_tunnel l)" "t_ws (lk_tunnel l) \<noteq> WsExit"
  shows "\<exists>t'. runs fl l (l\<lparr>lk_tunnel := t'\<rparr>) \<and> t_wsIn t' = [] \<and> t_ws t' = WsRead"
proof -
  have read: "\<exists>t'. runs fl l (l\<lparr>lk_tunnel := t'\<rparr>) \<and> t_wsIn t' = [] \<and> t_ws t' = WsRead"
    if "t_udpOpen (lk_tunnel l)" "t_ws (lk_tunnel l) = WsRead" for l
    using that
  proof (induction "t_wsIn (lk_tunnel l)" arbitrary: l)
    case Nil
    then show ?case by (intro exI [of _ "lk_tunnel l"]) simp
  next
    case (Cons m ms)
    let ?t = "lk_tunnel l"
    have in1: "t_wsIn ?t = (fst m, snd m) # ms" using Cons.hyps(2) by simp
    show ?case
    proof (cases "fst m")
      case False
      let ?l1 = "l\<lparr>lk_tunnel := ?t\<lparr>t_wsIn := ms\<rparr>\<rparr>"
      from WsSkip [of ?t "snd m" ms fl] in1 False Cons.prems(2) have "link_step fl False l ?l1" by (intro server_move) simp_all
      moreover have "\<exists>t'. runs fl ?l1 (?l1\<lparr>lk_tunnel := t'\<rparr>) \<and> t_wsIn t' = [] \<and> t_ws t' = WsRead"
        by (rule Cons.hyps(1)) (use Cons.prems in simp_all)
      ultimately show ?thesis by (auto intro: converse_rtranclp_into_rtranclp)
    next
      case True
      let ?a = "?t\<lparr>t_ws := WsGot (snd m), t_wsIn := ms, t_fromWS := t_fromWS ?t @ [snd m]\<rparr>"
      let ?b = "?a\<lparr>t_ws := WsRead, t_toUDP := t_toUDP ?a @ [snd m], t_bytesWGIn := t_bytesWGIn ?a + of_nat (length (snd m)),
        t_framesWGIn := t_framesWGIn ?a + 1\<rparr>"
      let ?la = "l\<lparr>lk_tunnel := ?a\<rparr>" and ?lb = "l\<lparr>lk_tunnel := ?b\<rparr>"
      from WsBinary [of ?t "snd m" ms fl] in1 True Cons.prems(2) have "link_step fl False l ?la" by (intro server_move) simp_all
      moreover from UdpWrote [of ?a "snd m" fl] Cons.prems(1) have "link_step fl False ?la (?la\<lparr>lk_tunnel := ?b\<rparr>)" by (intro server_move) simp_all
      ultimately have "runs fl l ?lb" by simp
      moreover have "\<exists>t'. runs fl ?lb (?lb\<lparr>lk_tunnel := t'\<rparr>) \<and> t_wsIn t' = [] \<and> t_ws t' = WsRead"
        by (rule Cons.hyps(1)) (use Cons.prems in simp_all)
      ultimately show ?thesis by (auto intro: rtranclp_trans)
    qed
  qed
  show ?thesis
  proof (cases "t_ws (lk_tunnel l)")
    case (WsGot x)
    let ?t = "lk_tunnel l"
    let ?b = "?t\<lparr>t_ws := WsRead, t_toUDP := t_toUDP ?t @ [x], t_bytesWGIn := t_bytesWGIn ?t + of_nat (length x), t_framesWGIn := t_framesWGIn ?t + 1\<rparr>"
    from UdpWrote [OF WsGot assms(1), of fl] have "link_step fl False l (l\<lparr>lk_tunnel := ?b\<rparr>)" by (intro server_move) simp_all
    moreover from read [of "l\<lparr>lk_tunnel := ?b\<rparr>"] assms(1) obtain t' where
      "runs fl (l\<lparr>lk_tunnel := ?b\<rparr>) (l\<lparr>lk_tunnel := t'\<rparr>)" "t_wsIn t' = []" "t_ws t' = WsRead" by auto
    ultimately show ?thesis by (auto intro: converse_rtranclp_into_rtranclp)
  qed (use read [of l] assms in simp_all)
qed

text \<open>No datagram the client takes is too big for the server to read.\<close>

definition size_inv :: "session \<Rightarrow> bool" where
  "size_inv s \<longleftrightarrow> list_all (\<lambda>x. length x \<le> wsReadMax) (se_fromUDP s)"

lemma size_step: "se_step ctx s s' \<Longrightarrow> size_inv s \<Longrightarrow> size_inv s'"
  by (cases rule: se_step.cases, assumption) (auto simp: size_inv_def session_defs split: if_splits)

interpretation sized: session_invariant size_inv
  by unfold_locales (simp add: size_inv_def new_session_def, rule size_step)

lemma only_data: "link_reach fl l \<Longrightarrow> list_all fst (lk_up l)"
proof (induction rule: link_reach.induct)
  case (step l ctx l')
  have up: "list_all fst (concat (map up_msg out))" for out by (induction out rule: datas.induct) auto
  from step.hyps(2) step.IH show ?case by cases (auto simp: up)
qed (simp add: dialled_link_def)

lemma link_sizes:
  assumes "link_reach fl l"
  shows "list_all (\<lambda>m. length (snd m) \<le> wsReadLimit) (lk_up l)"
proof -
  have "snd m \<in> set (se_fromUDP (lk_session l))" if "m \<in> set (lk_up l)" for m
  proof -
    from only_data [OF assms] that have "snd m \<in> set (data_in (lk_up l))" by (force simp: list_all_iff)
    with link_conserved [OF assms] have "snd m \<in> set (datas (se_toWS (lk_session l)))" by (auto simp: conserved_def)
    with up_prefix [OF upflow.on_link [OF assms]] show ?thesis by (auto simp: prefix_def)
  qed
  with sized.on_link [OF assms] show ?thesis
    by (fastforce simp: size_inv_def list_all_iff wsReadMax_def wsReadLimit_def)
qed

section \<open>The way back\<close>

text \<open>The datagram the server holds goes out, and everything under way arrives.\<close>

lemma server_flushes:
  assumes "t_wsOpen (lk_tunnel l)" "t_udp (lk_tunnel l) \<noteq> UdpExit"
  shows "\<exists>t' down. runs fl l (l\<lparr>lk_tunnel := t', lk_down := down\<rparr>) \<and> pending_udp (t_udp t') = [] \<and> t_udp t' \<noteq> UdpExit
     \<and> t_fromUDP t' = t_fromUDP (lk_tunnel l)"
proof (cases "pending_udp (t_udp (lk_tunnel l))")
  case Nil
  then show ?thesis by (intro exI [of _ "lk_tunnel l"] exI [of _ "lk_down l"]) (simp add: assms(2))
next
  case (Cons x xs)
  then have u: "t_udp (lk_tunnel l) = UdpWriting x" by (cases "t_udp (lk_tunnel l)") auto
  let ?t = "(lk_tunnel l)\<lparr>t_udp := UdpHead, t_toWS := t_toWS (lk_tunnel l) @ [Binary x],
       t_bytesWGOut := t_bytesWGOut (lk_tunnel l) + of_nat (length x), t_framesWGOut := t_framesWGOut (lk_tunnel l) + 1\<rparr>"
  have "link_step fl False l (l\<lparr>lk_tunnel := ?t, lk_down := lk_down l @ map down_msg [Binary x]\<rparr>)"
    by (rule link_step.server [OF WsWrote [OF u assms(1)]]) simp_all
  then show ?thesis by (intro exI [of _ ?t] exI conjI) (erule r_into_rtranclp, simp_all)
qed

lemma down_arrives:
  assumes "se_wsOpen (lk_session l)"
  shows "\<exists>ms. runs fl l (l\<lparr>lk_session := (lk_session l)\<lparr>se_wsIn := ms\<rparr>, lk_down := []\<rparr>)"
  using assms
proof (induction "lk_down l" arbitrary: l)
  case Nil
  then have "l\<lparr>lk_session := (lk_session l)\<lparr>se_wsIn := se_wsIn (lk_session l)\<rparr>, lk_down := []\<rparr> = l" by (cases l) simp
  then show ?case by (intro exI [of _ "se_wsIn (lk_session l)"]) simp
next
  case (Cons m ms)
  let ?l = "l\<lparr>lk_session := (lk_session l)\<lparr>se_wsIn := se_wsIn (lk_session l) @ [m]\<rparr>, lk_down := ms\<rparr>"
  from link_step.arrive_down [OF Cons.hyps(2) [symmetric] Arrive [OF Cons.prems]] have s: "link_step fl False l ?l" .
  from Cons.hyps(1) [of ?l] Cons.prems obtain ns where "runs fl ?l (l\<lparr>lk_session := (lk_session l)\<lparr>se_wsIn := ns\<rparr>, lk_down := []\<rparr>)" by auto
  with converse_rtranclp_into_rtranclp [where r = "link_step fl False", OF s] show ?case by blast
qed

text \<open>A datagram waiting for the peer can pick it up from the channel.\<close>

definition wait_inv :: "session \<Rightarrow> bool" where
  "wait_inv s \<longleftrightarrow> (\<forall>x. se_rd s = RdWait x \<longrightarrow> se_peerCh s = se_wgPeer s) \<and> (se_peerCh s = None \<or> se_peerCh s = se_wgPeer s)"

lemma wait_step:
  assumes "se_step ctx s s'" "wait_inv s"
  shows "wait_inv s'"
  using assms(1)
proof cases
  case (UpData x p)
  then show ?thesis using assms(2) by (cases "se_wgPeer s"; cases "se_peerCh s") (simp_all add: wait_inv_def note_peer_def)
qed (use assms(2) in \<open>simp_all add: wait_inv_def give_up_def\<close>)

interpretation waiting: session_invariant wait_inv
  by unfold_locales (simp add: wait_inv_def new_session_def, rule wait_step)

text \<open>The reader, with the mutex free and the peer known, is done with what it holds.\<close>

definition reading :: "string \<Rightarrow> session \<Rightarrow> bool" where
  "reading p s \<longleftrightarrow> se_lock s = None \<and> se_wsOpen s \<and> se_wgPeer s = Some p"

definition handed :: "string \<Rightarrow> in_msg list \<Rightarrow> session \<Rightarrow> session \<Rightarrow> bool" where
  "handed p ms s s' \<longleftrightarrow> reading p s' \<and> se_rd s' = RdRead \<and> se_wsIn s' = ms
     \<and> (\<exists>xs. se_down s' = se_down s @ map (\<lambda>x. (x, Some p)) xs)"

lemma sends:
  assumes "reading p s" "se_rd s = RdSend x"
  shows "\<exists>s'. own_step\<^sup>*\<^sup>* s s' \<and> handed p (se_wsIn s) s s'"
proof -
  obtain first m where m: "markDown (length x) 0 (se_metrics s) = (first, m)" by (cases "markDown (length x) 0 (se_metrics s)")
  from assms(1) have "se_wgPeer s = Some p" by (simp add: reading_def)
  from RdSent [OF assms(2) this m] show ?thesis
    by (rule own_to) (use assms in \<open>auto simp: handed_def reading_def intro: exI [of _ "[x]"]\<close>)
qed

lemma finishes:
  assumes "reading p s" "se_rd s \<noteq> RdExit" "\<And>x. se_rd s = RdWait x \<Longrightarrow> se_peerCh s = Some p"
  shows "\<exists>s'. own_step\<^sup>*\<^sup>* s s' \<and> handed p (se_wsIn s) s s'"
proof (cases "se_rd s")
  case RdRead
  with assms(1) show ?thesis by (intro exI [of _ s]) (simp add: handed_def exI [of _ "[]"])
next
  case (RdPong d)
  let ?u = "s\<lparr>se_rd := RdPonging d, se_lock := Some PongWriter\<rparr>"
  from assms(1) have "\<exists>s'. own_step\<^sup>*\<^sup>* s s' \<and> s' = ?u" by (intro own_to [OF PongLocked [OF RdPong]]) (simp_all add: reading_def)
  then show ?thesis
  proof (rule own_then)
    fix s'
    assume "s' = ?u"
    then show "\<exists>s''. own_step\<^sup>*\<^sup>* s' s'' \<and> handed p (se_wsIn s) s s''"
      using assms(1) by (intro own_to [OF PongWrote [of _ d]]) (auto simp: handed_def reading_def intro: exI [of _ "[]"])
  qed
next
  case (RdPonging d)
  then show ?thesis using assms(1)
    by (intro own_to [OF PongWrote [OF RdPonging]]) (auto simp: handed_def reading_def intro: exI [of _ "[]"])
next
  case (RdGot x)
  let ?u = "s\<lparr>se_rd := RdSend x\<rparr>"
  from assms(1) have "\<exists>s'. own_step\<^sup>*\<^sup>* s s' \<and> s' = ?u" by (intro own_to [OF RdPeer [OF RdGot]]) (simp_all add: reading_def)
  then show ?thesis
  proof (rule own_then)
    fix s'
    assume "s' = ?u"
    then show "\<exists>s''. own_step\<^sup>*\<^sup>* s' s'' \<and> handed p (se_wsIn s) s s''"
      using sends [of p s' x] assms(1) by (simp add: handed_def reading_def)
  qed
next
  case (RdWait x)
  let ?u = "s\<lparr>se_rd := RdSend x, se_wgPeer := Some p, se_peerCh := None\<rparr>"
  have "\<exists>s'. own_step\<^sup>*\<^sup>* s s' \<and> s' = ?u" by (intro own_to [OF RdChan [OF RdWait assms(3) [OF RdWait]]]) simp_all
  then show ?thesis
  proof (rule own_then)
    fix s'
    assume "s' = ?u"
    then show "\<exists>s''. own_step\<^sup>*\<^sup>* s' s'' \<and> handed p (se_wsIn s) s s''"
      using sends [of p s' x] assms(1) by (simp add: handed_def reading_def)
  qed
next
  case (RdSend x)
  with sends [OF assms(1)] show ?thesis by simp
qed (use assms(2) in simp)

lemma handed_trans: "handed p ms s s' \<Longrightarrow> handed p ns s' s'' \<Longrightarrow> handed p ns s s''"
  by (auto simp: handed_def) (metis map_append)

lemma empties:
  assumes "reading p s" "se_rd s = RdRead"
  shows "\<exists>s'. own_step\<^sup>*\<^sup>* s s' \<and> handed p [] s s'"
  using assms
proof (induction "se_wsIn s" arbitrary: s)
  case Nil
  then show ?case by (intro exI [of _ s]) (simp add: handed_def exI [of _ "[]"])
next
  case (Cons m ms)
  have one: "\<exists>s'. own_step\<^sup>*\<^sup>* s s' \<and> handed p ms s s'"
  proof (cases m)
    case (InBinary x)
    let ?u = "s\<lparr>se_rd := RdGot x, se_wsIn := ms, se_fromWS := se_fromWS s @ [x]\<rparr>"
    have "\<exists>s'. own_step\<^sup>*\<^sup>* s s' \<and> s' = ?u"
      by (intro own_to [OF RdBinary [OF Cons.prems(2)]]) (simp_all add: InBinary Cons.hyps(2) [symmetric])
    then show ?thesis
    proof (rule own_then)
      fix s'
      assume "s' = ?u"
      then show "\<exists>s''. own_step\<^sup>*\<^sup>* s' s'' \<and> handed p ms s s''"
        using finishes [of p s'] Cons.prems(1) by (simp add: handed_def reading_def)
    qed
  next
    case (InPing d)
    let ?u = "s\<lparr>se_rd := RdPong d, se_wsIn := ms\<rparr>"
    have "\<exists>s'. own_step\<^sup>*\<^sup>* s s' \<and> s' = ?u"
      by (intro own_to [OF RdPinged [OF Cons.prems(2)]]) (simp_all add: InPing Cons.hyps(2) [symmetric])
    then show ?thesis
    proof (rule own_then)
      fix s'
      assume "s' = ?u"
      then show "\<exists>s''. own_step\<^sup>*\<^sup>* s' s'' \<and> handed p ms s s''"
        using finishes [of p s'] Cons.prems(1) by (simp add: handed_def reading_def)
    qed
  next
    case InOther
    show ?thesis
      by (rule own_to [OF RdSkip [OF Cons.prems(2)]])
        (use Cons.prems in \<open>auto simp: InOther Cons.hyps(2) [symmetric] handed_def reading_def intro: exI [of _ "[]"]\<close>)
  qed
  then show ?case
  proof (rule own_then)
    fix s'
    assume h: "handed p ms s s'"
    then have "\<exists>s''. own_step\<^sup>*\<^sup>* s' s'' \<and> handed p [] s' s''" by (intro Cons.hyps(1)) (auto simp: handed_def)
    with handed_trans [OF h] show "\<exists>s''. own_step\<^sup>*\<^sup>* s' s'' \<and> handed p [] s s''" by blast
  qed
qed

lemma up_delivers:
  assumes "link_reach fl l" "\<not> se_done (lk_session l)" "\<not> t_done (lk_tunnel l)"
  shows "\<exists>l'. runs fl l l' \<and> se_fromUDP (lk_session l') = se_fromUDP (lk_session l)
    \<and> t_toUDP (lk_tunnel l') = se_fromUDP (lk_session l)"
proof -
  have e: "se_wsOpen (lk_session l)" "se_up (lk_session l) \<noteq> UpExit" "t_wsOpen (lk_tunnel l)" "t_udpOpen (lk_tunnel l)" "t_ws (lk_tunnel l) \<noteq> WsExit"
    using ending.on_link [OF assms(1)] life.on_link [OF assms(1)] assms(2,3) by (auto simp: end_inv_def life_inv_def)
  from client_flushes [OF lock.on_link [OF assms(1)] e(1,2)] obtain s1 where
    o: "own_step\<^sup>*\<^sup>* (lk_session l) s1" and s1: "se_up s1 = UpRead" "se_fromUDP s1 = se_fromUDP (lk_session l)" by blast
  from own_runs [OF o] obtain up where r1: "runs fl l (l\<lparr>lk_session := s1, lk_up := up\<rparr>)" by blast
  let ?l1 = "l\<lparr>lk_session := s1, lk_up := up\<rparr>"
  from up_arrives [of ?l1 fl] link_sizes [OF runs_reach [OF r1 assms(1)]] e obtain t2 where
    r2: "runs fl ?l1 (?l1\<lparr>lk_tunnel := t2, lk_up := []\<rparr>)" and t2: "t_udpOpen t2" "t_ws t2 \<noteq> WsExit" by auto
  let ?l2 = "?l1\<lparr>lk_tunnel := t2, lk_up := []\<rparr>"
  from server_forwards [of ?l2 fl] t2 obtain t3 where
    r3: "runs fl ?l2 (?l2\<lparr>lk_tunnel := t3\<rparr>)" and t3: "t_wsIn t3 = []" "t_ws t3 = WsRead" by auto
  let ?l3 = "?l2\<lparr>lk_tunnel := t3\<rparr>"
  have r: "runs fl l ?l3" by (rule rtranclp_trans [OF rtranclp_trans [OF r1 r2] r3])
  note l3 = runs_reach [OF r assms(1)]
  have "t_fromWS t3 = t_toUDP t3" using tows.on_link [OF l3] t3(2) by (simp add: ws_inv_def)
  moreover have "datas (se_toWS s1) = t_fromWS t3" using link_conserved [OF l3] t3(1) by (simp add: conserved_def)
  moreover have "se_fromUDP s1 = datas (se_toWS s1)" using upflow.on_link [OF l3] s1(1) by (simp add: up_flow_def)
  ultimately show ?thesis using r s1(2) by (intro exI [of _ ?l3]) simp
qed

lemma down_delivers:
  assumes "link_reach fl l" "\<not> se_done (lk_session l)" "\<not> t_done (lk_tunnel l)" "se_wgPeer (lk_session l) = Some p"
  shows "\<exists>l' xs. runs fl l l' \<and> t_fromUDP (lk_tunnel l') = t_fromUDP (lk_tunnel l)
    \<and> se_down (lk_session l') = se_down (lk_session l) @ map (\<lambda>x. (x, Some p)) xs
    \<and> map fst (se_down (lk_session l')) = t_fromUDP (lk_tunnel l)"
proof -
  let ?s = "lk_session l"
  have e: "se_wsOpen ?s" "se_rd ?s \<noteq> RdExit" "t_wsOpen (lk_tunnel l)" "t_udp (lk_tunnel l) \<noteq> UdpExit"
    using ending.on_link [OF assms(1)] life.on_link [OF assms(1)] assms(2,3) by (auto simp: end_inv_def life_inv_def)
  from server_flushes [OF e(3,4), of fl] obtain t1 down where r1: "runs fl l (l\<lparr>lk_tunnel := t1, lk_down := down\<rparr>)"
    and t1: "pending_udp (t_udp t1) = []" "t_udp t1 \<noteq> UdpExit" "t_fromUDP t1 = t_fromUDP (lk_tunnel l)" by blast
  let ?l1 = "l\<lparr>lk_tunnel := t1, lk_down := down\<rparr>"
  from down_arrives [of ?l1 fl] e(1) obtain ms where
    r2: "runs fl ?l1 (l\<lparr>lk_tunnel := t1, lk_session := ?s\<lparr>se_wsIn := ms\<rparr>, lk_down := []\<rparr>)" by auto
  let ?s2 = "?s\<lparr>se_wsIn := ms\<rparr>"
  let ?l2 = "l\<lparr>lk_tunnel := t1, lk_session := ?s2, lk_down := []\<rparr>"
  have lk: "lock_inv ?s2" "wait_inv ?s2"
    using lock.on_link [OF assms(1)] waiting.on_link [OF assms(1)] by (simp_all add: lock_inv_def wait_inv_def)
  have "\<exists>s'. own_step\<^sup>*\<^sup>* ?s2 s' \<and> handed p [] ?s s'"
  proof (rule own_then [OF lock_freed [OF lk(1)]])
    fix s3
    assume f: "freed ?s2 s3"
    then have r: "reading p s3" "se_down s3 = se_down ?s" using assms(4) by (simp_all add: freed_def reading_def)
    have w: "se_peerCh s3 = Some p" if "se_rd s3 = RdWait x" for x
    proof -
      from f that have "se_rd ?s2 = RdWait x" "se_peerCh s3 = se_peerCh ?s2" by (auto simp: freed_def)
      with lk(2) assms(4) show ?thesis by (simp add: wait_inv_def)
    qed
    have x: "se_rd s3 \<noteq> RdExit" using f e(2) by (auto simp: freed_def)
    from finishes [OF r(1) x w] show "\<exists>s'. own_step\<^sup>*\<^sup>* s3 s' \<and> handed p [] ?s s'"
    proof (rule own_then)
      fix s4
      assume h: "handed p (se_wsIn s3) s3 s4"
      then obtain s5 where "own_step\<^sup>*\<^sup>* s4 s5" "handed p [] s4 s5" using empties [of p s4] by (auto simp: handed_def)
      with handed_trans [OF h] r(2) show "\<exists>s'. own_step\<^sup>*\<^sup>* s4 s' \<and> handed p [] ?s s'" by (auto simp: handed_def)
    qed
  qed (simp add: e(1))
  then obtain s' where o: "own_step\<^sup>*\<^sup>* ?s2 s'" and h: "handed p [] ?s s'" by blast
  from own_runs [of ?l2 s' fl] o obtain up where r3: "runs fl ?l2 (?l2\<lparr>lk_session := s', lk_up := up\<rparr>)" by auto
  let ?l3 = "?l2\<lparr>lk_session := s', lk_up := up\<rparr>"
  have r: "runs fl l ?l3" by (rule rtranclp_trans [OF rtranclp_trans [OF r1 r2] r3])
  note l3 = runs_reach [OF r assms(1)]
  have "t_fromUDP t1 = binaries (t_toWS t1)" using toudp.on_link [OF l3] t1(1,2) by (simp add: udp_inv_def)
  moreover have "binaries (t_toWS t1) = se_fromWS s'" using link_conserved [OF l3] h by (simp add: conserved_def handed_def)
  moreover have "se_fromWS s' = map fst (se_down s')" using rdflow.on_link [OF l3] h by (simp add: rd_flow_def handed_def)
  moreover obtain xs where "se_down s' = se_down ?s @ map (\<lambda>x. (x, Some p)) xs" using h by (auto simp: handed_def)
  ultimately show ?thesis using r t1(3) by (intro exI [of _ ?l3] exI [of _ xs]) simp
qed


section \<open>Witnesses\<close>

lemma sample_link: "\<exists>t. link_reach fl (dialled_link sample_sid t) \<and> \<not> t_done t \<and> t_toUDP t = []"
proof -
  let ?r = "dial_request [] ''h'' ''tok'' sample_sid"
  obtain t where t: "sv_tunnels (handleTunnel True True True (Some ''EfGh'') 0 ?r sv_init) = [] @ [t]"
    by (simp add: handleTunnel_def Let_def sv_init_def)
  have e: "entropy_given (Some ''AbCd'', 0)" "entropy_given (Some ''EfGh'', 0)" by (simp_all add: entropy_given_def)
  from opened_link [OF e t [unfolded sample_sid_def]] have "\<not> t_done t \<and> t_toUDP t = []" by (auto simp: opened_def newTunnel_def)
  with link_reach.start [OF e t [unfolded sample_sid_def], of fl] show ?thesis by (auto simp: sample_sid_def)
qed

text \<open>The local WireGuard sends a datagram.\<close>

definition sample_greeting :: session where
  "sample_greeting = note_peer ''wg0'' ((new_session sample_sid)\<lparr>se_up := UpLock ''hello'', se_fromUDP := [''hello'']\<rparr>)"

lemma sample_takes: "link_step fl False (dialled_link sample_sid t) ((dialled_link sample_sid t)\<lparr>lk_session := sample_greeting\<rparr>)"
proof -
  let ?l = "dialled_link sample_sid t"
  have "se_step False (lk_session ?l) (note_peer ''wg0'' ((lk_session ?l)\<lparr>se_up := UpLock ''hello'', se_fromUDP := se_fromUDP (lk_session ?l) @ [''hello'']\<rparr>))"
    by (rule UpData) (simp_all add: dialled_link_def new_session_def wsReadMax_def)
  then have "se_step False (lk_session ?l) sample_greeting" by (simp add: sample_greeting_def dialled_link_def new_session_def)
  from link_step.client [OF this, of "[]" fl] show ?thesis
    by (simp add: sample_greeting_def dialled_link_def new_session_def note_peer_def)
qed



end
