(* ===== verification/Server_Main.thy ===== *)
theory Server_Main
  imports Server_Tunnel
begin

text \<open>
  \<open>main\<close> of \<open>server/main.go\<close>: the flags and their defaults, the start-up check, and how a request
  finds its handler. \<open>http.ServeMux\<close> is written out for the three patterns registered (\<open>/tunnel\<close>,
  \<open>/healthz\<close>, \<open>/\<close>), with the cleaning of paths it does before matching (paths without percent escapes; a
  redirect is sent with status 301, its body is left out). Listening and the log line of the start
  are not modelled.
\<close>

section \<open>Flags\<close>

record server_options = server_flags +
  so_listenAddr :: string
  so_wgTarget :: string
  so_pingInterval :: int
  so_pongTimeout :: int
  so_maxAge :: int

definition second :: int where "second = 1000000000"

definition default_options :: server_options where
  "default_options = \<lparr>fl_managerURL = [], fl_statsInterval = 60 * second, fl_udpIdleLog = 5 * 60 * second,
     so_listenAddr = ''127.0.0.1:8888'', so_wgTarget = ''127.0.0.1:51820'', so_pingInterval = 30 * second,
     so_pongTimeout = 90 * second, so_maxAge = 24 * 60 * 60 * second\<rparr>"

text \<open>\<open>None\<close> is \<open>log.Fatal\<close>; otherwise the address listened on.\<close>

definition server_main :: "server_options \<Rightarrow> string option" where
  "server_main so = (if \<not> checkStatsInterval (fl_statsInterval so) then None else Some (so_listenAddr so))"

section \<open>Paths\<close>

text \<open>\<open>path.Clean\<close> of a rooted path, on its elements: empty ones and dots go, a double dot takes
  the element before it along.\<close>

fun segments :: "string \<Rightarrow> string list" where
  "segments [] = [[]]"
| "segments (c # cs) = (if c = CHR ''/'' then [] # segments cs
     else (case segments cs of [] \<Rightarrow> [[c]] | s # ss \<Rightarrow> (c # s) # ss))"

fun reduce :: "string list \<Rightarrow> string list \<Rightarrow> string list" where
  "reduce done [] = rev done"
| "reduce done (s # ss) =
     (if s = [] \<or> s = ''.'' then reduce done ss
      else if s = ''..'' then reduce (tl done) ss
      else reduce (s # done) ss)"

fun rooted :: "string list \<Rightarrow> string" where
  "rooted [] = []" | "rooted (s # ss) = CHR ''/'' # s @ rooted ss"

definition path_Clean :: "string \<Rightarrow> string" where
  "path_Clean p = (let r = rooted (reduce [] (segments p)) in if r = [] then ''/'' else r)"

definition cleanPath :: "string \<Rightarrow> string" where
  "cleanPath p0 = (if p0 = [] then ''/''
     else (let p = (if hd p0 \<noteq> CHR ''/'' then CHR ''/'' # p0 else p0); np = path_Clean p
           in if last p = CHR ''/'' \<and> np \<noteq> ''/'' then np @ ''/'' else np))"

section \<open>Requests\<close>

datatype endpoint = TunnelHandler | HealthHandler | NotFoundHandler | Redirect string

definition mux_route :: "string \<Rightarrow> string \<Rightarrow> endpoint" where
  "mux_route meth p =
     (if meth \<noteq> ''CONNECT'' \<and> cleanPath p \<noteq> p then Redirect (cleanPath p)
      else if p = ''/tunnel'' then TunnelHandler
      else if p = ''/healthz'' then HealthHandler
      else NotFoundHandler)"

text \<open>What a request does: the state afterwards, and the reply unless the socket was upgraded.\<close>

definition serve_request :: "string \<Rightarrow> string \<Rightarrow> bool \<Rightarrow> bool \<Rightarrow> bool \<Rightarrow> string option \<Rightarrow> 64 word \<Rightarrow> tunnel_request \<Rightarrow> server
    \<Rightarrow> (nat \<times> string) option \<times> server" where
  "serve_request meth p up res dial rnd nanos r s = (case mux_route meth p of
     Redirect q \<Rightarrow> (Some (301, q), s)
   | TunnelHandler \<Rightarrow> (None, handleTunnel up res dial rnd nanos r s)
   | HealthHandler \<Rightarrow> (Some (200, handleHealth s), s)
   | NotFoundHandler \<Rightarrow> (Some (404, ''not found'' @ [CHR 0x0A]), s))"

section \<open>Cleaning once is enough\<close>

definition element :: "string \<Rightarrow> bool" where
  "element s \<longleftrightarrow> s \<noteq> [] \<and> s \<noteq> ''.'' \<and> s \<noteq> ''..'' \<and> CHR ''/'' \<notin> set s"

lemma segments_nonempty [simp]: "segments p \<noteq> []"
  by (induction p) (auto split: list.splits)

lemma segments_no_slash: "s \<in> set (segments p) \<Longrightarrow> CHR ''/'' \<notin> set s"
  by (induction p arbitrary: s) (auto split: list.splits if_splits)

lemma reduce_elements: "list_all element d \<Longrightarrow> list_all (\<lambda>s. CHR ''/'' \<notin> set s) ss \<Longrightarrow> list_all element (reduce d ss)"
proof (induction d ss rule: reduce.induct)
  case (1 d)
  then show ?case by (simp add: list_all_iff)
next
  case (2 d s ss)
  have rest: "list_all (\<lambda>s. CHR ''/'' \<notin> set s) ss" "CHR ''/'' \<notin> set s" using 2(5) by simp_all
  consider "s = [] \<or> s = ''.''" | "\<not> (s = [] \<or> s = ''.'')" "s = ''..''" | "\<not> (s = [] \<or> s = ''.'')" "s \<noteq> ''..''" by blast
  then show ?case
  proof cases
    case 1
    from 2(1) [OF 1 2(4) rest(1)] 1 show ?thesis by simp
  next
    case dd: 2
    have "list_all element (tl d)" using 2(4) by (cases d) simp_all
    from 2(2) [OF dd this rest(1)] dd show ?thesis by simp
  next
    case 3
    have "element s" using 3 rest(2) by (simp add: element_def)
    then have "list_all element (s # d)" using 2(4) by simp
    from 2(3) [OF 3 this rest(1)] 3 show ?thesis by simp
  qed
qed

lemma segments_append: "CHR ''/'' \<notin> set s \<Longrightarrow> segments (s @ CHR ''/'' # r) = s # segments r"
  by (induction s) auto

lemma segments_plain: "CHR ''/'' \<notin> set s \<Longrightarrow> segments s = [s]"
  by (induction s) auto

lemma segments_rooted: "list_all element (e # es) \<Longrightarrow> segments (rooted (e # es)) = [] # e # es"
proof (induction es arbitrary: e)
  case Nil
  then show ?case by (simp add: element_def segments_plain)
next
  case (Cons f es)
  from Cons.IH [of f] Cons.prems have "segments (rooted (f # es)) = [] # f # es" by simp
  then have "segments (f @ rooted es) = f # es" by simp
  with Cons.prems show ?case by (simp add: element_def segments_append)
qed

lemma segments_slash: "segments (p @ ''/'') = segments p @ [[]]"
proof (induction p)
  case (Cons c p)
  then show ?case by (cases "segments p") simp_all
qed simp

lemma reduce_done: "list_all element es \<Longrightarrow> reduce d es = rev d @ es"
  by (induction es arbitrary: d) (simp_all add: element_def)

lemma reduce_snoc: "reduce d (ss @ [[]]) = reduce d ss"
  by (induction d ss rule: reduce.induct) simp_all

lemma rooted_last: "list_all element (e # es) \<Longrightarrow> last (rooted (e # es)) \<noteq> CHR ''/''"
proof (induction es arbitrary: e)
  case Nil
  then have "e \<noteq> []" "CHR ''/'' \<notin> set e" by (simp_all add: element_def)
  then show ?case by (metis append_Nil2 last_ConsR last_in_set rooted.simps)
next
  case (Cons f es)
  then show ?case using Cons.IH [of f] by simp
qed

text \<open>A cleaned path is the root, or elements with or without a slash at the end.\<close>

lemma cleanPath_cases:
  obtains "cleanPath p = ''/''" | e es where "list_all element (e # es)" "cleanPath p = rooted (e # es) \<or> cleanPath p = rooted (e # es) @ ''/''"
proof -
  define q where "q = (if hd p \<noteq> CHR ''/'' then CHR ''/'' # p else p)"
  have el: "list_all element (reduce [] (segments q))" by (rule reduce_elements) (auto simp: list_all_iff dest: segments_no_slash)
  show ?thesis
  proof (cases "reduce [] (segments q)")
    case Nil
    then have "cleanPath p = ''/''" by (simp add: cleanPath_def q_def [symmetric] path_Clean_def Let_def)
    with that(1) show ?thesis .
  next
    case (Cons e es)
    then have "path_Clean q = rooted (e # es)" by (simp add: path_Clean_def Let_def)
    then have "cleanPath p = ''/'' \<or> cleanPath p = rooted (e # es) \<or> cleanPath p = rooted (e # es) @ ''/''"
      by (auto simp: cleanPath_def q_def [symmetric] Let_def)
    with that el Cons show ?thesis by auto
  qed
qed

lemma cleanPath_clean: "cleanPath (cleanPath p) = cleanPath p"
proof (cases p rule: cleanPath_cases)
  case 1
  then show ?thesis by (simp add: cleanPath_def path_Clean_def)
next
  case (2 e es)
  have "reduce [] ([] # e # es) = reduce [] (e # es)" by (subst reduce.simps) simp
  also have "\<dots> = e # es" using reduce_done [OF 2(1), of "[]"] by simp
  finally have r: "reduce [] (segments (rooted (e # es))) = e # es"
      "reduce [] (segments (rooted (e # es) @ ''/'')) = e # es"
    by (simp_all only: segments_slash reduce_snoc segments_rooted [OF 2(1)])
  have p: "path_Clean (rooted (e # es)) = rooted (e # es)" "path_Clean (rooted (e # es) @ ''/'') = rooted (e # es)"
    unfolding path_Clean_def r by simp_all
  have n: "rooted (e # es) \<noteq> ''/''" using 2(1) by (auto simp: element_def)
  have h: "hd (rooted (e # es)) = CHR ''/''" "rooted (e # es) \<noteq> []" by simp_all
  from 2(2) show ?thesis
  proof
    assume "cleanPath p = rooted (e # es)"
    moreover have "cleanPath (rooted (e # es)) = rooted (e # es)"
      using p(1) rooted_last [OF 2(1)] by (simp add: cleanPath_def Let_def)
    ultimately show ?thesis by simp
  next
    assume "cleanPath p = rooted (e # es) @ ''/''"
    moreover have "cleanPath (rooted (e # es) @ ''/'') = rooted (e # es) @ ''/''"
      using p(2) n by (simp add: cleanPath_def Let_def)
    ultimately show ?thesis by simp
  qed
qed

section \<open>Every request\<close>

lemma route_clean: "mux_route meth (cleanPath p) \<noteq> Redirect q"
  by (simp add: mux_route_def cleanPath_clean)

lemma fixed_paths: "cleanPath ''/tunnel'' = ''/tunnel''" "cleanPath ''/healthz'' = ''/healthz''"
  by (simp_all add: cleanPath_def path_Clean_def)

lemma health_body: "sv_reach fl s \<Longrightarrow> handleHealth s = ''ok active='' @ dec (live (sv_tunnels s)) @ [CHR 0x0A]"
  by (simp add: handleHealth_def active_live)

lemma serve_cases:
  obtains (tunnel) "p = ''/tunnel''"
      "serve_request meth p up res dial rnd nanos r s = (None, handleTunnel up res dial rnd nanos r s)"
    | (health) "p = ''/healthz''" "serve_request meth p up res dial rnd nanos r s = (Some (200, handleHealth s), s)"
    | (missing) "p \<noteq> ''/tunnel''" "p \<noteq> ''/healthz''"
      "serve_request meth p up res dial rnd nanos r s = (Some (404, ''not found'' @ [CHR 0x0A]), s)"
    | (elsewhere) "p \<noteq> ''/tunnel''" "p \<noteq> ''/healthz''" "cleanPath p \<noteq> p"
      "serve_request meth p up res dial rnd nanos r s = (Some (301, cleanPath p), s)"
proof (cases "meth \<noteq> ''CONNECT'' \<and> cleanPath p \<noteq> p")
  case True
  then have "p \<noteq> ''/tunnel''" "p \<noteq> ''/healthz''" using fixed_paths by auto
  with True show thesis by (intro elsewhere) (simp_all add: serve_request_def mux_route_def)
next
  case False
  then have m: "mux_route meth p = (if p = ''/tunnel'' then TunnelHandler else if p = ''/healthz'' then HealthHandler else NotFoundHandler)"
    unfolding mux_route_def by (rule if_not_P)
  consider "p = ''/tunnel''" | "p = ''/healthz''" | "p \<noteq> ''/tunnel''" "p \<noteq> ''/healthz''" by blast
  then show thesis
  proof cases
    case 1
    with m show thesis by (intro tunnel) (simp_all add: serve_request_def)
  next
    case 2
    with m show thesis by (intro health) (simp_all add: serve_request_def)
  next
    case 3
    with m show thesis by (intro missing) (simp_all add: serve_request_def)
  qed
qed

text \<open>
  (C33) Every request of a running server, whatever its method, path and headers: it leads to a
  state the server can be in; only a request for exactly \<open>/tunnel\<close> changes anything, and then as
  \<open>handleTunnel\<close> does; \<open>/healthz\<close> answers with the number of tunnels still open; a redirect
  goes to a path that is not redirected again, so no request loops; everything else is answered 404.
\<close>

theorem every_request_routed:
  assumes "sv_reach fl s" "entropy_given (rnd, nanos)" "serve_request meth p up res dial rnd nanos r s = (reply, s')"
  shows "sv_reach fl s' \<and>
    (if p = ''/tunnel'' then reply = None \<and> s' = handleTunnel up res dial rnd nanos r s
     else s' = s \<and>
       (if p = ''/healthz'' then reply = Some (200, ''ok active='' @ dec (length (filter (\<lambda>t. \<not> t_done t) (sv_tunnels s))) @ [CHR 0x0A])
        else reply = Some (404, ''not found'' @ [CHR 0x0A])
          \<or> (\<exists>q. reply = Some (301, q) \<and> q \<noteq> p \<and> (\<forall>again. mux_route meth q \<noteq> Redirect again))))"
proof (cases meth p up res dial rnd nanos r s rule: serve_cases)
  case tunnel
  then show ?thesis using assms sv_reach.opened [OF assms(1,2)] by auto
next
  case health
  with assms(3) have "reply = Some (200, handleHealth s)" "s' = s" by simp_all
  with health health_body [OF assms(1)] assms(1) show ?thesis by simp
next
  case missing
  then show ?thesis using assms by simp
next
  case elsewhere
  then show ?thesis using assms route_clean by auto
qed

theorem every_request_routed_witness:
  "\<exists>s'. serve_request ''GET'' ''/x/..//tunnel'' True True True (Some ''EfGh'') 0
      \<lparr>tr_cfIP = [], tr_remote = ''1.2.3.4:5'', tr_token = [], tr_session = []\<rparr> sample_server
        = (Some (301, ''/tunnel''), s')
      \<and> sv_reach sample_flags s' \<and> s' = sample_server"
proof -
  have e: "entropy_given (Some ''EfGh'', 0)" by (simp add: entropy_given_def)
  have q: "serve_request ''GET'' ''/x/..//tunnel'' True True True (Some ''EfGh'') 0
      \<lparr>tr_cfIP = [], tr_remote = ''1.2.3.4:5'', tr_token = [], tr_session = []\<rparr> sample_server
        = (Some (301, ''/tunnel''), sample_server)"
    by (simp add: serve_request_def mux_route_def cleanPath_def path_Clean_def)
  from every_request_routed [OF sample_reach [of sample_flags] e q] q show ?thesis by simp
qed

end
