(* ===== verification/Data_Plane.thy ===== *)
theory Data_Plane
  imports Observability
begin

text \<open>
  The data-plane state of \<open>client/observability.go\<close> as an ordered type: the four texts
  \<open>dataPlaneState\<close> can report are four stages of a session, and with a clock that does not run
  backwards a session only moves forward through them.
\<close>

section \<open>The stages\<close>

datatype stage = Quiet | OneWay | NoReturn | BothWays

fun stage_rank :: "stage \<Rightarrow> nat" where
  "stage_rank Quiet = 0" | "stage_rank OneWay = 1" | "stage_rank NoReturn = 2" | "stage_rank BothWays = 3"

lemma stage_rank_inject: "stage_rank a = stage_rank b \<longleftrightarrow> a = b"
  by (cases a; cases b) simp_all

instantiation stage :: linorder
begin

definition less_eq_stage :: "stage \<Rightarrow> stage \<Rightarrow> bool" where
  "less_eq_stage a b \<longleftrightarrow> stage_rank a \<le> stage_rank b"

definition less_stage :: "stage \<Rightarrow> stage \<Rightarrow> bool" where
  "less_stage a b \<longleftrightarrow> stage_rank a < stage_rank b"

instance
  by standard (auto simp: less_eq_stage_def less_stage_def stage_rank_inject)

end

fun stage_text :: "stage \<Rightarrow> string" where
  "stage_text Quiet = stateControlConnected" | "stage_text OneWay = stateLocalWgPacketSeen"
| "stage_text NoReturn = stateNoReturnTraffic" | "stage_text BothWays = stateBidirectionalSeen"

lemma stage_text_inject: "stage_text a = stage_text b \<longleftrightarrow> a = b"
  by (cases a; cases b) (simp_all add: stateControlConnected_def stateLocalWgPacketSeen_def stateNoReturnTraffic_def stateBidirectionalSeen_def)

definition stage_of :: "tunnelMetrics \<Rightarrow> 64 word \<Rightarrow> stage" where
  "stage_of m now =
     (if firstUpMs m = 0 then Quiet
      else if firstDownMs m = 0 then (if sint (now - firstUpMs m) > dataPlaneDegradedAfterMs then NoReturn else OneWay)
      else BothWays)"

lemma dataPlaneState_stage: "dataPlaneState m now = stage_text (stage_of m now)"
  by (simp add: dataPlaneState_def stage_of_def)

section \<open>Forward only\<close>

lemma sint_diff:
  fixes a b :: "64 word"
  assumes "0 \<le> sint a" "0 \<le> sint b"
  shows "sint (a - b) = sint a - sint b"
proof -
  have "sint a < 2 ^ 63" "sint b < 2 ^ 63" using sint_lt [of a] sint_lt [of b] by simp_all
  with assms show ?thesis by (simp add: sint_word_ariths(2) signed_take_bit_int_eq_self)
qed

text \<open>A clock that reads a positive number of milliseconds.\<close>

definition clock :: "64 word \<Rightarrow> bool" where
  "clock t \<longleftrightarrow> 0 < sint t"

lemma clock_nonzero: "clock t \<Longrightarrow> t \<noteq> 0"
  by (auto simp: clock_def)

definition firsts_kept :: "tunnelMetrics \<Rightarrow> tunnelMetrics \<Rightarrow> bool" where
  "firsts_kept m m' \<longleftrightarrow> (firstUpMs m \<noteq> 0 \<longrightarrow> firstUpMs m' = firstUpMs m) \<and> (firstDownMs m \<noteq> 0 \<longrightarrow> firstDownMs m' = firstDownMs m)"

lemma fold_keeps:
  assumes "\<forall>v \<in> set ms. clock (mark_time v)"
  shows "firsts_kept m (fold apply_mark ms m)"
proof -
  have v: "list_all (\<lambda>v. mark_time v \<noteq> 0) ms" using assms clock_nonzero by (auto simp: list_all_iff)
  show ?thesis using up.kept [OF _ v, of m] down.kept [OF _ v, of m] by (auto simp: firsts_kept_def split: if_splits)
qed

lemma fold_clocked:
  "\<forall>v \<in> set ms. clock (mark_time v) \<Longrightarrow> firstUpMs m = 0 \<or> clock (firstUpMs m) \<Longrightarrow>
     firstUpMs (fold apply_mark ms m) = 0 \<or> clock (firstUpMs (fold apply_mark ms m))"
proof (induction ms arbitrary: m)
  case (Cons v ms)
  have "firstUpMs (apply_mark v m) = 0 \<or> clock (firstUpMs (apply_mark v m))"
    using Cons.prems by (cases v) (auto simp: markUp_def markDown_def Let_def)
  with Cons show ?case by simp
qed simp

lemma stage_advances:
  assumes "firsts_kept m m'" "firstUpMs m = 0 \<or> clock (firstUpMs m)" "clock now" "sint now \<le> sint now'"
  shows "stage_of m now \<le> stage_of m' now'"
proof (cases "firstUpMs m = 0 \<or> firstDownMs m \<noteq> 0")
  case True
  with assms(1) show ?thesis by (auto simp: stage_of_def firsts_kept_def less_eq_stage_def)
next
  case False
  with assms have k: "firstUpMs m' = firstUpMs m" "clock (firstUpMs m)" by (auto simp: firsts_kept_def)
  have "sint (now - firstUpMs m) \<le> sint (now' - firstUpMs m)"
    using k(2) assms(3,4) by (simp add: sint_diff clock_def)
  with False k(1) show ?thesis by (auto simp: stage_of_def less_eq_stage_def)
qed

text \<open>
  (C32) The reported data-plane state only moves forward: connected, local packets seen, no return
  traffic, bidirectional. Whatever packets pass between two looks, in whatever order the counters
  serialise them, the later look never reports an earlier stage, so a session that has seen an
  answer never falls back to "no return traffic".
\<close>

theorem data_plane_advances:
  assumes "\<forall>v \<in> set (ms @ ns). clock (mark_time v)" "clock now" "sint now \<le> sint now'"
  shows "\<exists>a b. dataPlaneState (fold apply_mark ms noMetrics) now = stage_text a
    \<and> dataPlaneState (fold apply_mark (ms @ ns) noMetrics) now' = stage_text b \<and> a \<le> b"
proof -
  have "firstUpMs (fold apply_mark ms noMetrics) = 0 \<or> clock (firstUpMs (fold apply_mark ms noMetrics))"
    by (rule fold_clocked) (use assms(1) in \<open>simp_all add: noMetrics_def\<close>)
  moreover have "firsts_kept (fold apply_mark ms noMetrics) (fold apply_mark (ms @ ns) noMetrics)"
    using fold_keeps [of ns] assms(1) by simp
  ultimately show ?thesis
    using stage_advances assms(2,3) by (intro exI conjI) (rule dataPlaneState_stage, rule dataPlaneState_stage, blast)
qed

theorem data_plane_advances_witness:
  "\<exists>a b. dataPlaneState (fold apply_mark [Up 100 5] noMetrics) 90006 = stage_text a
    \<and> dataPlaneState (fold apply_mark ([Up 100 5] @ [Down 60 90007]) noMetrics) 90008 = stage_text b \<and> a \<le> b"
  by (rule data_plane_advances) (simp_all add: clock_def)

end
