(* ===== verification/Spec2Isabelle.thy ===== *)
theory Spec2Isabelle
  imports Footprint Banner End_To_End Server_Main Data_Plane Pid_Lock Log_Sink
begin

text \<open>
  Verification development for arena-tunnel: a WireGuard client in user space that carries its
  packets over a WebSocket, and the server that ends the WebSocket and hands the packets to a
  WireGuard server.

  \<^bold>\<open>The program and its parts.\<close> \<open>client/main.go\<close> parses the command line and runs one of \<open>pair\<close>,
  \<open>logout\<close>, \<open>status\<close>, \<open>version\<close>, \<open>help\<close> or the default: take the single-instance lock, obtain a
  configuration (flags, baked-in values, a one-shot token, the stored file, or the browser
  pairing of \<open>client/pair.go\<close>), fetch the network profile the control plane signs off
  (\<open>client/network_profile.go\<close>), bring up the TUN device with exactly its routes
  (\<open>client/tun_config_*.go\<close>), arm the kill switch (\<open>client/killswitch_*.go\<close>), shovel packets
  between WireGuard's UDP socket and the WebSocket (\<open>runShovel\<close>, \<open>runOneTunnel\<close>) and poll the
  control plane until a signal or a revocation. \<open>server/main.go\<close> is the other end of the shovel.

  \<^bold>\<open>Theories.\<close>
  \<^item> \<open>Arena_Prelude\<close>, \<open>Go_Text\<close>, \<open>Base64\<close>, \<open>Netip\<close>: what the code uses of Go's \<open>strconv\<close>, \<open>strings\<close>,
    \<open>unicode/utf8\<close>, \<open>encoding/base64\<close> and \<open>net/netip\<close>, with the facts the components share.
  \<^item> \<open>Go_Os\<close>: the operating-system state (files with modes, a log of the commands run, a tick) and
    the calls on it. Every call takes a \<open>faults\<close> function: call number \<open>n\<close> fails with error
    \<open>e\<close> when \<open>flt n = Some e\<close>, so a theorem for all \<open>flt\<close> covers every pattern of failures.
  \<^item> \<open>Config_Store\<close>: \<open>client/config.go\<close>. \<open>Http_Api\<close>: \<open>doJSON\<close>, \<open>joinURL\<close> and the bearer requests.
    \<open>Network_Profile\<close>: \<open>client/network_profile.go\<close>. \<open>Tun_Config\<close>: \<open>client/tun_config_*.go\<close>.
    \<open>Kill_Switch\<close>: \<open>client/killswitch_*.go\<close>. \<open>Control_Plane\<close>: \<open>derivePubKey\<close>, \<open>pingC2State\<close>,
    \<open>fetchPeerStatus\<close>, \<open>bestEffortRevoke\<close>, \<open>client/heartbeat.go\<close>, \<open>client/trust_cleanup_*.go\<close>.
    \<open>Pairing\<close>: \<open>client/pair.go\<close>. \<open>Pid_Lock\<close>: \<open>acquirePIDLock\<close> and \<open>client/pid_*.go\<close>.
    \<open>Log_Sink\<close>: \<open>client/logsink*.go\<close>. \<open>Observability\<close> and \<open>Session_Id\<close>: \<open>client/observability.go\<close>
    (\<open>Session_Id\<close> also the two functions of \<open>server/main.go\<close> on session ids).
    \<open>Banner\<close>: \<open>client/banner.go\<close>.
  \<^item> \<open>Platform\<close>: the functions the build tags choose, as one record per operating system.
  \<^item> \<open>Client_Shovel\<close>: \<open>runShovel\<close> and \<open>runOneTunnel\<close>, the goroutines of a session as a step relation.
    \<open>Client_Args\<close>: \<open>parseArgs\<close>. \<open>Client_Connect\<close>: \<open>runConnect\<close>. \<open>Client_Main\<close>: \<open>main\<close> and the
    subcommands. \<open>Connect_Safety\<close> and \<open>Main_Safety\<close>: what a connection and an invocation guarantee.
    \<open>Footprint\<close>: the files and commands an invocation can touch. \<open>Data_Plane\<close>: the reported states of
    a session as an ordered type.
  \<^item> \<open>Server_Tunnel\<close>: \<open>server/main.go\<close>, the goroutines of a tunnel as a step relation and the server
    as the list of tunnels opened. \<open>Server_Main\<close>: its flags and the routing of requests.
  \<^item> \<open>End_To_End\<close>: a session of the client, the tunnel its dial opened, and the WebSocket between them;
    the abstract FIFO channel (\<open>fifo_step\<close>) they refine.

  \<^bold>\<open>Interfaces.\<close> Each is a locale interpreted on the model's own definitions: \<open>config_store\<close> (a
  single cell; \<open>cs\<close>), \<open>route_api\<close> (adding and withdrawing routes; \<open>lr\<close> Linux, \<open>wr\<close> Windows),
  \<open>kill_switch\<close> (\<open>lks\<close>, \<open>wks\<close>), \<open>platform_laws\<close> (what \<open>runConnect\<close> needs of a system; \<open>lp\<close>, \<open>wp\<close>,
  \<open>op\<close>), \<open>platform_files\<close> (which files they touch; \<open>lf\<close>, \<open>wf\<close>, \<open>f_other\<close>), \<open>linux_host\<close> (a client built
  for Linux; \<open>lh\<close>), \<open>file_moves\<close> (rename with POSIX and Windows semantics; \<open>posix\<close>, \<open>win\<close>), \<open>session_ids\<close>
  (\<open>csid\<close>, \<open>ssid\<close>), \<open>first_wins\<close> (write-once cells; \<open>rb\<close>, \<open>up\<close>, \<open>down\<close>), \<open>session_invariant\<close> and
  \<open>tunnel_invariant\<close> (an invariant of one session lifts to every reachable client or server).

  \<^bold>\<open>What is shown.\<close> Access: the profile validator accepts exactly the authorised profiles, only such
  profiles reach the routing table, and a reconcile only narrows it. Files: the configuration is
  replaced atomically, the log stays bounded, the lock excludes once recorded (and races before).
  Kill switch: sealing, restoring, honest reporting. Pairing: every outcome, delivery, and
  termination. Shovel: both ends relay in order without duplicates, accounting is exact, a closed
  tunnel winds down; both ends together are a FIFO channel in each direction that can always hand
  over what it took. Invocation: every run ends with a documented exit status, releases what it
  opened, opens a session only with live credentials, and leaves no file but its own changed and no
  route outside the approved ranges.

  \<^bold>\<open>Bounds.\<close> \<open>pairPoll\<close> runs on fuel 302: each further round sleeps at least two seconds and the wall
  clock ends the loop after ten minutes, so the fuel never runs out (\<open>pairPoll_returns\<close>). The
  Windows retry loop makes the 15 attempts of the code, the lock loop its five. All other loops
  are structural. Times are in milliseconds, or seconds where the code rounds to them.

  \<^bold>\<open>Parameters.\<close> Code outside the repository is an argument of the definitions that use it: JSON
  encoding and decoding, \<open>net/url\<close>, the HTTP service (\<open>service\<close>: a request to a reply or an
  error), name resolution, X25519, the WireGuard device and the kernel's TUN (commands in the
  log), \<open>iptables\<close> and PowerShell (commands in the log; for what the chain does to packets the firewall
  is a parameter with the laws of \<open>iptables(8)\<close> on commands, rules and chains as hypotheses,
  theory \<open>Kill_Switch\<close>), the clock, random bytes, the signals.

  \<^bold>\<open>Not modelled.\<close> Log lines other than those whose content is a property (statistics, reasons);
  the fixed texts of \<open>version\<close> and \<open>help\<close>; \<open>readSnippet\<close>, which only feeds an error text; the
  listening socket of the server's \<open>main\<close>; the update nudge of the polling
  goroutine; Go tests; shell scripts and workflows.
\<close>

end
